(* ===== verification/Pango_Prelude.thy ===== *)
theory Pango_Prelude
  imports Complex_Main "HOL-Library.Word" "HOL-Library.Monad_Syntax"
begin

text \<open>
  Prelude of the PANNGO development: the machine integers of the C sources, C strings in
  fixed-size buffers, the two number conversions of \<open>sprintf\<close> that the sources use
  (\<open>%d\<close> and \<open>%x\<close>), and the lemmas about them that every component shares.

  Undefined behaviour of C (a write or a read past the end of an array) is \<open>None\<close> in the
  option monad; every function that writes a buffer is therefore partial, and "no fault"
  theorems say that the result is \<open>Some\<close>.
\<close>

unbundle bit_operations_syntax

section \<open>Machine integers\<close>

type_synonym byte = "8 word"      \<comment> \<open>\<open>uint8_t\<close>\<close>
type_synonym int32 = "32 word"    \<comment> \<open>\<open>int\<close>, read by \<open>sint\<close>\<close>
type_synonym uint32 = "32 word"   \<comment> \<open>\<open>uint32_t\<close>, read by \<open>uint\<close>\<close>

named_theorems buffer_simps \<open>writing and reading C strings in fixed-size buffers\<close>
named_theorems text_simps \<open>lengths and characters of formatted texts\<close>

text \<open>A 32-bit \<open>int\<close> built from a value in range reads back as that value.\<close>

lemma sint_int32_of_int:
  assumes "- (2 ^ 31) \<le> k" and "k < 2 ^ 31"
  shows "sint (word_of_int k :: int32) = k"
  using assms by (simp add: signed_take_bit_int_eq_self sint_sbintrunc')

lemma uint_int32_of_int:
  assumes "0 \<le> k" and "k < 2 ^ 32"
  shows "uint (word_of_int k :: int32) = k"
  using assms by (simp add: take_bit_int_eq_self_iff uint_word_of_int_eq)

section \<open>Loops\<close>

text \<open>
  Two loop shapes of the sources: a counted loop that applies one step, and a loop over the
  first \<open>len\<close> elements of an array, which faults where the array is shorter.
\<close>

lemma counted_loop:
  assumes "\<And>c. f 0 c = c" and "\<And>j c. f (Suc j) c = f j (g c)"
  shows "f n c = (g ^^ n) c"
  using assms by (induction n arbitrary: c) (simp_all add: funpow_swap1)

lemma array_loop:
  assumes step: "\<And>i c. f i c =
      (if i < len then (if i < length xs then f (i + 1) (g c (xs ! i)) else None) else Some c)"
    and "len \<le> length xs" and "i \<le> len"
  shows "f i c = Some (foldl g c (drop i (take len xs)))"
  using assms(3)
proof (induction "len - i" arbitrary: i c)
  case 0
  then show ?case by (subst step) simp
next
  case (Suc n)
  then have "drop i (take len xs) = xs ! i # drop (i + 1) (take len xs)"
    using assms(2) by (simp add: Cons_nth_drop_Suc [symmetric])
  moreover have "f (i + 1) (g c (xs ! i)) = Some (foldl g (g c (xs ! i)) (drop (i + 1) (take len xs)))"
    using Suc by (intro Suc.hyps(1)) linarith+
  moreover have "i < len" "i < length xs" using Suc.hyps(2) assms(2) by linarith+
  ultimately show ?case by (subst step) simp
qed

lemma array_loop_fault:
  assumes step: "\<And>i c. f i c =
      (if i < len then (if i < length xs then f (i + 1) (g c (xs ! i)) else None) else Some c)"
    and "length xs < len" and "i \<le> length xs"
  shows "f i c = None"
  using assms(3)
proof (induction "length xs - i" arbitrary: i c)
  case 0
  then show ?case using assms(2) by (subst step) simp
next
  case (Suc n)
  then have "f (i + 1) (g c (xs ! i)) = None" by (intro Suc.hyps(1)) linarith+
  moreover have "i < len" using Suc.hyps(2) assms(2) by linarith
  ultimately show ?case by (subst step) simp
qed

section \<open>C strings\<close>

text \<open>
  A \<open>char\<close> array is a list of characters of the array's size. The string it holds ends
  before the first NUL; \<open>cstr\<close> is what \<open>%s\<close>, \<open>strcmp\<close> and \<open>strcpy\<close> read.
\<close>

abbreviation nul :: char where
  "nul \<equiv> CHR 0x00"

definition cstr :: "char list \<Rightarrow> string" where
  "cstr buf = takeWhile (\<lambda>c. c \<noteq> nul) buf"

text \<open>
  \<open>sprintf (buf + off, \<dots>)\<close> and \<open>strcpy\<close> store the characters and a NUL. Past the end of
  the array this is undefined behaviour.
\<close>

definition c_write :: "char list \<Rightarrow> nat \<Rightarrow> string \<Rightarrow> char list option" where
  "c_write buf off s =
     (if off + length s < length buf
      then Some (take off buf @ s @ [nul] @ drop (off + length s + 1) buf) else None)"

lemma c_write_length: "c_write buf off s = Some buf' \<Longrightarrow> length buf' = length buf"
  by (auto simp: c_write_def split: if_splits)

lemma c_write_Some [buffer_simps]:
  "off + length s < length buf \<Longrightarrow>
   c_write buf off s = Some (take off buf @ s @ [nul] @ drop (off + length s + 1) buf)"
  by (simp add: c_write_def)

lemma c_write_None [buffer_simps]:
  "length buf \<le> off + length s \<Longrightarrow> c_write buf off s = None"
  by (simp add: c_write_def)

lemma cstr_append_nul [buffer_simps]: "nul \<notin> set s \<Longrightarrow> cstr (s @ nul # rest) = s"
  by (auto simp: cstr_def takeWhile_append)

lemma cstr_no_nul: "nul \<notin> set (cstr buf)"
  by (auto simp: cstr_def dest: set_takeWhileD)

lemma length_cstr: "length (cstr buf) \<le> length buf"
  by (simp add: cstr_def length_takeWhile_le)

lemma length_cstr_less: "nul \<in> set buf \<Longrightarrow> length (cstr buf) < length buf"
  by (induction buf) (auto simp: cstr_def)

lemma cstr_c_write:
  assumes "c_write buf 0 s = Some buf'" and "nul \<notin> set s"
  shows "cstr buf' = s"
  using assms by (auto simp: c_write_def buffer_simps split: if_splits)

lemma nul_in_c_write: "c_write buf off s = Some buf' \<Longrightarrow> nul \<in> set buf'"
  by (auto simp: c_write_def split: if_splits)

section \<open>Number conversions of \<open>sprintf\<close>\<close>

definition digit_char :: "nat \<Rightarrow> char" where
  "digit_char d = ''0123456789abcdef'' ! d"

definition digit_val :: "char \<Rightarrow> nat" where
  "digit_val c = (if of_char c < (58 :: nat) then of_char c - 48 else of_char c - 87)"

lemma digits_16: "d < 16 \<Longrightarrow> d \<in> {0, 1, 2, 3, 4, 5, 6, 7, 8, 9, 10, 11, 12, 13, 14, 15 :: nat}"
  by simp presburger

lemma digit_val_char [text_simps]: "d < 16 \<Longrightarrow> digit_val (digit_char d) = d"
  by (drule digits_16) (auto simp: digit_char_def digit_val_def)

definition digit_chars :: "char set" where
  "digit_chars = set ''0123456789abcdef''"

lemma digit_char_in: "d < 16 \<Longrightarrow> digit_char d \<in> digit_chars"
  by (drule digits_16) (auto simp: digit_char_def digit_chars_def)

text \<open>Digits of a number to a base, most significant first, without leading zeros.\<close>

fun show_base :: "nat \<Rightarrow> nat \<Rightarrow> string" where
  "show_base b n =
     (if b < 2 \<or> n < b then [digit_char n] else show_base b (n div b) @ [digit_char (n mod b)])"

declare show_base.simps [simp del]

definition read_base :: "nat \<Rightarrow> string \<Rightarrow> nat" where
  "read_base b s = foldl (\<lambda>a c. a * b + digit_val c) 0 s"

lemma read_base_snoc: "read_base b (s @ [c]) = read_base b s * b + digit_val c"
  by (simp add: read_base_def)

lemma read_show_base:
  assumes "2 \<le> b" and "b \<le> 16"
  shows "read_base b (show_base b n) = n"
  using assms
proof (induction b n rule: show_base.induct)
  case (1 b n)
  show ?case
  proof (cases "n < b")
    case True
    with "1.prems" show ?thesis
      by (subst show_base.simps) (simp add: read_base_def text_simps)
  next
    case False
    with 1 have "read_base b (show_base b (n div b)) = n div b" by simp
    moreover have "n mod b < 16" using "1.prems" by (intro less_le_trans [OF mod_less_divisor]) auto
    ultimately show ?thesis using False "1.prems"
      by (subst show_base.simps) (simp add: read_base_snoc text_simps)
  qed
qed

lemma show_base_inject:
  assumes "2 \<le> b" and "b \<le> 16" and "show_base b m = show_base b n"
  shows "m = n"
  by (metis assms read_show_base)

lemma set_show_base_digits:
  assumes "2 \<le> b"
  shows "set (show_base b n) \<subseteq> digit_char ` {..<b}"
  using assms
proof (induction b n rule: show_base.induct)
  case (1 b n)
  show ?case
  proof (cases "n < b")
    case True
    with "1.prems" show ?thesis by (subst show_base.simps) simp
  next
    case False
    with 1 show ?thesis by (subst show_base.simps) simp
  qed
qed

lemma set_show_base:
  assumes "2 \<le> b" and "b \<le> 16"
  shows "set (show_base b n) \<subseteq> digit_chars"
proof -
  have "digit_char ` {..<b} \<subseteq> digit_chars" using assms(2) by (auto intro: digit_char_in)
  with set_show_base_digits [OF assms(1)] show ?thesis by blast
qed

lemma show_base_nonempty [text_simps]: "show_base b n \<noteq> []"
  by (subst show_base.simps) simp

lemma length_show_base:
  assumes "2 \<le> b" and "n < b ^ Suc k"
  shows "length (show_base b n) \<le> Suc k"
  using assms
proof (induction k arbitrary: n)
  case 0
  then show ?case by (subst show_base.simps) simp
next
  case (Suc k)
  show ?case
  proof (cases "n < b")
    case True
    then show ?thesis by (subst show_base.simps) simp
  next
    case False
    have "n div b < b ^ Suc k"
      using Suc.prems by (simp add: less_mult_imp_div_less mult.commute)
    with Suc.IH Suc.prems(1) have "length (show_base b (n div b)) \<le> Suc k" by blast
    with False Suc.prems show ?thesis by (subst show_base.simps) simp
  qed
qed

text \<open>\<open>%x\<close> of an \<open>unsigned\<close> and \<open>%d\<close> of an \<open>int\<close>.\<close>

definition fmt_x :: "nat \<Rightarrow> string" where
  "fmt_x n = show_base 16 n"

definition fmt_d :: "int \<Rightarrow> string" where
  "fmt_d k = (if k < 0 then CHR ''-'' # show_base 10 (nat (- k)) else show_base 10 (nat k))"

lemma length_fmt_x: "n < 256 \<Longrightarrow> length (fmt_x n) \<le> 2"
  unfolding fmt_x_def using length_show_base [of 16 n 1] by simp

lemma set_fmt_x: "set (fmt_x n) \<subseteq> digit_chars"
  by (simp add: fmt_x_def set_show_base)

lemma fmt_x_inject: "fmt_x m = fmt_x n \<Longrightarrow> m = n"
  using show_base_inject [of 16 m n] by (simp add: fmt_x_def)

lemma length_fmt_d:
  assumes "- (2 ^ 31) \<le> k" and "k < 2 ^ 31"
  shows "length (fmt_d k) \<le> 11"
proof -
  have "nat \<bar>k\<bar> < 10 ^ Suc 9" using assms by simp
  then have "length (show_base 10 (nat \<bar>k\<bar>)) \<le> Suc 9" by (intro length_show_base) simp
  then show ?thesis by (auto simp: fmt_d_def)
qed

lemma length_fmt_d_sint: "length (fmt_d (sint (w :: int32))) \<le> 11"
  using sint_range_size [of w] by (intro length_fmt_d) (auto simp: word_size)

lemma set_fmt_d: "set (fmt_d k) \<subseteq> insert (CHR ''-'') digit_chars"
  using set_show_base [of 10] by (auto simp: fmt_d_def)

lemma nul_notin_digits: "nul \<notin> digit_chars" and quote_notin_digits: "CHR 0x27 \<notin> digit_chars"
  and colon_notin_digits: "CHR '':'' \<notin> digit_chars"
  by (simp_all add: digit_chars_def)

end
