(* ===== verification/Crc8.thy ===== *)
theory Crc8
  imports Pango_Prelude
begin

text \<open>
  The CRC-8 checksum. The program has three copies of the routine: \<open>calculate_crc8\<close> on the
  STM board (\<open>pango_functions.c\<close>) and \<open>calculateCRC8\<close> on the BeagleBone
  (\<open>client_func.c\<close>) and on the server (\<open>client_thread_func.c\<close>). Each is translated with
  its two loops; reading past the array is \<open>None\<close>.

  The reference is \<open>crc8\<close>, a fold of \<open>crc8_shift\<close> over the bytes. The locale
  \<open>crc8_impl\<close> is the contract of a checksum routine, and proves once what the frame check of
  a receiver detects: any one or two flipped bits of a ten-byte frame, and any burst of up
  to eight bits.
\<close>

section \<open>The three routines\<close>

definition CRC_POLYNOMIAL :: byte where
  "CRC_POLYNOMIAL = 0x8D"

text \<open>The STM board: \<open>calculate_crc8\<close>.\<close>

primrec stm_crc8_bits :: "nat \<Rightarrow> byte \<Rightarrow> byte" where
  "stm_crc8_bits 0 crc = crc"
| "stm_crc8_bits (Suc j) crc =
     stm_crc8_bits j (if crc AND 0x80 \<noteq> 0 then push_bit 1 crc XOR CRC_POLYNOMIAL
                      else push_bit 1 crc)"

function stm_crc8_bytes :: "byte list \<Rightarrow> nat \<Rightarrow> nat \<Rightarrow> byte \<Rightarrow> byte option" where
  "stm_crc8_bytes data len i crc =
     (if i < len
      then (if i < length data
            then stm_crc8_bytes data len (i + 1) (stm_crc8_bits 8 (crc XOR data ! i))
            else None)
      else Some crc)"
  by pat_completeness auto
termination by (relation "measure (\<lambda>(data, len, i, crc). len - i)") auto

definition stm_calculate_crc8 :: "byte list \<Rightarrow> nat \<Rightarrow> byte option" where
  "stm_calculate_crc8 data len = stm_crc8_bytes data len 0 0xFF"

text \<open>The BeagleBone: \<open>calculateCRC8\<close> of \<open>client_func.c\<close>.\<close>

primrec bbb_crc8_bits :: "nat \<Rightarrow> byte \<Rightarrow> byte" where
  "bbb_crc8_bits 0 crc = crc"
| "bbb_crc8_bits (Suc j) crc =
     bbb_crc8_bits j (if crc AND 0x80 \<noteq> 0 then push_bit 1 crc XOR CRC_POLYNOMIAL
                      else push_bit 1 crc)"

function bbb_crc8_bytes :: "byte list \<Rightarrow> nat \<Rightarrow> nat \<Rightarrow> byte \<Rightarrow> byte option" where
  "bbb_crc8_bytes data len i crc =
     (if i < len
      then (if i < length data
            then bbb_crc8_bytes data len (i + 1) (bbb_crc8_bits 8 (crc XOR data ! i))
            else None)
      else Some crc)"
  by pat_completeness auto
termination by (relation "measure (\<lambda>(data, len, i, crc). len - i)") auto

definition bbb_calculateCRC8 :: "byte list \<Rightarrow> nat \<Rightarrow> byte option" where
  "bbb_calculateCRC8 data len = bbb_crc8_bytes data len 0 0xFF"

text \<open>The server: \<open>calculateCRC8\<close> of \<open>client_thread_func.c\<close>.\<close>

primrec srv_crc8_bits :: "nat \<Rightarrow> byte \<Rightarrow> byte" where
  "srv_crc8_bits 0 crc = crc"
| "srv_crc8_bits (Suc j) crc =
     srv_crc8_bits j (if crc AND 0x80 \<noteq> 0 then push_bit 1 crc XOR CRC_POLYNOMIAL
                      else push_bit 1 crc)"

function srv_crc8_bytes :: "byte list \<Rightarrow> nat \<Rightarrow> nat \<Rightarrow> byte \<Rightarrow> byte option" where
  "srv_crc8_bytes data len i crc =
     (if i < len
      then (if i < length data
            then srv_crc8_bytes data len (i + 1) (srv_crc8_bits 8 (crc XOR data ! i))
            else None)
      else Some crc)"
  by pat_completeness auto
termination by (relation "measure (\<lambda>(data, len, i, crc). len - i)") auto

definition srv_calculateCRC8 :: "byte list \<Rightarrow> nat \<Rightarrow> byte option" where
  "srv_calculateCRC8 data len = srv_crc8_bytes data len 0 0xFF"

declare stm_crc8_bytes.simps [simp del] bbb_crc8_bytes.simps [simp del]
  srv_crc8_bytes.simps [simp del]

section \<open>Reference\<close>

text \<open>One shift of the register: multiplication by \<open>x\<close> modulo the generator polynomial.\<close>

definition crc8_shift :: "byte \<Rightarrow> byte" where
  "crc8_shift c = push_bit 1 c XOR (if bit c 7 then CRC_POLYNOMIAL else 0)"

definition crc8_from :: "byte \<Rightarrow> byte list \<Rightarrow> byte" where
  "crc8_from c xs = foldl (\<lambda>c b. (crc8_shift ^^ 8) (c XOR b)) c xs"

definition crc8 :: "byte list \<Rightarrow> byte" where
  "crc8 xs = crc8_from 0xFF xs"

lemma and_0x80_iff: "(c :: byte) AND 0x80 \<noteq> 0 \<longleftrightarrow> bit c 7"
proof -
  have "(0x80 :: byte) = push_bit 7 1" by simp
  then show ?thesis by (simp only: and_exp_eq_0_iff_not_bit push_bit_of_1 not_not)
qed

lemma crc8_shift_if:
  "(if c AND 0x80 \<noteq> 0 then push_bit 1 c XOR CRC_POLYNOMIAL else push_bit 1 c) = crc8_shift c"
  by (simp only: and_0x80_iff crc8_shift_def) simp

lemma stm_bits: "stm_crc8_bits n c = (crc8_shift ^^ n) c"
  and bbb_bits: "bbb_crc8_bits n c = (crc8_shift ^^ n) c"
  and srv_bits: "srv_crc8_bits n c = (crc8_shift ^^ n) c"
  by (rule counted_loop; simp only: stm_crc8_bits.simps bbb_crc8_bits.simps srv_crc8_bits.simps
        crc8_shift_if)+

lemma crc8_from_Cons: "crc8_from c (x # xs) = crc8_from ((crc8_shift ^^ 8) (c XOR x)) xs"
  by (simp only: crc8_from_def foldl_Cons)

lemma stm_calculate_eq:
  "stm_calculate_crc8 data len = (if len \<le> length data then Some (crc8 (take len data)) else None)"
  unfolding stm_calculate_crc8_def crc8_def crc8_from_def stm_bits [symmetric]
  using array_loop [OF stm_crc8_bytes.simps [of data len], of 0 "0xFF"]
    array_loop_fault [OF stm_crc8_bytes.simps [of data len], of 0 "0xFF"] by simp

lemma bbb_calculate_eq:
  "bbb_calculateCRC8 data len = (if len \<le> length data then Some (crc8 (take len data)) else None)"
  unfolding bbb_calculateCRC8_def crc8_def crc8_from_def bbb_bits [symmetric]
  using array_loop [OF bbb_crc8_bytes.simps [of data len], of 0 "0xFF"]
    array_loop_fault [OF bbb_crc8_bytes.simps [of data len], of 0 "0xFF"] by simp

lemma srv_calculate_eq:
  "srv_calculateCRC8 data len = (if len \<le> length data then Some (crc8 (take len data)) else None)"
  unfolding srv_calculateCRC8_def crc8_def crc8_from_def srv_bits [symmetric]
  using array_loop [OF srv_crc8_bytes.simps [of data len], of 0 "0xFF"]
    array_loop_fault [OF srv_crc8_bytes.simps [of data len], of 0 "0xFF"] by simp

section \<open>The register as a linear, invertible map\<close>

lemma crc8_shift_xor: "crc8_shift (a XOR b) = crc8_shift a XOR crc8_shift b"
  by (cases "bit a 7"; cases "bit b 7")
     (simp_all add: crc8_shift_def bit_xor_iff push_bit_xor xor.left_commute xor.assoc xor.commute)

lemma crc8_shift_0: "crc8_shift 0 = 0"
  by (simp add: crc8_shift_def)

lemma crc8_shifts_xor: "(crc8_shift ^^ n) (a XOR b) = (crc8_shift ^^ n) a XOR (crc8_shift ^^ n) b"
  by (induction n) (simp_all add: crc8_shift_xor)

lemma crc8_shifts_0: "(crc8_shift ^^ n) 0 = 0"
  by (induction n) (simp_all add: crc8_shift_0)

lemma crc8_shift_zero:
  assumes "crc8_shift c = 0" shows "c = 0"
proof -
  have poly: "bit CRC_POLYNOMIAL 0" by (simp add: CRC_POLYNOMIAL_def)
  have "\<not> bit (crc8_shift c) 0" using assms by simp
  then have "\<not> bit c 7" using poly by (auto simp: crc8_shift_def bit_xor_iff bit_0 even_xor_iff)
  with assms have "push_bit 1 c = 0" by (simp add: crc8_shift_def)
  have "\<not> bit c n" if "n < 8" for n
  proof (cases "n = 7")
    case False
    have "bit (push_bit 1 c) (Suc n) = bit c n" using that False unfolding bit_push_bit_iff by simp
    with \<open>push_bit 1 c = 0\<close> show ?thesis by simp
  qed (use \<open>\<not> bit c 7\<close> in simp)
  then show ?thesis by (intro bit_word_eqI) simp
qed

lemma crc8_shifts_zero: "(crc8_shift ^^ n) c = 0 \<Longrightarrow> c = 0"
  by (induction n) (auto dest: crc8_shift_zero)

lemma crc8_shifts_inject: "(crc8_shift ^^ n) a = (crc8_shift ^^ n) b \<Longrightarrow> a = b"
  using crc8_shifts_zero [of n "a XOR b"] xor.assoc [of a b b] by (simp add: crc8_shifts_xor)

section \<open>The checksum as a polynomial remainder\<close>

text \<open>
  A natural number is read as a polynomial over GF(2), bit \<open>i\<close> the coefficient of \<open>x ^ i\<close>.
  The generator is \<open>x^8 + x^7 + x^3 + x^2 + 1\<close>; \<open>gf2_times_gen bs\<close> is the product of the
  generator with the polynomial whose coefficients are \<open>bs\<close>, lowest first.
\<close>

definition gf2_gen :: nat where
  "gf2_gen = 0x18D"

fun gf2_times_gen :: "bool list \<Rightarrow> nat" where
  "gf2_times_gen [] = 0"
| "gf2_times_gen (b # bs) = 2 * gf2_times_gen bs XOR (if b then gf2_gen else 0)"

definition gf2_cong :: "nat \<Rightarrow> nat \<Rightarrow> bool" where
  "gf2_cong a b \<longleftrightarrow> (\<exists>q. a XOR b = gf2_times_gen q)"

text \<open>The bytes of a message as one number, the first byte most significant.\<close>

definition message_poly :: "byte list \<Rightarrow> nat" where
  "message_poly xs = foldl (\<lambda>a b. push_bit 8 a XOR unat b) 0 xs"

lemma double_xor: "2 * (a XOR b) = 2 * a XOR 2 * (b :: nat)"
  by (rule bit_eqI) (auto simp: bit_double_iff bit_xor_iff)

lemma xor_cancel: "a XOR (b XOR a) = (b :: nat)"
  unfolding xor.commute [of b a] xor.assoc [symmetric] by simp

lemma gf2_times_gen_xor: "\<exists>r. gf2_times_gen p XOR gf2_times_gen q = gf2_times_gen r"
proof (induction p arbitrary: q)
  case (Cons a p)
  show ?case
  proof (cases q)
    case (Cons b q')
    from Cons.IH obtain r where r: "gf2_times_gen p XOR gf2_times_gen q' = gf2_times_gen r" by blast
    have "gf2_times_gen (a # p) XOR gf2_times_gen q =
        (2 * gf2_times_gen p XOR 2 * gf2_times_gen q')
        XOR ((if a then gf2_gen else 0) XOR (if b then gf2_gen else 0))"
      unfolding Cons gf2_times_gen.simps by (simp only: ac_simps)
    also have "\<dots> = gf2_times_gen ((a \<noteq> b) # r)"
      unfolding double_xor [symmetric] r by simp
    finally show ?thesis by blast
  qed (auto intro: exI [of _ "a # p"])
qed (auto intro: exI)

lemma gf2_cong_refl: "gf2_cong a a"
  unfolding gf2_cong_def by (rule exI [of _ "[]"]) simp

lemma gf2_cong_trans: "gf2_cong a b \<Longrightarrow> gf2_cong b c \<Longrightarrow> gf2_cong a c"
  unfolding gf2_cong_def
  by (metis gf2_times_gen_xor xor.assoc xor.left_neutral xor_self_eq)

lemma gf2_cong_xor: "gf2_cong a b \<Longrightarrow> gf2_cong (a XOR c) (b XOR c)"
  unfolding gf2_cong_def by (metis xor.assoc xor.commute xor.left_neutral xor_self_eq)

lemma gf2_cong_double: "gf2_cong a b \<Longrightarrow> gf2_cong (2 * a) (2 * b)"
proof -
  assume "gf2_cong a b"
  then obtain q where "a XOR b = gf2_times_gen q" by (auto simp: gf2_cong_def)
  then have "2 * a XOR 2 * b = gf2_times_gen (False # q)" by (simp flip: double_xor)
  then show ?thesis unfolding gf2_cong_def by blast
qed

lemma gf2_cong_push_bit: "gf2_cong a b \<Longrightarrow> gf2_cong (push_bit n a) (push_bit n b)"
  by (induction n arbitrary: a b) (simp_all add: mult.commute [of _ 2] gf2_cong_double)

lemma take_bit_8_gen:
  assumes "bit m 8" and "m < 512"
  shows "take_bit 8 m XOR 0x8D = m XOR gf2_gen"
proof -
  have "take_bit 9 m = m" using assms(2) by (simp add: take_bit_nat_eq_self_iff)
  then have high: "bit m n \<Longrightarrow> n < 9" for n by (metis bit_take_bit_iff)
  have "take_bit 8 m = m XOR 2 ^ 8"
  proof (rule bit_eqI)
    fix n
    show "bit (take_bit 8 m) n = bit (m XOR 2 ^ 8) n"
      unfolding bit_take_bit_iff bit_xor_iff bit_exp_iff
      using assms(1) high [of n] by (cases "n = 8") auto
  qed
  moreover have "(2 ^ 8 XOR 0x8D :: nat) = gf2_gen" by (simp add: gf2_gen_def)
  ultimately show ?thesis by (metis xor.assoc)
qed

lemma unat_crc8_shift: "unat (crc8_shift c) = 2 * unat c XOR (if bit c 7 then gf2_gen else 0)"
proof -
  have u: "unat (push_bit 1 c) = take_bit 8 (2 * unat c)"
    unfolding unsigned_push_bit_eq by (simp add: mult.commute)
  have "unat c < 256" using unsigned_less [of c] by simp
  show ?thesis
  proof (cases "bit c 7")
    case True
    then have "bit (2 * unat c) 8" using bit_double_iff [of "unat c" 8] by (simp add: bit_unsigned_iff)
    then have "take_bit 8 (2 * unat c) XOR 0x8D = 2 * unat c XOR gf2_gen"
      using \<open>unat c < 256\<close> by (intro take_bit_8_gen) simp_all
    with True u show ?thesis by (simp add: crc8_shift_def unsigned_xor_eq CRC_POLYNOMIAL_def)
  next
    case False
    then have "\<not> bit (unat c) 7" by (simp add: bit_unsigned_iff)
    then have "even (unat c div 128)" unfolding bit_iff_odd by simp
    moreover have "unat c div 128 < 2" using \<open>unat c < 256\<close> by (simp add: less_mult_imp_div_less)
    ultimately have "unat c div 128 = 0" by (cases "unat c div 128 = 1") auto
    then have "unat c < 128" by (simp add: div_eq_0_iff)
    with False u show ?thesis by (simp add: crc8_shift_def take_bit_nat_eq_self_iff)
  qed
qed

lemma crc8_shift_cong: "gf2_cong (unat ((crc8_shift ^^ n) c)) (push_bit n (unat c))"
proof (induction n)
  case (Suc n)
  let ?d = "(crc8_shift ^^ n) c"
  have "unat (crc8_shift ?d) XOR 2 * unat ?d = gf2_times_gen [bit ?d 7]"
    by (simp add: unat_crc8_shift xor.assoc xor_cancel)
  then have "gf2_cong (unat (crc8_shift ?d)) (2 * unat ?d)" unfolding gf2_cong_def by blast
  moreover have "gf2_cong (2 * unat ?d) (push_bit (Suc n) (unat c))"
    using gf2_cong_double [OF Suc] by (simp add: push_bit_double mult.commute)
  ultimately show ?case using gf2_cong_trans by simp
qed (simp add: gf2_cong_refl)

text \<open>
  The message is followed by eight zero bits, and its first eight bits are complemented by
  the initial register: the checksum is congruent to that polynomial modulo the generator.
\<close>

lemma crc8_from_cong:
  "gf2_cong (unat (crc8_from c xs))
     (push_bit (8 * length xs) (unat c) XOR push_bit 8 (message_poly xs))"
proof (induction xs rule: rev_induct)
  case Nil
  then show ?case by (simp add: crc8_from_def message_poly_def gf2_cong_refl)
next
  case (snoc x xs)
  let ?r = "crc8_from c xs" and ?n = "push_bit (8 * length xs) (unat c)"
  have length: "8 * length (xs @ [x]) = 8 + 8 * length xs" by simp
  have "crc8_from c (xs @ [x]) = (crc8_shift ^^ 8) (?r XOR x)"
    by (simp only: crc8_from_def foldl_append foldl_Cons foldl_Nil)
  moreover have "gf2_cong (unat ((crc8_shift ^^ 8) (?r XOR x))) (push_bit 8 (unat ?r XOR unat x))"
    using crc8_shift_cong [of 8 "?r XOR x"] by (simp only: unsigned_xor_eq)
  moreover have "gf2_cong (push_bit 8 (unat ?r XOR unat x))
      (push_bit 8 ((?n XOR push_bit 8 (message_poly xs)) XOR unat x))"
    by (intro gf2_cong_push_bit gf2_cong_xor snoc.IH)
  moreover have "push_bit 8 ((?n XOR push_bit 8 (message_poly xs)) XOR unat x)
      = push_bit (8 * length (xs @ [x])) (unat c) XOR push_bit 8 (message_poly (xs @ [x]))"
    unfolding length
    by (simp only: push_bit_xor push_bit_push_bit message_poly_def foldl_append foldl_Cons
        foldl_Nil xor.assoc)
  ultimately show ?case by (simp only: gf2_cong_trans)
qed

text \<open>A multiple of the generator below \<open>x^8\<close> is zero, so the remainder is unique.\<close>

lemma gf2_times_gen_degree: "gf2_times_gen q = 0 \<or> 256 \<le> gf2_times_gen q"
proof (induction q)
  case (Cons b q)
  show ?case
  proof (cases "gf2_times_gen q = 0")
    case True
    then show ?thesis by (simp add: gf2_gen_def)
  next
    case False
    let ?v = "2 * gf2_times_gen q XOR (if b then gf2_gen else 0)"
    have "drop_bit 9 (if b then gf2_gen else 0) = 0" by (simp add: gf2_gen_def drop_bit_eq_div)
    then have "drop_bit 9 ?v = drop_bit 9 (2 * gf2_times_gen q)" by (simp add: drop_bit_xor)
    moreover have "512 \<le> 2 * gf2_times_gen q" using False Cons.IH by simp
    then have "1 \<le> drop_bit 9 (2 * gf2_times_gen q)"
      unfolding drop_bit_eq_div by (simp add: le_div_geq)
    ultimately have "1 \<le> ?v div 512" by (simp add: drop_bit_eq_div)
    then have "512 \<le> ?v" by (metis div_less not_le not_one_le_zero)
    then show ?thesis by simp
  qed
qed simp

lemma gf2_remainder_unique:
  assumes "gf2_cong a b" and "a < 256" and "b < 256"
  shows "a = b"
proof -
  obtain q where q: "a XOR b = gf2_times_gen q" using assms(1) by (auto simp: gf2_cong_def)
  have "take_bit 8 a = a" "take_bit 8 b = b" using assms(2,3) by (simp_all add: take_bit_nat_eq_self)
  then have "a XOR b = take_bit 8 (a XOR b)" by simp
  moreover have "take_bit 8 (a XOR b) < 2 ^ 8" by (rule take_bit_nat_less_exp)
  ultimately have "a XOR b < 256" by simp
  with q gf2_times_gen_degree [of q] have "a XOR b = 0" by simp
  then show ?thesis using xor.assoc [of a b b] by simp
qed

lemma crc8_remainder:
  assumes "r < 256"
  shows "gf2_cong r (push_bit (8 * length xs) 0xFF XOR push_bit 8 (message_poly xs)) \<longleftrightarrow> r = unat (crc8 xs)"
  (is "gf2_cong r ?m \<longleftrightarrow> _")
proof -
  have crc: "gf2_cong (unat (crc8 xs)) ?m" using crc8_from_cong [of "0xFF" xs] by (simp add: crc8_def)
  have "gf2_cong ?m (unat (crc8 xs))" using crc by (simp add: gf2_cong_def xor.commute)
  then have "gf2_cong r ?m \<Longrightarrow> r = unat (crc8 xs)"
    using gf2_remainder_unique [OF gf2_cong_trans, of r ?m] assms unsigned_less [of "crc8 xs"] by auto
  with crc show ?thesis by blast
qed

section \<open>Order of the generator\<close>

text \<open>
  Shifting 1 does not come back to 1 within the 80 bits of a frame, so the syndromes of two
  different bits of a frame differ.
\<close>

fun crc8_orbit :: "nat \<Rightarrow> byte \<Rightarrow> byte list" where
  "crc8_orbit 0 c = []"
| "crc8_orbit (Suc n) c = c # crc8_orbit n (crc8_shift c)"

lemma crc8_orbit_mem: "m < n \<Longrightarrow> (crc8_shift ^^ m) c \<in> set (crc8_orbit n c)"
proof (induction n arbitrary: m c)
  case (Suc n)
  show ?case
  proof (cases m)
    case (Suc k)
    with Suc.prems Suc.IH [of k "crc8_shift c"] show ?thesis by (simp add: funpow_swap1)
  qed simp
qed simp

lemma crc8_orbit_80: "1 \<notin> set (crc8_orbit 79 (crc8_shift 1))"
  by code_simp

lemma crc8_order: "0 < m \<Longrightarrow> m < 80 \<Longrightarrow> (crc8_shift ^^ m) 1 \<noteq> 1"
  using crc8_orbit_mem [of "m - 1" 79 "crc8_shift 1"] crc8_orbit_80
  by (cases m) (auto simp: funpow_swap1)

lemma crc8_powers_inject:
  assumes "(crc8_shift ^^ d) 1 = (crc8_shift ^^ e) 1" and "d < 80" and "e < 80"
  shows "d = e"
proof -
  have *: False if "(crc8_shift ^^ d) 1 = (crc8_shift ^^ e) (1 :: byte)" "d < e" "e < 80" for d e
  proof -
    from that(2) have "e = d + (e - d)" by simp
    with that(1) have "(crc8_shift ^^ d) 1 = (crc8_shift ^^ d) ((crc8_shift ^^ (e - d)) 1)"
      by (metis funpow_add o_apply)
    then have "(crc8_shift ^^ (e - d)) 1 = 1" by (metis crc8_shifts_inject)
    then show False using crc8_order [of "e - d"] that(2,3) by simp
  qed
  show ?thesis
  proof (rule ccontr)
    assume "d \<noteq> e"
    then consider "d < e" | "e < d" by linarith
    then show False by cases (use * [of d e] * [of e d] assms in auto)
  qed
qed

lemma push_bit_eq_shifts: "k < 8 \<Longrightarrow> push_bit k 1 = (crc8_shift ^^ k) (1 :: byte)"
proof (induction k)
  case (Suc k)
  have "\<not> bit (push_bit k 1 :: byte) 7"
    unfolding bit_push_bit_iff using Suc.prems by (simp add: bit_1_iff)
  then have "crc8_shift (push_bit k 1) = push_bit (Suc k) 1"
    by (simp only: crc8_shift_def push_bit_push_bit if_False xor.right_neutral plus_1_eq_Suc)
  moreover have "push_bit k 1 = (crc8_shift ^^ k) 1" using Suc by simp
  ultimately show ?case by (simp only: funpow.simps o_apply)
qed simp

section \<open>Frames, flipped bits and syndromes\<close>

text \<open>
  A frame is nine data bytes and the checksum. Bit \<open>d\<close> of a frame counts from the end of
  the transmission: bits 0 to 7 are the checksum byte, bit 79 is the first bit sent.
\<close>

definition frame_ok :: "byte list \<Rightarrow> bool" where
  "frame_ok p \<longleftrightarrow> p ! 9 = crc8 (take 9 p)"

definition flip_bit :: "nat \<Rightarrow> byte list \<Rightarrow> byte list" where
  "flip_bit d p = p[9 - d div 8 := p ! (9 - d div 8) XOR push_bit (d mod 8) 1]"

definition syndrome :: "byte list \<Rightarrow> byte" where
  "syndrome p = crc8 (take 9 p) XOR p ! 9"

lemma frame_ok_syndrome: "frame_ok p \<longleftrightarrow> syndrome p = 0"
  using xor.assoc [of "crc8 (take 9 p)" "p ! 9" "p ! 9"] by (auto simp: frame_ok_def syndrome_def)

lemma length_flip_bit [simp]: "length (flip_bit d p) = length p"
  by (simp add: flip_bit_def)

lemma crc8_from_xor:
  "crc8_from (c XOR v) xs = crc8_from c xs XOR (crc8_shift ^^ (8 * length xs)) v"
proof (induction xs arbitrary: c v)
  case Nil
  then show ?case by (simp add: crc8_from_def)
next
  case (Cons x xs)
  have "crc8_from (c XOR v) (x # xs) = crc8_from ((crc8_shift ^^ 8) (c XOR x) XOR (crc8_shift ^^ 8) v) xs"
    by (simp only: crc8_from_Cons crc8_shifts_xor [symmetric] xor.assoc xor.commute [of x v])
  also have "\<dots> = crc8_from c (x # xs) XOR (crc8_shift ^^ (8 * length xs)) ((crc8_shift ^^ 8) v)"
    by (simp only: Cons.IH crc8_from_Cons)
  also have "(crc8_shift ^^ (8 * length xs)) ((crc8_shift ^^ 8) v) = (crc8_shift ^^ (8 * length xs + 8)) v"
    by (simp only: funpow_add o_apply)
  finally show ?case by (simp add: ac_simps)
qed

lemma crc8_from_update:
  "i < length xs \<Longrightarrow>
   crc8_from c (xs[i := xs ! i XOR v]) = crc8_from c xs XOR (crc8_shift ^^ (8 * (length xs - i))) v"
proof (induction xs arbitrary: c i)
  case (Cons x xs)
  show ?case
  proof (cases i)
    case 0
    have "crc8_from c ((x XOR v) # xs) = crc8_from (c XOR v) (x # xs)"
      by (simp only: crc8_from_Cons xor.assoc xor.commute [of x v])
    with 0 show ?thesis by (simp only: crc8_from_xor list_update.simps nth_Cons_0 nat.case diff_zero)
  next
    case (Suc k)
    with Cons show ?thesis by (simp add: crc8_from_Cons)
  qed
qed simp

lemma syndrome_flip_bit:
  assumes "length p = 10" and "d < 80"
  shows "syndrome (flip_bit d p) = syndrome p XOR (crc8_shift ^^ d) 1"
proof (cases "d < 8")
  case True
  then have "push_bit d 1 = (crc8_shift ^^ d) (1 :: byte)" by (rule push_bit_eq_shifts)
  with True assms show ?thesis by (simp add: syndrome_def flip_bit_def xor.assoc del: push_bit_of_1)
next
  case False
  let ?i = "9 - d div 8" and ?v = "push_bit (d mod 8) 1 :: byte"
  have i: "?i < 9" "d div 8 \<le> 9" using False assms(2) by auto
  have v: "?v = (crc8_shift ^^ (d mod 8)) 1" by (rule push_bit_eq_shifts) simp
  have "crc8_from 0xFF (take 9 (flip_bit d p)) = crc8_from 0xFF ((take 9 p)[?i := take 9 p ! ?i XOR ?v])"
    using i by (simp add: flip_bit_def take_update_swap)
  also have "\<dots> = crc8_from 0xFF (take 9 p) XOR (crc8_shift ^^ (8 * (9 - ?i))) ?v"
    using i assms(1) by (subst crc8_from_update) (simp_all add: min_def)
  also have "8 * (9 - ?i) = 8 * (d div 8)" using i by simp
  also have "(crc8_shift ^^ (8 * (d div 8))) ?v = (crc8_shift ^^ d) 1"
    unfolding v by (simp only: funpow_add [symmetric, THEN fun_cong, unfolded o_apply]) simp
  finally have "crc8 (take 9 (flip_bit d p)) = crc8 (take 9 p) XOR (crc8_shift ^^ d) 1"
    by (simp only: crc8_def)
  moreover have "flip_bit d p ! 9 = p ! 9" using i by (simp add: flip_bit_def)
  ultimately show ?thesis by (simp only: syndrome_def xor.assoc xor.commute [of "(crc8_shift ^^ d) 1"])
qed

text \<open>Several flipped bits.\<close>

definition flip_bits :: "nat list \<Rightarrow> byte list \<Rightarrow> byte list" where
  "flip_bits ds p = foldr flip_bit ds p"

lemma length_flip_bits [simp]: "length (flip_bits ds p) = length p"
  by (induction ds) (simp_all add: flip_bits_def)

lemma syndrome_flip_bits:
  assumes "length p = 10" and "set ds \<subseteq> {..<80}"
  shows "syndrome (flip_bits ds p) = syndrome p XOR foldr (\<lambda>d s. s XOR (crc8_shift ^^ d) 1) ds 0"
  using assms
proof (induction ds)
  case (Cons d ds)
  then have "syndrome (flip_bit d (flip_bits ds p)) = syndrome (flip_bits ds p) XOR (crc8_shift ^^ d) 1"
    by (intro syndrome_flip_bit) simp_all
  with Cons show ?case by (simp add: flip_bits_def xor.assoc)
qed (simp add: flip_bits_def)

text \<open>A burst within eight bits from bit \<open>d\<close> on is a byte, shifted \<open>d\<close> times.\<close>

definition burst_byte :: "nat \<Rightarrow> nat list \<Rightarrow> byte" where
  "burst_byte d ds = foldr (\<lambda>k s. s XOR push_bit (k - d) 1) ds 0"

lemma burst_shifts:
  "set ds \<subseteq> {d..<d + 8} \<Longrightarrow>
   foldr (\<lambda>k s. s XOR (crc8_shift ^^ k) 1) ds 0 = (crc8_shift ^^ d) (burst_byte d ds)"
proof (induction ds)
  case Nil
  then show ?case by (simp add: burst_byte_def crc8_shifts_0)
next
  case (Cons k ds)
  then have "push_bit (k - d) 1 = (crc8_shift ^^ (k - d)) (1 :: byte)" and k: "k = d + (k - d)"
    by (auto intro!: push_bit_eq_shifts simp del: push_bit_of_1)
  then have "(crc8_shift ^^ d) (push_bit (k - d) 1) = (crc8_shift ^^ k) 1"
    by (metis funpow_add o_apply)
  with Cons show ?case by (simp add: burst_byte_def crc8_shifts_xor del: push_bit_of_1)
qed

lemma bit_burst_byte:
  "distinct ds \<Longrightarrow> set ds \<subseteq> {d..<d + 8} \<Longrightarrow> j < 8 \<Longrightarrow> bit (burst_byte d ds) j \<longleftrightarrow> d + j \<in> set ds"
proof (induction ds)
  case (Cons k ds)
  have "bit (push_bit (k - d) 1 :: byte) j \<longleftrightarrow> j = k - d"
    unfolding bit_push_bit_iff using Cons.prems(3) by (auto simp: bit_1_iff)
  moreover have "burst_byte d (k # ds) = burst_byte d ds XOR push_bit (k - d) 1"
    by (simp add: burst_byte_def)
  ultimately show ?case using Cons by (auto simp: bit_xor_iff)
qed (simp add: burst_byte_def)

lemma burst_byte_nonzero:
  assumes "distinct ds" and "set ds \<subseteq> {d..<d + 8}" and "ds \<noteq> []"
  shows "burst_byte d ds \<noteq> 0"
proof -
  from assms obtain k where "k \<in> set ds" by (cases ds) auto
  moreover from this assms(2) have "d \<le> k" "k < d + 8" by auto
  ultimately have "bit (burst_byte d ds) (k - d)" using bit_burst_byte [OF assms(1,2), of "k - d"] by simp
  then show ?thesis by auto
qed

section \<open>The contract of a checksum routine\<close>

text \<open>
  The error patterns a receiver must notice, as lists of flipped bit positions: one or two
  bits anywhere in the frame, or any number of bits within eight consecutive positions.
\<close>

definition detectable :: "nat list \<Rightarrow> bool" where
  "detectable ds \<longleftrightarrow> ds \<noteq> [] \<and> distinct ds \<and> list_all (\<lambda>d. d < 80) ds \<and>
     (length ds \<le> 2 \<or> Max (set ds) < Min (set ds) + 8)"

locale crc8_impl =
  fixes crc :: "byte list \<Rightarrow> nat \<Rightarrow> byte option"
  assumes crc_ref: "crc data len = (if len \<le> length data then Some (crc8 (take len data)) else None)"
begin

text \<open>A receiver compares the tenth byte with the checksum of the first nine.\<close>

lemma check_iff: "length p = 10 \<Longrightarrow> crc p 9 = Some (p ! 9) \<longleftrightarrow> frame_ok p"
  by (auto simp: crc_ref frame_ok_def)

lemma seal: "length p = 10 \<Longrightarrow> crc p 9 = Some c \<Longrightarrow> frame_ok (p[9 := c])"
  by (simp add: crc_ref frame_ok_def)

lemma detects_two_bits:
  assumes "length p = 10" and "crc p 9 = Some (p ! 9)" and "d < 80" and "e < 80" and "d \<noteq> e"
  shows "crc (flip_bits [d, e] p) 9 \<noteq> Some (flip_bits [d, e] p ! 9)"
proof -
  have "syndrome p = 0" using assms(1,2) by (simp add: check_iff frame_ok_syndrome)
  then have "syndrome (flip_bits [d, e] p) = (crc8_shift ^^ e) 1 XOR (crc8_shift ^^ d) 1"
    using assms by (simp add: syndrome_flip_bits)
  also have "\<dots> \<noteq> 0"
  proof
    assume "(crc8_shift ^^ e) 1 XOR (crc8_shift ^^ d) (1 :: byte) = 0"
    then have "(crc8_shift ^^ e) 1 = (crc8_shift ^^ d) (1 :: byte)"
      using xor.assoc [of "(crc8_shift ^^ e) 1" "(crc8_shift ^^ d) 1" "(crc8_shift ^^ d) (1 :: byte)"] by simp
    with assms show False using crc8_powers_inject by metis
  qed
  finally show ?thesis using assms(1) by (simp add: check_iff frame_ok_syndrome)
qed

lemma detects_burst:
  assumes "length p = 10" and "crc p 9 = Some (p ! 9)"
    and "distinct ds" and "ds \<noteq> []" and "set ds \<subseteq> {d..<d + 8}" and "d + 8 \<le> 80"
  shows "crc (flip_bits ds p) 9 \<noteq> Some (flip_bits ds p ! 9)"
proof -
  have "set ds \<subseteq> {..<80}" using assms(5,6) by auto
  moreover have "syndrome p = 0" using assms(1,2) by (simp add: check_iff frame_ok_syndrome)
  ultimately have "syndrome (flip_bits ds p) = (crc8_shift ^^ d) (burst_byte d ds)"
    using assms by (simp add: syndrome_flip_bits burst_shifts)
  also have "\<dots> \<noteq> 0" using burst_byte_nonzero assms crc8_shifts_zero by blast
  finally show ?thesis using assms(1) by (simp add: check_iff frame_ok_syndrome)
qed

lemma detects_one_bit:
  assumes "length p = 10" and "crc p 9 = Some (p ! 9)" and "d < 80"
  shows "crc (flip_bit d p) 9 \<noteq> Some (flip_bit d p ! 9)"
  using detects_burst [OF assms(1,2), of "[d]" "min d 72"] assms(3) by (auto simp: flip_bits_def min_def)

lemma detects:
  assumes "length p = 10" and "frame_ok p" and "detectable ds"
  shows "\<not> frame_ok (flip_bits ds p)"
proof -
  have ok: "crc p 9 = Some (p ! 9)" using assms(1,2) by (simp add: check_iff)
  have "crc (flip_bits ds p) 9 \<noteq> Some (flip_bits ds p ! 9)"
  proof (cases "Max (set ds) < Min (set ds) + 8")
    case True
    let ?d = "min (Min (set ds)) 72"
    have "set ds \<subseteq> {?d..<?d + 8}"
    proof
      fix e assume e: "e \<in> set ds"
      then have "Min (set ds) \<le> e" "e \<le> Max (set ds)" "e < 80"
        using assms(3) by (simp_all add: detectable_def list_all_iff)
      with True show "e \<in> {?d..<?d + 8}" by (auto simp: min_def)
    qed
    then show ?thesis using assms(3) by (intro detects_burst [OF assms(1) ok]) (auto simp: detectable_def)
  next
    case False
    then have "length ds \<le> 2" "ds \<noteq> []" using assms(3) by (auto simp: detectable_def)
    then consider d where "ds = [d]" | d e where "ds = [d, e]"
      by (cases ds; cases "tl ds") auto
    then show ?thesis
    proof cases
      case 1
      then show ?thesis using detects_one_bit [OF assms(1) ok] assms(3)
        by (simp add: detectable_def flip_bits_def)
    next
      case 2
      then show ?thesis using detects_two_bits [OF assms(1) ok] assms(3) by (simp add: detectable_def)
    qed
  qed
  then show ?thesis using assms(1) by (simp add: check_iff)
qed

end

interpretation stm_crc: crc8_impl stm_calculate_crc8
  by unfold_locales (rule stm_calculate_eq)

interpretation bbb_crc: crc8_impl bbb_calculateCRC8
  by unfold_locales (rule bbb_calculate_eq)

interpretation srv_crc: crc8_impl srv_calculateCRC8
  by unfold_locales (rule srv_calculate_eq)

end
