(* ===== verification/Binary64.thy ===== *)
theory Binary64
  imports Pango_Prelude "HOL-Library.Log_Nat"
begin

text \<open>
  The C type \<open>double\<close>: a finite IEEE 754 binary64 number is the rational it denotes, and an
  arithmetic operation rounds the exact rational result to the nearest number with a 53-bit
  significand and an exponent of at least -1074, ties to the even significand. Infinities
  and NaN are not modelled. The only operation of the program is the product of a price per
  second and a number of seconds, and \<open>double_mult\<close> is this product of C as long as it does not
  overflow: for two doubles (\<open>is_double\<close>) whose exact product is at most \<open>max_double\<close> the result is
  a double again (\<open>double_mult_finite\<close>); beyond that C gives an infinity and \<open>double_mult\<close> a
  rational that is no double.
\<close>

section \<open>Rounding\<close>

text \<open>The exponent of a non-zero number: \<open>2 powi ilog2 x \<le> \<bar>x\<bar> < 2 powi (ilog2 x + 1)\<close>.\<close>

definition ilog2 :: "rat \<Rightarrow> int" where
  "ilog2 x =
     (let (p, q) = quotient_of \<bar>x\<bar>; l = bitlen p - bitlen q
      in if 2 powi l \<le> \<bar>x\<bar> then l else l - 1)"

definition round_half_even :: "rat \<Rightarrow> int" where
  "round_half_even x =
     (let f = \<lfloor>x\<rfloor>; d = x - of_int f
      in if d < 1 / 2 then f else if 1 / 2 < d then f + 1 else if even f then f else f + 1)"

definition ulp_exponent :: "rat \<Rightarrow> int" where
  "ulp_exponent x = max (ilog2 x - 52) (- 1074)"

definition round64 :: "rat \<Rightarrow> rat" where
  "round64 x =
     (if x = 0 then 0
      else of_int (round_half_even (x / 2 powi ulp_exponent x)) * 2 powi ulp_exponent x)"

text \<open>The product of two doubles and the conversion of an \<open>int\<close>, as C computes them.\<close>

definition double_mult :: "rat \<Rightarrow> rat \<Rightarrow> rat" where
  "double_mult x y = round64 (x * y)"

definition double_of_int :: "int32 \<Rightarrow> rat" where
  "double_of_int w = round64 (of_int (sint w))"

text \<open>The largest finite double, and the rationals that a finite double can denote.\<close>

definition max_double :: rat where
  "max_double = (2 ^ 53 - 1) * 2 ^ 971"

definition is_double :: "rat \<Rightarrow> bool" where
  "is_double x \<longleftrightarrow> round64 x = x \<and> \<bar>x\<bar> \<le> max_double"

section \<open>Error bound and exactness\<close>

lemma round_half_even_error: "\<bar>of_int (round_half_even x) - x\<bar> \<le> 1 / 2"
proof -
  have "of_int \<lfloor>x\<rfloor> \<le> x" "x < of_int \<lfloor>x\<rfloor> + 1" by linarith+
  then show ?thesis unfolding round_half_even_def Let_def by (auto simp: abs_le_iff)
qed

lemma round_half_even_of_int: "round_half_even (of_int n) = n"
  by (simp add: round_half_even_def)

lemma powi_less_imp_less: "(2 :: rat) powi m < 2 powi n \<Longrightarrow> m < n"
proof (rule ccontr)
  assume lt: "(2 :: rat) powi m < 2 powi n" and "\<not> m < n"
  then have "(2 :: rat) powi m = 2 powi n * 2 powi (m - n)" by (simp flip: power_int_add)
  moreover have "1 \<le> (2 :: rat) powi (m - n)" using \<open>\<not> m < n\<close> by simp
  ultimately have "(2 :: rat) powi n \<le> 2 powi m" by simp
  with lt show False by simp
qed

lemma powi_bitlen:
  assumes "0 < p"
  shows "(2 :: rat) powi (bitlen p - 1) \<le> of_int p" and "of_int p < (2 :: rat) powi bitlen p"
proof -
  have l: "1 \<le> bitlen p" using assms bitlen_ge_iff_power [of 1 p] by simp
  have b: "2 ^ nat (bitlen p - 1) \<le> p" "p < 2 ^ nat (bitlen p)" using bitlen_bounds [OF assms] by simp_all
  have "(2 :: rat) powi (bitlen p - 1) = of_int (2 ^ nat (bitlen p - 1))"
    using l by (simp add: power_int_def)
  then show "(2 :: rat) powi (bitlen p - 1) \<le> of_int p" using b(1) by (simp only: of_int_le_iff)
  have "(2 :: rat) powi bitlen p = of_int (2 ^ nat (bitlen p))"
    using l by (simp add: power_int_def)
  then show "of_int p < (2 :: rat) powi bitlen p" using b(2) by (simp only: of_int_less_iff)
qed

lemma ilog2_bounds:
  assumes "x \<noteq> 0"
  shows "2 powi ilog2 x \<le> \<bar>x\<bar>" and "\<bar>x\<bar> < 2 powi (ilog2 x + 1)"
proof -
  obtain p q where pq: "quotient_of \<bar>x\<bar> = (p, q)" by fastforce
  then have q: "0 < q" and x: "\<bar>x\<bar> = of_int p / of_int q"
    by (auto simp: quotient_of_denom_pos quotient_of_div)
  have "0 < \<bar>x\<bar>" using assms by simp
  then have p: "0 < p" using q unfolding x by (simp add: zero_less_divide_iff)
  define l where "l = bitlen p - bitlen q"
  have "\<bar>x\<bar> < 2 powi bitlen p / 2 powi (bitlen q - 1)"
    unfolding x using powi_bitlen [OF p] powi_bitlen [OF q] q p
    by (intro frac_less) (simp_all add: zero_less_power_int less_imp_le)
  also have "\<dots> = 2 powi (l + 1)" by (simp add: l_def power_int_diff [symmetric] algebra_simps)
  finally have upper: "\<bar>x\<bar> < 2 powi (l + 1)" .
  have "2 powi (bitlen p - 1) / 2 powi bitlen q \<le> \<bar>x\<bar>"
    unfolding x using powi_bitlen [OF p] powi_bitlen [OF q] q p
    by (intro frac_le) (simp_all add: less_imp_le)
  moreover have "2 powi (bitlen p - 1) / 2 powi bitlen q = (2 :: rat) powi (l - 1)"
    by (simp add: l_def power_int_diff [symmetric] algebra_simps)
  ultimately have lower: "2 powi (l - 1) \<le> \<bar>x\<bar>" by simp
  have "ilog2 x = (if 2 powi l \<le> \<bar>x\<bar> then l else l - 1)"
    by (simp add: ilog2_def pq l_def)
  then show "2 powi ilog2 x \<le> \<bar>x\<bar>" and "\<bar>x\<bar> < 2 powi (ilog2 x + 1)"
    using upper lower by auto
qed

text \<open>The result is within half a unit in the last place, and so within a relative error of
  \<open>2 ^ -53\<close> unless it is subnormal.\<close>

lemma round64_error: "\<bar>round64 x - x\<bar> \<le> 2 powi (ulp_exponent x - 1)"
proof (cases "x = 0")
  case False
  let ?u = "2 powi ulp_exponent x :: rat"
  have u: "0 < ?u" by (simp add: zero_less_power_int)
  have "round64 x - x = (of_int (round_half_even (x / ?u)) - x / ?u) * ?u"
    using False u by (simp add: round64_def algebra_simps)
  then have "\<bar>round64 x - x\<bar> = \<bar>of_int (round_half_even (x / ?u)) - x / ?u\<bar> * ?u"
    using u by (simp add: abs_mult)
  also have "\<dots> \<le> 1 / 2 * ?u" using round_half_even_error u by (intro mult_right_mono) simp_all
  also have "\<dots> = 2 powi (ulp_exponent x - 1)" by (simp add: power_int_diff)
  finally show ?thesis .
qed (simp add: round64_def)

lemma round64_relative_error:
  assumes "2 powi (- 1022) \<le> \<bar>x\<bar>"
  shows "\<bar>round64 x - x\<bar> \<le> \<bar>x\<bar> / 2 ^ 53"
proof -
  have "0 < (2 :: rat) powi (- 1022)" by (simp add: zero_less_power_int)
  with assms have x: "x \<noteq> 0" by auto
  have "(2 :: rat) powi (- 1022) < 2 powi (ilog2 x + 1)" using assms ilog2_bounds(2) [OF x] by linarith
  then have "- 1022 < ilog2 x + 1" by (rule powi_less_imp_less)
  then have "ulp_exponent x - 1 = ilog2 x - 53" by (simp add: ulp_exponent_def)
  moreover have "(2 :: rat) powi (ilog2 x - 53) = 2 powi ilog2 x / 2 ^ 53"
    by (simp add: power_int_diff)
  ultimately have "\<bar>round64 x - x\<bar> \<le> 2 powi ilog2 x / 2 ^ 53"
    using round64_error [of x] by (simp only:)
  also have "\<dots> \<le> \<bar>x\<bar> / 2 ^ 53" using ilog2_bounds(1) [OF x] by (intro divide_right_mono) simp_all
  finally show ?thesis .
qed

lemma double_mult_error:
  assumes "x * y = 0 \<or> 2 powi (- 1022) \<le> \<bar>x * y\<bar>"
  shows "\<bar>double_mult x y - x * y\<bar> \<le> \<bar>x * y\<bar> / 2 ^ 53"
proof (cases "x * y = 0")
  case True
  then show ?thesis by (simp only: double_mult_def round64_def) simp
next
  case False
  with assms show ?thesis unfolding double_mult_def by (intro round64_relative_error) blast
qed

text \<open>Numbers with at most 53 significant bits, in particular every \<open>int\<close>, are exact.\<close>

lemma round64_scaled_less:
  assumes "\<bar>n\<bar> < 2 ^ 53" and "- 1074 \<le> k"
  shows "round64 (of_int n * 2 powi k) = of_int n * 2 powi k"
proof (cases "n = 0")
  case False
  let ?x = "of_int n * 2 powi k :: rat" and ?e = "ulp_exponent (of_int n * 2 powi k)"
  have x: "?x \<noteq> 0" using False by simp
  have n: "of_int \<bar>n\<bar> < (2 ^ 53 :: rat)" using assms(1) by (metis of_int_less_iff of_int_numeral of_int_power)
  have "(2 :: rat) powi ilog2 ?x \<le> \<bar>?x\<bar>" using ilog2_bounds(1) [OF x] .
  also have "\<bar>?x\<bar> = of_int \<bar>n\<bar> * 2 powi k" by (simp add: abs_mult)
  also have "\<dots> < 2 ^ 53 * 2 powi k" using n by (intro mult_strict_right_mono) (simp_all add: zero_less_power_int)
  also have "\<dots> = 2 powi (53 + k)" by (simp add: power_int_add)
  finally have "ilog2 ?x < 53 + k" by (rule powi_less_imp_less)
  then have e: "?e \<le> k" using assms(2) by (simp add: ulp_exponent_def)
  have "?x / 2 powi ?e = of_int n * 2 powi (k - ?e)" by (simp add: power_int_diff)
  also have "\<dots> = of_int (n * 2 ^ nat (k - ?e))" using e by (simp add: power_int_def)
  finally have r: "round_half_even (?x / 2 powi ?e) = n * 2 ^ nat (k - ?e)"
    by (simp only: round_half_even_of_int)
  have "(of_int (n * 2 ^ nat (k - ?e)) :: rat) = of_int n * 2 powi (k - ?e)"
    using e by (simp add: power_int_def [of _ "k - ?e"])
  then have "of_int (n * 2 ^ nat (k - ?e)) * 2 powi ?e = of_int n * (2 powi (k - ?e) * 2 powi ?e :: rat)"
    by (simp only: mult.assoc)
  also have "\<dots> = ?x" by (simp flip: power_int_add)
  finally have "of_int (n * 2 ^ nat (k - ?e)) * 2 powi ?e = ?x" .
  with r x show ?thesis by (simp only: round64_def if_False)
qed (simp add: round64_def)

lemma round64_scaled:
  assumes "\<bar>n\<bar> \<le> 2 ^ 53" and "- 1074 \<le> k"
  shows "round64 (of_int n * 2 powi k) = of_int n * 2 powi k"
proof (cases "\<bar>n\<bar> = 2 ^ 53")
  case True
  then have "n = 2 ^ 52 * 2 \<or> n = - (2 ^ 52) * 2" by (auto simp: abs_if split: if_splits)
  then obtain m where m: "n = m * 2" "\<bar>m\<bar> < 2 ^ 53" by fastforce
  then have "(of_int n * 2 powi k :: rat) = of_int m * 2 powi (k + 1)" by (simp add: power_int_add)
  with round64_scaled_less [OF m(2), of "k + 1"] assms(2) show ?thesis by simp
qed (use assms round64_scaled_less in simp)

lemma round64_of_int:
  assumes "\<bar>n\<bar> < 2 ^ 53"
  shows "round64 (of_int n) = of_int n"
  using round64_scaled_less [OF assms, of 0] by simp

lemma round_half_even_bound:
  assumes "\<bar>x\<bar> \<le> of_int b"
  shows "\<bar>round_half_even x\<bar> \<le> b"
proof -
  have "\<bar>of_int (round_half_even x) :: rat\<bar> < of_int (b + 1)"
    using round_half_even_error [of x] assms unfolding of_int_add of_int_1 by linarith
  then show ?thesis by (simp only: of_int_abs [symmetric] of_int_less_iff)
qed

text \<open>Below the overflow threshold the rounded number is a double.\<close>

lemma round64_finite:
  assumes "\<bar>x\<bar> \<le> max_double"
  shows "is_double (round64 x)"
proof (cases "x = 0")
  case False
  let ?e = "ulp_exponent x"
  let ?m = "round_half_even (x / 2 powi ?e)"
  have u: "0 < (2 :: rat) powi ?e" by (simp add: zero_less_power_int)
  have r: "round64 x = of_int ?m * 2 powi ?e" using False by (simp add: round64_def)
  have lo: "- 1074 \<le> ?e" "ilog2 x - 52 \<le> ?e" by (simp_all add: ulp_exponent_def)
  have "(2 :: rat) powi ilog2 x \<le> max_double" using ilog2_bounds(1) [OF False] assms by linarith
  also have "max_double < 2 powi 1024" by (simp add: max_double_def)
  finally have "ilog2 x < 1024" by (rule powi_less_imp_less)
  then have hi: "?e \<le> 971" by (simp add: ulp_exponent_def)
  have "\<bar>x\<bar> < 2 powi (ilog2 x + 1)" by (rule ilog2_bounds(2) [OF False])
  also have "\<dots> \<le> 2 powi (53 + ?e)" using lo(2) by (intro power_int_increasing) simp_all
  finally have "\<bar>x\<bar> \<le> 2 ^ 53 * 2 powi ?e" by (simp add: power_int_add)
  then have "\<bar>x / 2 powi ?e\<bar> \<le> of_int (2 ^ 53)" using u by (simp add: abs_divide field_simps)
  then have m: "\<bar>?m\<bar> \<le> 2 ^ 53" by (rule round_half_even_bound)
  have "\<bar>?m\<bar> \<le> 2 ^ 53 - 1" if "?e = 971"
  proof (rule round_half_even_bound)
    show "\<bar>x / 2 powi ?e\<bar> \<le> of_int (2 ^ 53 - 1)"
      using assms unfolding that by (simp add: abs_divide max_double_def field_simps)
  qed
  then have "of_int \<bar>?m\<bar> * 2 powi ?e \<le> max_double"
  proof (cases "?e = 971")
    case True
    with \<open>?e = 971 \<Longrightarrow> \<bar>?m\<bar> \<le> 2 ^ 53 - 1\<close> have "of_int \<bar>?m\<bar> \<le> (of_int (2 ^ 53 - 1) :: rat)" by (simp only: of_int_le_iff)
    then have "of_int \<bar>?m\<bar> * 2 powi ?e \<le> (of_int (2 ^ 53 - 1) :: rat) * 2 powi ?e" using u by (intro mult_right_mono) simp_all
    with True show ?thesis by (simp add: max_double_def)
  next
    case False
    have "of_int \<bar>?m\<bar> \<le> (of_int (2 ^ 53) :: rat)" using m by (simp only: of_int_le_iff)
    moreover have "(2 :: rat) powi ?e \<le> 2 powi 970" using hi False by (intro power_int_increasing) simp_all
    ultimately have "of_int \<bar>?m\<bar> * 2 powi ?e \<le> (of_int (2 ^ 53) :: rat) * 2 powi 970" using u by (intro mult_mono) simp_all
    also have "\<dots> \<le> max_double" by (simp add: max_double_def)
    finally show ?thesis .
  qed
  with round64_scaled [OF m lo(1)] show ?thesis unfolding is_double_def r by (simp add: abs_mult)
qed (simp add: is_double_def round64_def max_double_def)

lemma double_mult_finite: "\<bar>x * y\<bar> \<le> max_double \<Longrightarrow> is_double (double_mult x y)"
  unfolding double_mult_def by (rule round64_finite)

lemma double_of_int_exact: "double_of_int w = of_int (sint w)"
proof -
  have "- (2 ^ 31) \<le> sint w" "sint w < 2 ^ 31" using sint_range_size [of w] by (simp_all add: word_size)
  then show ?thesis unfolding double_of_int_def by (intro round64_of_int) (simp add: abs_less_iff)
qed

end
