(* ===== verification/Sqlite_Engine.thy ===== *)
theory Sqlite_Engine
  imports Pango_Prelude
begin

text \<open>
  SQLite as the server sees it. The library is not part of the repository: its calls are the
  fields of the record \<open>sqlite\<close>, a parameter of every definition that uses a database, and
  what the server relies on is the locale \<open>sqlite_contract\<close>: the documented effect of the
  seven statements whose texts the server prints with \<open>sprintf\<close>.

  \<open>ref_engine\<close> is an engine that really parses those texts. Its interpretation of the
  contract shows that the contract can hold, and gives the witnesses a concrete engine.
\<close>

section \<open>The calls\<close>

text \<open>
  A statement handle is \<open>None\<close> for the NULL pointer. \<open>sq_step\<close> returns the result code and
  the handle moved to the next row; the columns are read from the handle.
\<close>

record ('db, 'stmt) sqlite =
  sq_exec :: "'db \<Rightarrow> string \<Rightarrow> int32 \<times> 'db"
  sq_prepare :: "'db \<Rightarrow> string \<Rightarrow> int32 \<times> 'stmt option"
  sq_step :: "'db \<Rightarrow> 'stmt option \<Rightarrow> int32 \<times> 'stmt option"
  sq_column_int :: "'stmt option \<Rightarrow> nat \<Rightarrow> int32"
  sq_column_double :: "'stmt option \<Rightarrow> nat \<Rightarrow> rat"
  sq_column_text :: "'stmt option \<Rightarrow> nat \<Rightarrow> string option"

definition SQLITE_OK :: int32 where "SQLITE_OK = 0"
definition SQLITE_MISUSE :: int32 where "SQLITE_MISUSE = 21"
definition SQLITE_ROW :: int32 where "SQLITE_ROW = 100"
definition SQLITE_DONE :: int32 where "SQLITE_DONE = 101"

section \<open>The statements of the server\<close>

definition quoted :: "string \<Rightarrow> string" where
  "quoted s = CHR 0x27 # s @ [CHR 0x27]"

text \<open>\<open>update_clinet_data\<close>, printed by \<open>update_client_data\<close> and by \<open>update_clients\<close>.\<close>

definition update_time_sql :: "int \<Rightarrow> string \<Rightarrow> string" where
  "update_time_sql n mac =
     ''UPDATE your_table SET TIME_USED = '' @ fmt_d n @ '' WHERE MAC_ADR = '' @ quoted mac @ '';''"

definition delete_client_sql :: "string \<Rightarrow> string" where
  "delete_client_sql mac = ''DELETE FROM your_table WHERE MAC_ADR = '' @ quoted mac @ '';''"

definition insert_client_sql :: "string \<Rightarrow> int \<Rightarrow> string \<Rightarrow> string" where
  "insert_client_sql mac n loc =
     ''INSERT INTO your_table (MAC_ADR , TIME_USED , LOCATION ) VALUES ('' @ quoted mac @ '', ''
     @ fmt_d n @ '','' @ quoted loc @ '');''"

definition select_client_sql :: "string \<Rightarrow> string" where
  "select_client_sql mac = ''SELECT * FROM your_table WHERE MAC_ADR = '' @ quoted mac @ '';''"

definition select_time_sql :: "string \<Rightarrow> string" where
  "select_time_sql mac = ''SELECT TIME_USED FROM your_table WHERE MAC_ADR = '' @ quoted mac @ '';''"

definition select_location_sql :: "string \<Rightarrow> string" where
  "select_location_sql mac = ''SELECT LOCATION FROM your_table WHERE MAC_ADR = '' @ quoted mac @ '';''"

definition select_price_sql :: "string \<Rightarrow> string" where
  "select_price_sql city = ''SELECT * FROM city_parking WHERE CITY = '' @ quoted city @ '';''"

lemmas sql_defs = update_time_sql_def delete_client_sql_def insert_client_sql_def
  select_client_sql_def select_time_sql_def select_location_sql_def select_price_sql_def quoted_def

text \<open>Text that needs no escaping between the quotes of a statement.\<close>

definition plain :: "string \<Rightarrow> bool" where
  "plain s \<longleftrightarrow> CHR 0x27 \<notin> set s \<and> nul \<notin> set s"

section \<open>The contract\<close>

text \<open>A row of \<open>your_table (MAC_ADR TEXT, TIME_USED INT, LOCATION TEXT)\<close>.\<close>

record parked =
  p_mac :: string
  p_time :: int
  p_loc :: string

abbreviation rows_of :: "string \<Rightarrow> parked list \<Rightarrow> parked list" where
  "rows_of mac rs \<equiv> filter (\<lambda>r. p_mac r = mac) rs"

definition set_time :: "int \<Rightarrow> string \<Rightarrow> parked list \<Rightarrow> parked list" where
  "set_time n mac rs = map (\<lambda>r. if p_mac r = mac then r\<lparr>p_time := n\<rparr> else r) rs"

definition server_command :: "string \<Rightarrow> bool" where
  "server_command sql \<longleftrightarrow>
     (\<exists>n mac loc. plain mac \<and> plain loc \<and>
        sql \<in> {update_time_sql n mac, delete_client_sql mac, insert_client_sql mac n loc})"

definition server_query :: "string \<Rightarrow> bool" where
  "server_query sql \<longleftrightarrow>
     (\<exists>s. plain s \<and> sql \<in> {select_client_sql s, select_time_sql s, select_location_sql s, select_price_sql s})"

text \<open>
  \<open>tbl\<close> and \<open>prices\<close> are the contents of \<open>your_table\<close> and \<open>city_parking\<close> in row order;
  \<open>healthy\<close> says that the database file can be read and written. The laws:
  a statement that fails changes nothing; one that succeeds has the effect of its text; a
  failed \<open>prepare\<close> gives NULL, on which \<open>step\<close> is a misuse; \<open>step\<close> reports a row only for a
  matching row, and then gives the first one; the low byte of a result code is its primary
  code, which is 0 only for \<open>SQLITE_OK\<close> and 100 only for \<open>SQLITE_ROW\<close>.
\<close>

locale sqlite_contract =
  fixes eng :: "('db, 'stmt) sqlite"
    and tbl :: "'db \<Rightarrow> parked list"
    and prices :: "'db \<Rightarrow> (string \<times> rat) list"
    and healthy :: "'db \<Rightarrow> bool"
  assumes exec_primary: "sq_exec eng db sql = (rc, db') \<Longrightarrow> (ucast rc :: byte) = 0 \<longleftrightarrow> rc = SQLITE_OK"
    and prepare_primary: "sq_prepare eng db sql = (rc, st) \<Longrightarrow> (ucast rc :: byte) = 0 \<longleftrightarrow> rc = SQLITE_OK"
    and step_primary: "sq_step eng db st = (rc, st') \<Longrightarrow> (ucast rc :: byte) = 100 \<longleftrightarrow> rc = SQLITE_ROW"
    and exec_failed: "sq_exec eng db sql = (rc, db') \<Longrightarrow> rc \<noteq> SQLITE_OK \<Longrightarrow> tbl db' = tbl db"
    and exec_healthy: "sq_exec eng db sql = (rc, db') \<Longrightarrow> server_command sql \<Longrightarrow> healthy db \<Longrightarrow>
      rc = SQLITE_OK \<and> healthy db'"
    and exec_update: "sq_exec eng db (update_time_sql n mac) = (SQLITE_OK, db') \<Longrightarrow> plain mac \<Longrightarrow>
      tbl db' = set_time n mac (tbl db)"
    and exec_delete: "sq_exec eng db (delete_client_sql mac) = (SQLITE_OK, db') \<Longrightarrow> plain mac \<Longrightarrow>
      tbl db' = filter (\<lambda>r. p_mac r \<noteq> mac) (tbl db)"
    and exec_insert: "sq_exec eng db (insert_client_sql mac n loc) = (SQLITE_OK, db') \<Longrightarrow>
      plain mac \<Longrightarrow> plain loc \<Longrightarrow>
      tbl db' = tbl db @ [\<lparr>p_mac = mac, p_time = n, p_loc = loc\<rparr>]"
    and prepare_failed: "sq_prepare eng db sql = (rc, st) \<Longrightarrow> rc \<noteq> SQLITE_OK \<Longrightarrow> st = None"
    and prepare_healthy: "sq_prepare eng db sql = (rc, st) \<Longrightarrow> server_query sql \<Longrightarrow> healthy db \<Longrightarrow>
      rc = SQLITE_OK"
    and step_null: "sq_step eng db None = (SQLITE_MISUSE, None)"
    and select_client: "sq_prepare eng db (select_client_sql mac) = (SQLITE_OK, st) \<Longrightarrow> plain mac \<Longrightarrow>
      sq_step eng db st = (rc, st') \<Longrightarrow>
      (rc = SQLITE_ROW \<longrightarrow> rows_of mac (tbl db) \<noteq> []) \<and>
      (healthy db \<longrightarrow> rows_of mac (tbl db) \<noteq> [] \<longrightarrow> rc = SQLITE_ROW)"
    and select_time: "sq_prepare eng db (select_time_sql mac) = (SQLITE_OK, st) \<Longrightarrow> plain mac \<Longrightarrow>
      sq_step eng db st = (rc, st') \<Longrightarrow>
      (rc = SQLITE_ROW \<longrightarrow> (\<exists>r rs. rows_of mac (tbl db) = r # rs \<and>
         sq_column_int eng st' 0 = word_of_int (p_time r))) \<and>
      (healthy db \<longrightarrow> rows_of mac (tbl db) \<noteq> [] \<longrightarrow> rc = SQLITE_ROW)"
    and select_location: "sq_prepare eng db (select_location_sql mac) = (SQLITE_OK, st) \<Longrightarrow> plain mac \<Longrightarrow>
      sq_step eng db st = (rc, st') \<Longrightarrow>
      (rc = SQLITE_ROW \<longrightarrow> (\<exists>r rs. rows_of mac (tbl db) = r # rs \<and>
         sq_column_text eng st' 0 = Some (p_loc r))) \<and>
      (healthy db \<longrightarrow> rows_of mac (tbl db) \<noteq> [] \<longrightarrow> rc = SQLITE_ROW)"
    and select_price: "sq_prepare eng db (select_price_sql city) = (SQLITE_OK, st) \<Longrightarrow> plain city \<Longrightarrow>
      sq_step eng db st = (rc, st') \<Longrightarrow>
      (rc = SQLITE_ROW \<longrightarrow> (\<exists>p ps. filter (\<lambda>cp. fst cp = city) (prices db) = (city, p) # ps \<and>
         sq_column_double eng st' 1 = p)) \<and>
      (healthy db \<longrightarrow> filter (\<lambda>cp. fst cp = city) (prices db) \<noteq> [] \<longrightarrow> rc = SQLITE_ROW)"

section \<open>A reference engine\<close>

datatype cell = CInt int | CReal rat | CText string

datatype command = Update int string | Delete string | Insert string int string
datatype query = Select_client string | Select_time string | Select_location string | Select_price string

subsection \<open>Parsing the statements\<close>

fun strip :: "string \<Rightarrow> string \<Rightarrow> string option" where
  "strip [] s = Some s"
| "strip (x # xs) [] = None"
| "strip (x # xs) (y # ys) = (if x = y then strip xs ys else None)"

definition unquote :: "string \<Rightarrow> (string \<times> string) option" where
  "unquote s = do {
     s \<leftarrow> strip [CHR 0x27] s;
     r \<leftarrow> strip [CHR 0x27] (dropWhile (\<lambda>c. c \<noteq> CHR 0x27) s);
     Some (takeWhile (\<lambda>c. c \<noteq> CHR 0x27) s, r) }"

definition is_digit :: "char \<Rightarrow> bool" where
  "is_digit c \<longleftrightarrow> c \<in> set ''0123456789''"

definition parse_nat :: "string \<Rightarrow> nat \<times> string" where
  "parse_nat s = (read_base 10 (takeWhile is_digit s), dropWhile is_digit s)"

definition parse_int :: "string \<Rightarrow> int \<times> string" where
  "parse_int s = (case strip ''-'' s of
       Some r \<Rightarrow> (case parse_nat r of (n, r) \<Rightarrow> (- int n, r))
     | None \<Rightarrow> (case parse_nat s of (n, r) \<Rightarrow> (int n, r)))"

definition finish :: "'a \<Rightarrow> string \<Rightarrow> 'a option" where
  "finish x r = (if r = [] then Some x else None)"

definition parse_update :: "string \<Rightarrow> command option" where
  "parse_update s = do {
     s \<leftarrow> strip ''UPDATE your_table SET TIME_USED = '' s;
     let (n, s) = parse_int s;
     s \<leftarrow> strip '' WHERE MAC_ADR = '' s;
     (m, s) \<leftarrow> unquote s;
     s \<leftarrow> strip '';'' s;
     finish (Update n m) s }"

definition parse_delete :: "string \<Rightarrow> command option" where
  "parse_delete s = do {
     s \<leftarrow> strip ''DELETE FROM your_table WHERE MAC_ADR = '' s;
     (m, s) \<leftarrow> unquote s;
     s \<leftarrow> strip '';'' s;
     finish (Delete m) s }"

definition parse_insert :: "string \<Rightarrow> command option" where
  "parse_insert s = do {
     s \<leftarrow> strip ''INSERT INTO your_table (MAC_ADR , TIME_USED , LOCATION ) VALUES ('' s;
     (m, s) \<leftarrow> unquote s;
     s \<leftarrow> strip '', '' s;
     let (n, s) = parse_int s;
     s \<leftarrow> strip '','' s;
     (l, s) \<leftarrow> unquote s;
     s \<leftarrow> strip '');'' s;
     finish (Insert m n l) s }"

definition parse_select :: "string \<Rightarrow> (string \<Rightarrow> query) \<Rightarrow> string \<Rightarrow> query option" where
  "parse_select prefix q s = do {
     s \<leftarrow> strip prefix s;
     (m, s) \<leftarrow> unquote s;
     s \<leftarrow> strip '';'' s;
     finish (q m) s }"

fun first_some :: "'a option list \<Rightarrow> 'a option" where
  "first_some [] = None"
| "first_some (Some x # _) = Some x"
| "first_some (None # xs) = first_some xs"

definition parse_command :: "string \<Rightarrow> command option" where
  "parse_command s = first_some [parse_update s, parse_delete s, parse_insert s]"

definition parse_query :: "string \<Rightarrow> query option" where
  "parse_query s = first_some
     [parse_select ''SELECT * FROM your_table WHERE MAC_ADR = '' Select_client s,
      parse_select ''SELECT TIME_USED FROM your_table WHERE MAC_ADR = '' Select_time s,
      parse_select ''SELECT LOCATION FROM your_table WHERE MAC_ADR = '' Select_location s,
      parse_select ''SELECT * FROM city_parking WHERE CITY = '' Select_price s]"

lemma strip_append [simp]: "strip p (p @ s) = Some s"
  by (induction p) auto

lemma strip_quote [simp]: "strip [CHR 0x27] (CHR 0x27 # s) = Some s"
  by simp

lemma unquote_quoted [simp]:
  assumes "plain m" shows "unquote (quoted m @ s) = Some (m, s)"
proof -
  have "\<forall>c\<in>set m. c \<noteq> CHR 0x27" using assms by (auto simp: plain_def)
  then have "takeWhile (\<lambda>c. c \<noteq> CHR 0x27) (m @ CHR 0x27 # s) = m"
    and "dropWhile (\<lambda>c. c \<noteq> CHR 0x27) (m @ CHR 0x27 # s) = CHR 0x27 # s"
    by (simp_all add: takeWhile_append2 dropWhile_append2)
  then show ?thesis by (simp add: unquote_def quoted_def)
qed

lemma is_digit_digit_char: "d < 10 \<Longrightarrow> is_digit (digit_char d)"
  using digits_16 [of d] by (auto simp: is_digit_def digit_char_def)

lemma is_digit_show: "c \<in> set (show_base 10 n) \<Longrightarrow> is_digit c"
  using set_show_base_digits [of 10 n] is_digit_digit_char by auto

lemma parse_nat_show [simp]:
  "\<not> is_digit c \<Longrightarrow> parse_nat (show_base 10 n @ c # s) = (n, c # s)"
  by (simp add: parse_nat_def takeWhile_append2 dropWhile_append2 is_digit_show read_show_base)

lemma strip_minus_show: "strip ''-'' (show_base 10 n @ s) = None"
proof (cases "show_base 10 n")
  case (Cons c cs)
  then have "is_digit c" using is_digit_show [of c n] by simp
  then show ?thesis using Cons by (auto simp: is_digit_def)
qed (simp add: text_simps)

lemma parse_int_fmt_d [simp]:
  "\<not> is_digit c \<Longrightarrow> parse_int (fmt_d n @ c # s) = (n, c # s)"
  by (simp add: parse_int_def fmt_d_def strip_minus_show)

text \<open>Every statement the server prints is read back.\<close>

lemma parse_update_sql: "plain m \<Longrightarrow> parse_command (update_time_sql n m) = Some (Update n m)"
  by (simp add: parse_command_def parse_update_def update_time_sql_def is_digit_def finish_def)

lemma parse_delete_sql: "plain m \<Longrightarrow> parse_command (delete_client_sql m) = Some (Delete m)"
  by (simp add: parse_command_def parse_update_def parse_delete_def delete_client_sql_def finish_def)

lemma parse_insert_sql:
  "plain m \<Longrightarrow> plain l \<Longrightarrow> parse_command (insert_client_sql m n l) = Some (Insert m n l)"
  by (simp add: parse_command_def parse_update_def parse_delete_def parse_insert_def
      insert_client_sql_def is_digit_def finish_def)

lemmas parse_query_defs = parse_query_def parse_select_def finish_def

lemma parse_select_client: "plain m \<Longrightarrow> parse_query (select_client_sql m) = Some (Select_client m)"
  by (simp add: parse_query_defs select_client_sql_def)

lemma parse_select_time: "plain m \<Longrightarrow> parse_query (select_time_sql m) = Some (Select_time m)"
  by (simp add: parse_query_defs select_time_sql_def)

lemma parse_select_location: "plain m \<Longrightarrow> parse_query (select_location_sql m) = Some (Select_location m)"
  by (simp add: parse_query_defs select_location_sql_def)

lemma parse_select_price: "plain c \<Longrightarrow> parse_query (select_price_sql c) = Some (Select_price c)"
  by (simp add: parse_query_defs select_price_sql_def)

lemmas parse_sql = parse_update_sql parse_delete_sql parse_insert_sql
  parse_select_client parse_select_time parse_select_location parse_select_price

subsection \<open>Running them\<close>

record ref_db =
  rd_rows :: "parked list"
  rd_prices :: "(string \<times> rat) list"
  rd_broken :: bool

record ref_stmt =
  rs_current :: "cell list"
  rs_rest :: "cell list list"

definition SQLITE_ERROR :: int32 where "SQLITE_ERROR = 1"
definition SQLITE_IOERR :: int32 where "SQLITE_IOERR = 10"

fun run_command :: "command \<Rightarrow> ref_db \<Rightarrow> ref_db" where
  "run_command (Update n m) db = db\<lparr>rd_rows := set_time n m (rd_rows db)\<rparr>"
| "run_command (Delete m) db = db\<lparr>rd_rows := filter (\<lambda>r. p_mac r \<noteq> m) (rd_rows db)\<rparr>"
| "run_command (Insert m n l) db = db\<lparr>rd_rows := rd_rows db @ [\<lparr>p_mac = m, p_time = n, p_loc = l\<rparr>]\<rparr>"

fun run_query :: "query \<Rightarrow> ref_db \<Rightarrow> cell list list" where
  "run_query (Select_client m) db =
     map (\<lambda>r. [CText (p_mac r), CInt (p_time r), CText (p_loc r)]) (rows_of m (rd_rows db))"
| "run_query (Select_time m) db = map (\<lambda>r. [CInt (p_time r)]) (rows_of m (rd_rows db))"
| "run_query (Select_location m) db = map (\<lambda>r. [CText (p_loc r)]) (rows_of m (rd_rows db))"
| "run_query (Select_price c) db =
     map (\<lambda>cp. [CText (fst cp), CReal (snd cp)]) (filter (\<lambda>cp. fst cp = c) (rd_prices db))"

definition ref_exec :: "ref_db \<Rightarrow> string \<Rightarrow> int32 \<times> ref_db" where
  "ref_exec db sql =
     (if rd_broken db then (SQLITE_IOERR, db)
      else case parse_command sql of
          None \<Rightarrow> (SQLITE_ERROR, db)
        | Some c \<Rightarrow> (SQLITE_OK, run_command c db))"

definition ref_prepare :: "ref_db \<Rightarrow> string \<Rightarrow> int32 \<times> ref_stmt option" where
  "ref_prepare db sql =
     (if rd_broken db then (SQLITE_IOERR, None)
      else case parse_query sql of
          None \<Rightarrow> (SQLITE_ERROR, None)
        | Some q \<Rightarrow> (SQLITE_OK, Some \<lparr>rs_current = [], rs_rest = run_query q db\<rparr>))"

definition ref_step :: "ref_db \<Rightarrow> ref_stmt option \<Rightarrow> int32 \<times> ref_stmt option" where
  "ref_step db st = (case st of
       None \<Rightarrow> (SQLITE_MISUSE, None)
     | Some s \<Rightarrow> (case rs_rest s of
           [] \<Rightarrow> (SQLITE_DONE, Some s)
         | r # rs \<Rightarrow> (SQLITE_ROW, Some \<lparr>rs_current = r, rs_rest = rs\<rparr>)))"

definition ref_cell :: "ref_stmt option \<Rightarrow> nat \<Rightarrow> cell option" where
  "ref_cell st i = (case st of
       Some s \<Rightarrow> if i < length (rs_current s) then Some (rs_current s ! i) else None
     | None \<Rightarrow> None)"

definition ref_engine :: "(ref_db, ref_stmt) sqlite" where
  "ref_engine =
     \<lparr>sq_exec = ref_exec, sq_prepare = ref_prepare, sq_step = ref_step,
      sq_column_int = (\<lambda>st i. case ref_cell st i of Some (CInt k) \<Rightarrow> word_of_int k | _ \<Rightarrow> 0),
      sq_column_double = (\<lambda>st i. case ref_cell st i of Some (CReal p) \<Rightarrow> p | _ \<Rightarrow> 0),
      sq_column_text = (\<lambda>st i. case ref_cell st i of Some (CText s) \<Rightarrow> Some s | _ \<Rightarrow> None)\<rparr>"

abbreviation ref_healthy :: "ref_db \<Rightarrow> bool" where
  "ref_healthy db \<equiv> \<not> rd_broken db"

lemmas ref_code_defs = SQLITE_OK_def SQLITE_MISUSE_def SQLITE_ROW_def SQLITE_DONE_def
  SQLITE_ERROR_def SQLITE_IOERR_def

lemma ref_exec_sql: "parse_command sql = Some c \<Longrightarrow> ref_healthy db \<Longrightarrow>
  ref_exec db sql = (SQLITE_OK, run_command c db)"
  by (simp add: ref_exec_def)

lemma ref_exec_ok:
  "ref_exec db sql = (SQLITE_OK, db') \<Longrightarrow> parse_command sql = Some c \<Longrightarrow> db' = run_command c db"
  by (auto simp: ref_exec_def ref_code_defs split: if_splits)

lemma ref_prepare_ok:
  "ref_prepare db sql = (SQLITE_OK, st) \<Longrightarrow> parse_query sql = Some q \<Longrightarrow>
   st = Some \<lparr>rs_current = [], rs_rest = run_query q db\<rparr>"
  by (auto simp: ref_prepare_def ref_code_defs split: if_splits)

lemma ref_select:
  assumes "ref_prepare db sql = (SQLITE_OK, st)" and "parse_query sql = Some q"
    and "ref_step db st = (rc, st')"
  shows "(rc = SQLITE_ROW \<longrightarrow>
      (\<exists>r rs. run_query q db = r # rs \<and> st' = Some \<lparr>rs_current = r, rs_rest = rs\<rparr>)) \<and>
    (run_query q db \<noteq> [] \<longrightarrow> rc = SQLITE_ROW)"
  using ref_prepare_ok [OF assms(1,2)] assms(3)
  by (auto simp: ref_step_def ref_code_defs split: list.splits)

lemma ref_code_bytes: "rc \<in> {SQLITE_OK, SQLITE_ERROR, SQLITE_IOERR} \<Longrightarrow>
  (ucast rc :: byte) = 0 \<longleftrightarrow> rc = SQLITE_OK"
  by (auto simp: ref_code_defs)

lemma run_command_broken: "rd_broken (run_command c db) = rd_broken db"
  by (cases c) auto

interpretation ref: sqlite_contract ref_engine rd_rows rd_prices ref_healthy
proof (unfold_locales, goal_cases)
  case (1 db sql rc db')
  then show ?case by (intro ref_code_bytes) (auto simp: ref_engine_def ref_exec_def split: if_splits option.splits)
next
  case (2 db sql rc st)
  then show ?case by (intro ref_code_bytes) (auto simp: ref_engine_def ref_prepare_def split: if_splits option.splits)
next
  case (3 db st rc st')
  then show ?case by (auto simp: ref_engine_def ref_step_def ref_code_defs split: option.splits list.splits)
next
  case (4 db sql rc db')
  then show ?case by (auto simp: ref_engine_def ref_exec_def split: if_splits option.splits)
next
  case (5 db sql rc db')
  then show ?case
    by (auto simp: ref_engine_def server_command_def ref_exec_def parse_sql run_command_broken)
next
  case (9 db sql rc st)
  then show ?case by (auto simp: ref_engine_def ref_prepare_def split: if_splits option.splits)
next
  case (10 db sql rc st)
  then show ?case by (auto simp: ref_engine_def server_query_def ref_prepare_def parse_sql)
next
  case (6 db n mac db')
  then show ?case by (auto simp: ref_engine_def dest!: ref_exec_ok [OF _ parse_update_sql])
next
  case (7 db mac db')
  then show ?case by (auto simp: ref_engine_def dest!: ref_exec_ok [OF _ parse_delete_sql])
next
  case (8 db mac n loc db')
  then show ?case by (auto simp: ref_engine_def dest!: ref_exec_ok [OF _ parse_insert_sql])
next
  case 11
  then show ?case by (simp add: ref_engine_def ref_step_def)
next
  case (12 db mac st rc st')
  then show ?case
    using ref_select [OF _ parse_select_client, of db mac st rc st'] by (auto simp: ref_engine_def)
next
  case (13 db mac st rc st')
  then show ?case
    using ref_select [OF _ parse_select_time, of db mac st rc st']
    by (auto simp: ref_engine_def map_eq_Cons_conv ref_cell_def)
next
  case (14 db mac st rc st')
  then show ?case
    using ref_select [OF _ parse_select_location, of db mac st rc st']
    by (auto simp: ref_engine_def map_eq_Cons_conv ref_cell_def)
next
  case (15 db city st rc st')
  then show ?case
    using ref_select [OF _ parse_select_price, of db city st rc st']
    by (auto simp: ref_engine_def map_eq_Cons_conv ref_cell_def filter_eq_Cons_iff) blast
qed

end
