(* ===== verification/Server_Data.thy ===== *)
theory Server_Data
  imports Crc8 Binary64 Sqlite_Engine
begin

text \<open>
  What every part of the server shares: the constants of \<open>client_thread.h\<close>, the per-client
  record \<open>struct pango_data\<close>, and the world outside a thread: the two databases, the clock,
  the sockets, the mutex and the statement handles.

  A function of the server takes and returns the world. \<open>None\<close> is undefined behaviour
  (a buffer overrun, a missing NUL, signed overflow, a NULL string) or a deadlock on the
  mutex.
\<close>

section \<open>Constants\<close>

definition START_APP :: byte where "START_APP = 1"
definition CLOSE_APP :: byte where "CLOSE_APP = 2"
definition CONNECTION_LOST :: byte where "CONNECTION_LOST = 3"

definition FALSE :: byte where "FALSE = 0"
definition TRUE :: byte where "TRUE = 1"

definition QUIT :: byte where "QUIT = 0"
definition STAY :: byte where "STAY = 1"

definition CRC8_TEST_FAILED :: byte where "CRC8_TEST_FAILED = 255"
definition ERROR_STATUS_IN_CLIENT_EXIST_SUBFUNCTIONS :: byte
  where "ERROR_STATUS_IN_CLIENT_EXIST_SUBFUNCTIONS = 254"
definition ERROR_STATUS_IN_NEW_CLIENT_SUBFUNCTIONS :: byte
  where "ERROR_STATUS_IN_NEW_CLIENT_SUBFUNCTIONS = 253"
definition CLOSE_APP_ERROR :: byte where "CLOSE_APP_ERROR = 252"
definition ERROR :: byte where "ERROR = 251"
definition STATUS_INITIAL_VALUE :: byte where "STATUS_INITIAL_VALUE = 2"

definition MAC_ADDRESS_SIZE :: nat where "MAC_ADDRESS_SIZE = 18"
definition LOCATION_SIZE :: nat where "LOCATION_SIZE = 12"
definition MAX_BUFF_SIZE :: nat where "MAX_BUFF_SIZE = 150"
definition CLIENT_DATA_BUFFER_SIZE :: nat where "CLIENT_DATA_BUFFER_SIZE = 10"
definition PANGO_DATA_SIZE :: nat where "PANGO_DATA_SIZE = CLIENT_DATA_BUFFER_SIZE - 1"
definition SERVER_MAX_NUM_CLIENTS :: nat where "SERVER_MAX_NUM_CLIENTS = 10"

lemmas status_defs = START_APP_def CLOSE_APP_def CONNECTION_LOST_def CRC8_TEST_FAILED_def
  ERROR_STATUS_IN_CLIENT_EXIST_SUBFUNCTIONS_def ERROR_STATUS_IN_NEW_CLIENT_SUBFUNCTIONS_def
  CLOSE_APP_ERROR_def ERROR_def STATUS_INITIAL_VALUE_def
lemmas flag_defs = FALSE_def TRUE_def QUIT_def STAY_def
lemmas size_defs = MAC_ADDRESS_SIZE_def LOCATION_SIZE_def MAX_BUFF_SIZE_def
  CLIENT_DATA_BUFFER_SIZE_def PANGO_DATA_SIZE_def SERVER_MAX_NUM_CLIENTS_def

section \<open>The client record\<close>

record pango_data =
  pd_status :: byte
  mac_address :: "char list"
  x_axis :: byte
  y_axis :: byte
  client_fd :: byte
  location :: "char list"
  price :: rat
  time_start_parking :: int32
  connected :: byte

text \<open>\<open>main\<close> clears the whole array of records.\<close>

definition zeroed_client :: pango_data where
  "zeroed_client =
     \<lparr>pd_status = 0, mac_address = replicate MAC_ADDRESS_SIZE nul, x_axis = 0, y_axis = 0,
      client_fd = 0, location = replicate LOCATION_SIZE nul, price = 0,
      time_start_parking = 0, connected = 0\<rparr>"

section \<open>The world\<close>

datatype msg = Chars "char list" | Doubles "rat list"

text \<open>
  \<open>clock n\<close> is the \<open>tv_sec\<close> of the \<open>n\<close>-th call of \<open>gettimeofday\<close> and \<open>send_result n\<close> the
  result of the \<open>n\<close>-th \<open>send\<close>: both are arbitrary. \<open>outbox\<close> lists the messages that were
  sent, with their sockets, \<open>open_stmts\<close> counts the statement handles that were
  prepared and not finalized, and \<open>closed_fds\<close> lists the descriptors given to \<open>close\<close>.
\<close>

record 'db world =
  db_client :: 'db
  db_prices :: 'db
  clock :: "nat \<Rightarrow> int"
  ticks :: nat
  send_result :: "nat \<Rightarrow> int32"
  sends :: nat
  outbox :: "(byte \<times> msg) list"
  locked :: bool
  open_stmts :: int
  closed_fds :: "byte list"

definition gettimeofday :: "'db world \<Rightarrow> int \<times> 'db world" where
  "gettimeofday w = (clock w (ticks w), w\<lparr>ticks := ticks w + 1\<rparr>)"

definition send_msg :: "byte \<Rightarrow> msg \<Rightarrow> 'db world \<Rightarrow> int32 \<times> 'db world" where
  "send_msg fd m w =
     (let rc = send_result w (sends w); w = w\<lparr>sends := sends w + 1\<rparr>
      in (rc, if rc = -1 then w else w\<lparr>outbox := outbox w @ [(fd, m)]\<rparr>))"

definition close_fd :: "byte \<Rightarrow> 'db world \<Rightarrow> 'db world" where
  "close_fd fd w = w\<lparr>closed_fds := closed_fds w @ [fd]\<rparr>"

text \<open>Locking a mutex the thread already holds never returns; unlocking a free one is undefined.\<close>

definition mutex_lock :: "'db world \<Rightarrow> 'db world option" where
  "mutex_lock w = (if locked w then None else Some (w\<lparr>locked := True\<rparr>))"

definition mutex_unlock :: "'db world \<Rightarrow> 'db world option" where
  "mutex_unlock w = (if locked w then Some (w\<lparr>locked := False\<rparr>) else None)"

definition exec_client :: "('db, 'stmt) sqlite \<Rightarrow> string \<Rightarrow> 'db world \<Rightarrow> int32 \<times> 'db world" where
  "exec_client eng sql w =
     (case sq_exec eng (db_client w) sql of (rc, db) \<Rightarrow> (rc, w\<lparr>db_client := db\<rparr>))"

definition count_open :: "'stmt option \<Rightarrow> 'db world \<Rightarrow> 'db world" where
  "count_open st w = (if st = None then w else w\<lparr>open_stmts := open_stmts w + 1\<rparr>)"

definition prepare_client ::
    "('db, 'stmt) sqlite \<Rightarrow> string \<Rightarrow> 'db world \<Rightarrow> int32 \<times> 'stmt option \<times> 'db world" where
  "prepare_client eng sql w =
     (case sq_prepare eng (db_client w) sql of (rc, st) \<Rightarrow> (rc, st, count_open st w))"

definition prepare_prices ::
    "('db, 'stmt) sqlite \<Rightarrow> string \<Rightarrow> 'db world \<Rightarrow> int32 \<times> 'stmt option \<times> 'db world" where
  "prepare_prices eng sql w =
     (case sq_prepare eng (db_prices w) sql of (rc, st) \<Rightarrow> (rc, st, count_open st w))"

text \<open>\<open>sqlite3_finalize (NULL)\<close> does nothing.\<close>

definition finalize :: "'stmt option \<Rightarrow> 'db world \<Rightarrow> 'db world" where
  "finalize st w = (if st = None then w else w\<lparr>open_stmts := open_stmts w - 1\<rparr>)"

lemma finalize_count_open [simp]: "finalize st (count_open st w) = w"
  by (simp add: finalize_def count_open_def)

lemma db_count_open [simp]:
  "db_client (count_open st w) = db_client w" "db_prices (count_open st w) = db_prices w"
  by (simp_all add: count_open_def)

section \<open>Strings\<close>

text \<open>Reading a string from an array that holds no NUL runs past its end.\<close>

definition c_string :: "char list \<Rightarrow> string option" where
  "c_string buf = (if nul \<in> set buf then Some (cstr buf) else None)"

text \<open>\<open>sprintf\<close> into a local array of \<open>n\<close> characters; the array then holds the text.\<close>

definition sprintf_local :: "nat \<Rightarrow> string \<Rightarrow> string option" where
  "sprintf_local n s = (if length s < n then Some s else None)"

text \<open>\<open>int\<close> subtraction; overflow is undefined.\<close>

definition int_sub :: "int32 \<Rightarrow> int32 \<Rightarrow> int32 option" where
  "int_sub a b =
     (if - (2 ^ 31) \<le> sint a - sint b \<and> sint a - sint b < 2 ^ 31 then Some (a - b) else None)"

lemma int_sub_Some:
  assumes "int_sub a b = Some c"
  shows "sint c = sint a - sint b"
proof -
  have "c = word_of_int (sint a - sint b)" using assms by (auto simp: int_sub_def split: if_splits)
  moreover have "- (2 ^ 31) \<le> sint a - sint b" "sint a - sint b < 2 ^ 31"
    using assms by (auto simp: int_sub_def split: if_splits)
  ultimately show ?thesis by (simp only: sint_int32_of_int)
qed

lemma int_sub_nonneg:
  assumes "0 \<le> sint a" and "0 \<le> sint b"
  shows "int_sub a b = Some (a - b)"
proof -
  have "sint a < 2 ^ 31" "sint b < 2 ^ 31"
    using sint_range_size [of a] sint_range_size [of b] by (simp_all add: word_size)
  with assms show ?thesis by (simp add: int_sub_def)
qed

text \<open>A record whose two strings are terminated and safe between the quotes of a statement.\<close>

definition client_ok :: "pango_data \<Rightarrow> bool" where
  "client_ok c \<longleftrightarrow>
     length (mac_address c) = MAC_ADDRESS_SIZE \<and> nul \<in> set (mac_address c) \<and>
     plain (cstr (mac_address c)) \<and>
     length (location c) = LOCATION_SIZE \<and> nul \<in> set (location c) \<and> plain (cstr (location c))"

lemma client_ok_zeroed: "client_ok zeroed_client"
  by (simp add: client_ok_def zeroed_client_def size_defs cstr_def plain_def)

text \<open>The lengths of the statements, for the bounds of the buffers they are printed into.\<close>

lemma sql_lengths:
  "length (quoted s) = length s + 2"
  "length (select_client_sql s) = length s + 44"
  "length (select_time_sql s) = length s + 52"
  "length (select_location_sql s) = length s + 51"
  "length (select_price_sql s) = length s + 43"
  "length (delete_client_sql s) = length s + 42"
  "length (update_time_sql n s) = length (fmt_d n) + length s + 54"
  "length (insert_client_sql s n l) = length (fmt_d n) + length s + length l + 74"
  by (simp_all add: sql_defs)

end
