(* ===== verification/Server_Frame.thy ===== *)
theory Server_Frame
  imports Server_Data
begin

text \<open>
  Receiving a frame on the server: \<open>wait_for_data_from_client\<close>, \<open>CRC_8_check\<close> and
  \<open>store_client_data_in_struct\<close> of \<open>client_thread_func.c\<close>, and \<open>location_func\<close> of
  \<open>new_client.c\<close>. The lemmas give the effect of each on every branch, show that the text of
  the MAC address always fits its 18 bytes and determines the six address bytes, and that
  the location always fits its 12 bytes.
\<close>

section \<open>Reading and checking\<close>

text \<open>
  The result of \<open>recv\<close>: the bytes that arrived (none when the peer has closed the
  connection, never more than asked for), or the error result -1.
\<close>

datatype recv_result = Received "byte list" | Recv_error

definition wait_for_data_from_client ::
    "recv_result \<Rightarrow> pango_data \<Rightarrow> byte \<Rightarrow> byte list \<Rightarrow> 'db world
     \<Rightarrow> (byte \<times> pango_data \<times> byte \<times> byte list \<times> 'db world) option" where
  "wait_for_data_from_client r client status buff w =
     (case r of
        Received [] \<Rightarrow> do {
          let status = CONNECTION_LOST;
          w \<leftarrow> mutex_lock w;
          let client = client\<lparr>connected := FALSE\<rparr>;
          w \<leftarrow> mutex_unlock w;
          Some (CONNECTION_LOST, client, status, buff, w) }
      | Received (b # bs) \<Rightarrow>
          (let data = take (length buff) (b # bs)
           in Some (0, client, status, data @ drop (length data) buff, w))
      | Recv_error \<Rightarrow> Some (0, client, status, buff, w))"

definition CRC_8_check :: "byte list \<Rightarrow> nat \<Rightarrow> byte \<Rightarrow> (byte \<times> byte) option" where
  "CRC_8_check buff buff_size status = do {
     crc \<leftarrow> srv_calculateCRC8 buff buff_size;
     received \<leftarrow> (if 9 < length buff then Some (buff ! 9) else None);
     Some (if received = crc then (TRUE, status) else (FALSE, CRC8_TEST_FAILED)) }"

lemma CRC_8_check_iff:
  assumes "length buff = 10"
  shows "CRC_8_check buff PANGO_DATA_SIZE status =
    Some (if frame_ok buff then (TRUE, status) else (FALSE, CRC8_TEST_FAILED))"
  using assms by (simp add: CRC_8_check_def srv_crc.crc_ref frame_ok_def size_defs)

section \<open>Storing the fields\<close>

definition byte_at :: "byte list \<Rightarrow> nat \<Rightarrow> byte option" where
  "byte_at buff i = (if i < length buff then Some (buff ! i) else None)"

function store_loop ::
    "byte list \<Rightarrow> nat \<Rightarrow> nat \<Rightarrow> byte \<Rightarrow> pango_data \<Rightarrow> (byte \<times> pango_data) option" where
  "store_loop client_buff i offset status client =
     (if i < 8
      then do {
        status \<leftarrow> (if i = 0 then byte_at client_buff 0 else Some status);
        (if 0 < i \<and> i < 7
         then do {
           b \<leftarrow> byte_at client_buff i;
           let s = (if i = 6 then fmt_x (unat b) else fmt_x (unat b) @ '':'');
           m \<leftarrow> c_write (mac_address client) offset s;
           store_loop client_buff (i + 1) (offset + length s) status (client\<lparr>mac_address := m\<rparr>) }
         else do {
           x \<leftarrow> byte_at client_buff i;
           y \<leftarrow> byte_at client_buff (i + 1);
           store_loop client_buff (i + 1) offset status (client\<lparr>x_axis := x, y_axis := y\<rparr>) }) }
      else Some (status, client))"
  by pat_completeness auto
termination by (relation "measure (\<lambda>(_, i, _). 8 - i)") auto

declare store_loop.simps [simp del]

definition store_client_data_in_struct ::
    "byte \<Rightarrow> byte list \<Rightarrow> pango_data \<Rightarrow> (byte \<times> pango_data) option" where
  "store_client_data_in_struct status client_buff client =
     (if status \<noteq> CRC8_TEST_FAILED then store_loop client_buff 0 0 status client
      else Some (status, client))"

text \<open>The text of a MAC address: each byte in hexadecimal, without padding, separated by colons.\<close>

fun mac_text :: "byte list \<Rightarrow> string" where
  "mac_text [] = []"
| "mac_text [b] = fmt_x (unat b)"
| "mac_text (b # bs) = fmt_x (unat b) @ '':'' @ mac_text bs"

lemma length_fmt_x_byte: "length (fmt_x (unat (b :: byte))) \<le> 2"
  using unsigned_less [of b] by (intro length_fmt_x) simp

lemma length_mac_text: "length (mac_text bs) \<le> 3 * length bs - 1"
proof (induction bs rule: mac_text.induct)
  case (3 b c cs)
  then show ?case using length_fmt_x_byte [of b] by simp
qed (use length_fmt_x_byte in simp_all)

lemma set_mac_text: "set (mac_text bs) \<subseteq> insert (CHR '':'') digit_chars"
proof (induction bs rule: mac_text.induct)
  case (3 b c cs)
  then show ?case using set_fmt_x by fastforce
qed (use set_fmt_x in force)+

lemma plain_mac_text: "plain (mac_text bs)"
  using set_mac_text [of bs] nul_notin_digits quote_notin_digits by (auto simp: plain_def)

text \<open>The colons make the text unambiguous although the bytes are not padded.\<close>

lemma fmt_x_colon_inject:
  assumes "fmt_x m @ CHR '':'' # s = fmt_x n @ CHR '':'' # t"
  shows "m = n \<and> s = t"
proof -
  have cut: "takeWhile (\<lambda>c. c \<noteq> CHR '':'') (fmt_x k @ CHR '':'' # u) = fmt_x k"
    "dropWhile (\<lambda>c. c \<noteq> CHR '':'') (fmt_x k @ CHR '':'' # u) = CHR '':'' # u" for k u
  proof -
    have "\<forall>c\<in>set (fmt_x k). c \<noteq> CHR '':''" using set_fmt_x [of k] colon_notin_digits by auto
    then show "takeWhile (\<lambda>c. c \<noteq> CHR '':'') (fmt_x k @ CHR '':'' # u) = fmt_x k"
      and "dropWhile (\<lambda>c. c \<noteq> CHR '':'') (fmt_x k @ CHR '':'' # u) = CHR '':'' # u"
      by (simp_all add: takeWhile_append2 dropWhile_append2)
  qed
  have "fmt_x m = fmt_x n" using arg_cong [OF assms, of "takeWhile (\<lambda>c. c \<noteq> CHR '':'')"]
    by (simp only: cut)
  moreover have "s = t" using arg_cong [OF assms, of "dropWhile (\<lambda>c. c \<noteq> CHR '':'')"]
    by (simp only: cut) simp
  ultimately show ?thesis using fmt_x_inject by blast
qed

lemma fmt_x_byte_inject: "fmt_x (unat a) = fmt_x (unat b) \<Longrightarrow> a = b"
  using fmt_x_inject by (metis word_unat_eq_iff)

lemma mac_text_inject:
  "length as = length bs \<Longrightarrow> mac_text as = mac_text bs \<Longrightarrow> as = bs"
proof (induction as arbitrary: bs rule: mac_text.induct)
  case (2 a)
  then obtain b where "bs = [b]" by (cases bs) auto
  with 2 show ?case by (auto dest: fmt_x_byte_inject)
next
  case (3 a c cs)
  then obtain b d ds where bs: "bs = b # d # ds" by (metis length_Suc_conv)
  with "3.prems" have "fmt_x (unat a) @ CHR '':'' # mac_text (c # cs) = fmt_x (unat b) @ CHR '':'' # mac_text (d # ds)"
    by simp
  then have "unat a = unat b" "mac_text (c # cs) = mac_text (d # ds)"
    using fmt_x_colon_inject by blast+
  with "3.IH" [of "d # ds"] "3.prems"(1) show ?case unfolding bs by (simp add: word_unat_eq_iff)
qed simp

text \<open>The loop prints the six address bytes one after the other.\<close>

lemma mac_loop:
  assumes "1 \<le> i" and "i \<le> 6" and "7 \<le> length buff"
    and "take (length p) (mac_address c) = p" and "nul \<notin> set p"
    and "length p + length (mac_text (drop i (take 7 buff))) < length (mac_address c)"
  shows "\<exists>m off. store_loop buff i (length p) st c = store_loop buff 7 off st (c\<lparr>mac_address := m\<rparr>) \<and>
    cstr m = p @ mac_text (drop i (take 7 buff)) \<and> length m = length (mac_address c) \<and> nul \<in> set m"
  using assms
proof (induction "6 - i" arbitrary: i p c)
  case 0
  then have i: "i = 6" by simp
  let ?s = "fmt_x (unat (buff ! 6))"
  have d: "drop 6 (take 7 buff) = [buff ! 6]"
    using "0.prems"(3) by (simp add: Cons_nth_drop_Suc [symmetric])
  have fit: "length p + length ?s < length (mac_address c)" using "0.prems"(6) unfolding i d by simp
  have nn: "nul \<notin> set (p @ ?s)" using "0.prems"(5) set_fmt_x nul_notin_digits by fastforce
  define m where "m = (p @ ?s) @ nul # drop (length p + length ?s + 1) (mac_address c)"
  have w: "c_write (mac_address c) (length p) ?s = Some m"
    using c_write_Some [OF fit] "0.prems"(4) by (simp add: m_def)
  have "cstr m = p @ ?s" unfolding m_def by (rule cstr_append_nul [OF nn])
  moreover have "length m = length (mac_address c)" using fit by (simp add: m_def)
  moreover have "nul \<in> set m" by (simp add: m_def)
  moreover have "store_loop buff 6 (length p) st c
      = store_loop buff 7 (length (p @ ?s)) st (c\<lparr>mac_address := m\<rparr>)"
    using "0.prems"(3) w by (subst store_loop.simps) (simp add: byte_at_def)
  ultimately show ?case unfolding i d by auto
next
  case (Suc n)
  let ?s = "fmt_x (unat (buff ! i)) @ '':''" and ?rest = "mac_text (drop (i + 1) (take 7 buff))"
  have i: "i < 6" using Suc.hyps(2) by simp
  have "drop (i + 1) (take 7 buff) \<noteq> []" using i Suc.prems(3) by simp
  moreover have "drop i (take 7 buff) = buff ! i # drop (i + 1) (take 7 buff)"
    using i Suc.prems(3) by (simp add: Cons_nth_drop_Suc [symmetric])
  ultimately have d: "mac_text (drop i (take 7 buff)) = ?s @ ?rest"
    by (cases "drop (i + 1) (take 7 buff)") simp_all
  have fit: "length p + length ?s < length (mac_address c)" using Suc.prems(6) unfolding d by simp
  define m where "m = (p @ ?s) @ nul # drop (length p + length ?s + 1) (mac_address c)"
  have w: "c_write (mac_address c) (length p) ?s = Some m"
    using c_write_Some [OF fit] Suc.prems(4) by (simp add: m_def)
  have len: "length m = length (mac_address c)" using fit by (simp add: m_def)
  have "nul \<notin> set (p @ ?s)" using Suc.prems(5) set_fmt_x nul_notin_digits by fastforce
  moreover have "take (length (p @ ?s)) m = p @ ?s" by (simp add: m_def)
  ultimately have "\<exists>m' off. store_loop buff (i + 1) (length (p @ ?s)) st (c\<lparr>mac_address := m\<rparr>)
        = store_loop buff 7 off st (c\<lparr>mac_address := m'\<rparr>) \<and>
      cstr m' = (p @ ?s) @ ?rest \<and> length m' = length m \<and> nul \<in> set m'"
    using Suc.hyps(1) [of "i + 1" "p @ ?s" "c\<lparr>mac_address := m\<rparr>"] Suc.hyps(2) Suc.prems i len
    unfolding d by simp
  moreover have "store_loop buff i (length p) st c =
      store_loop buff (i + 1) (length (p @ ?s)) st (c\<lparr>mac_address := m\<rparr>)"
    using i Suc.prems w by (subst store_loop.simps) (simp add: byte_at_def)
  ultimately show ?case unfolding d len by simp
qed

lemma store_client_data_ok:
  assumes "length buff = 10" and "length (mac_address c) = MAC_ADDRESS_SIZE" and "st \<noteq> CRC8_TEST_FAILED"
  shows "\<exists>m. store_client_data_in_struct st buff c =
      Some (buff ! 0, c\<lparr>mac_address := m, x_axis := buff ! 7, y_axis := buff ! 8\<rparr>) \<and>
    cstr m = mac_text (drop 1 (take 7 buff)) \<and> length m = MAC_ADDRESS_SIZE \<and> nul \<in> set m"
proof -
  let ?c = "c\<lparr>x_axis := buff ! 0, y_axis := buff ! 1\<rparr>"
  have "length (mac_text (drop 1 (take 7 buff))) \<le> 17"
    using length_mac_text [of "drop 1 (take 7 buff)"] assms(1) by simp
  then obtain m off where m: "store_loop buff 1 0 (buff ! 0) ?c = store_loop buff 7 off (buff ! 0) (?c\<lparr>mac_address := m\<rparr>)"
    "cstr m = mac_text (drop 1 (take 7 buff))" "length m = MAC_ADDRESS_SIZE" "nul \<in> set m"
    using mac_loop [of 1 buff "[]" ?c "buff ! 0"] assms by (auto simp: size_defs)
  have "store_client_data_in_struct st buff c = store_loop buff 1 0 (buff ! 0) ?c"
    using assms by (simp add: store_client_data_in_struct_def store_loop.simps [of buff 0] byte_at_def)
  also have "\<dots> = Some (buff ! 0, c\<lparr>mac_address := m, x_axis := buff ! 7, y_axis := buff ! 8\<rparr>)"
    using assms(1) unfolding m(1)
    by (simp add: store_loop.simps [of buff 7] store_loop.simps [of buff 8] byte_at_def)
  finally show ?thesis using m(2-4) by blast
qed

section \<open>The location\<close>

definition location_func :: "byte \<Rightarrow> byte \<Rightarrow> char list \<Rightarrow> char list option" where
  "location_func x y buff =
     (if x < 0 \<or> x > 127 \<or> y < 0 \<or> y > 127 then c_write buff 0 ''ERROR''
      else if x \<le> 70 \<and> y \<le> 70 then c_write buff 0 ''Ashkelon''
      else if x \<le> 70 \<and> y > 70 then c_write buff 0 ''Jerusalem''
      else if x > 70 \<and> y \<le> 70 then c_write buff 0 ''Petah-Tikva''
      else if x > 70 \<and> y > 70 then c_write buff 0 ''Herzliya''
      else Some buff)"

definition cities :: "string list" where
  "cities = [''Ashkelon'', ''Jerusalem'', ''Petah-Tikva'', ''Herzliya'']"

text \<open>The city of a pair of coordinates, as a table of the four quadrants.\<close>

definition city_of :: "nat \<Rightarrow> nat \<Rightarrow> string option" where
  "city_of x y =
     (if 127 < x \<or> 127 < y then None
      else Some (cities ! (2 * of_bool (70 < x) + of_bool (70 < y))))"

definition location_name :: "byte \<Rightarrow> byte \<Rightarrow> string" where
  "location_name x y = (case city_of (unat x) (unat y) of Some c \<Rightarrow> c | None \<Rightarrow> ''ERROR'')"

lemma location_func_eq: "location_func x y buff = c_write buff 0 (location_name x y)"
  by (auto simp: location_func_def location_name_def city_of_def cities_def word_less_nat_alt
      word_le_nat_alt not_less)

lemma location_name_cases: "location_name x y \<in> insert ''ERROR'' (set cities)"
  by (auto simp: location_name_def city_of_def cities_def)

lemma length_location_name: "length (location_name x y) \<le> 11"
  using location_name_cases [of x y] by (auto simp: cities_def)

lemma plain_location_name: "plain (location_name x y)"
  using location_name_cases [of x y] by (auto simp: cities_def plain_def)

lemma location_func_ok:
  assumes "length buff = LOCATION_SIZE"
  shows "\<exists>l. location_func x y buff = Some l \<and> cstr l = location_name x y \<and>
    length l = LOCATION_SIZE \<and> nul \<in> set l"
proof -
  have "0 + length (location_name x y) < length buff"
    using assms length_location_name [of x y] by (simp add: size_defs)
  then obtain l where "c_write buff 0 (location_name x y) = Some l" using c_write_Some by blast
  then show ?thesis
    using cstr_c_write c_write_length nul_in_c_write plain_location_name assms
    by (metis location_func_eq plain_def)
qed

end
