(* ===== verification/Server_Client.thy ===== *)
theory Server_Client
  imports Server_Frame
begin

text \<open>
  The handlers of a client thread: the database operations of \<open>client_thread_func.c\<close>, the
  new client of \<open>new_client.c\<close> and the returning client of \<open>existing_client.c\<close>. Each
  returns the world after every database call, clock read, message and mutex operation.

  A call of \<open>perror\<close>, \<open>puts\<close> or \<open>printf\<close> has no effect in the model. \<open>sprintf\<close> never
  returns a negative value for the \<open>%s\<close> and \<open>%d\<close> directives used here, so those error
  branches do not appear.
\<close>

section \<open>Looking a client up\<close>

definition clinet_exist_in_database_check_preparation ::
    "('db, 'stmt) sqlite \<Rightarrow> char list \<Rightarrow> 'db world \<Rightarrow> ('stmt option \<times> 'db world) option" where
  "clinet_exist_in_database_check_preparation eng mac_address_buff w = do {
     mac \<leftarrow> c_string mac_address_buff;
     check_if_open \<leftarrow> sprintf_local 150 (select_client_sql mac);
     let (rc, stmt, w) = prepare_client eng check_if_open w;
     Some (stmt, w) }"

definition clinet_exist_in_database_check ::
    "('db, 'stmt) sqlite \<Rightarrow> char list \<Rightarrow> byte \<Rightarrow> 'db world \<Rightarrow> (byte \<times> 'db world) option" where
  "clinet_exist_in_database_check eng mac_address_buff allrdy_chckd w = do {
     (stmt, w) \<leftarrow> clinet_exist_in_database_check_preparation eng mac_address_buff w;
     let (rc, row) = sq_step eng (db_client w) stmt;
     Some (if rc = SQLITE_ROW \<and> allrdy_chckd = 0 then (TRUE, finalize stmt w)
           else (FALSE, finalize stmt w)) }"

definition new_client :: "byte \<Rightarrow> byte" where
  "new_client checked_database_value = (if checked_database_value = FALSE then TRUE else FALSE)"

section \<open>Closing\<close>

definition update_client_data ::
    "('db, 'stmt) sqlite \<Rightarrow> pango_data \<Rightarrow> 'db world \<Rightarrow> (byte \<times> uint32 \<times> 'db world) option" where
  "update_client_data eng client w = do {
     let (tv_sec, w) = gettimeofday w;
     let end = word_of_int tv_sec;
     mac \<leftarrow> c_string (mac_address client);
     sql \<leftarrow> sprintf_local 100 (update_time_sql (sint (end - time_start_parking client)) mac);
     let (rc, w) = exec_client eng sql w;
     Some (if (ucast rc :: byte) \<noteq> ucast SQLITE_OK then (ERROR, end, w) else (0, end, w)) }"

text \<open>
  The price is a rational; it is a finite \<open>double\<close> of C if it satisfies \<open>is_double\<close>, and the product is
  the one of C unless it overflows (theory \<open>Binary64\<close>).
\<close>

definition calculate_and_send_payment_data ::
    "int32 \<Rightarrow> int32 \<Rightarrow> rat \<Rightarrow> byte \<Rightarrow> 'db world \<Rightarrow> 'db world option" where
  "calculate_and_send_payment_data start_time end_time parking_price_per_second fd w = do {
     elapsed_time_seconds \<leftarrow> int_sub end_time start_time;
     let pay0 = double_mult parking_price_per_second (double_of_int elapsed_time_seconds);
     let pay1 = double_of_int elapsed_time_seconds;
     let (rc, w) = send_msg fd (Doubles [pay0, pay1]) w;
     Some w }"

definition remove_client_data ::
    "('db, 'stmt) sqlite \<Rightarrow> char list \<Rightarrow> 'db world \<Rightarrow> 'db world option" where
  "remove_client_data eng mac_address_arg w = do {
     mac \<leftarrow> c_string mac_address_arg;
     delete_query \<leftarrow> sprintf_local 150 (delete_client_sql mac);
     let (rc, w) = exec_client eng delete_query w;
     Some w }"

section \<open>A new client\<close>

definition initialize_and_get_start_time ::
    "pango_data \<Rightarrow> 'db world \<Rightarrow> (pango_data \<times> 'db world) option" where
  "initialize_and_get_start_time client w = do {
     let (tv_sec, w) = gettimeofday w;
     let client = client\<lparr>time_start_parking := word_of_int tv_sec\<rparr>;
     loc \<leftarrow> location_func (x_axis client) (y_axis client) (location client);
     Some (client\<lparr>location := loc\<rparr>, w) }"

definition retrieve_parking_price_per_city_from_database ::
    "('db, 'stmt) sqlite \<Rightarrow> pango_data \<Rightarrow> 'db world \<Rightarrow> (byte \<times> pango_data \<times> 'db world) option" where
  "retrieve_parking_price_per_city_from_database eng client w = do {
     city \<leftarrow> c_string (location client);
     price_data \<leftarrow> sprintf_local 150 (select_price_sql city);
     let (rc, stmt, w) = prepare_prices eng price_data w;
     if rc \<noteq> SQLITE_OK then Some (QUIT, client, w)
     else do {
       let (rc, row) = sq_step eng (db_prices w) stmt;
       let client = (if rc = SQLITE_ROW then client\<lparr>price := sq_column_double eng row 1\<rparr> else client);
       Some (STAY, client, finalize stmt w) } }"

definition insert_client_data_into_database ::
    "('db, 'stmt) sqlite \<Rightarrow> pango_data \<Rightarrow> 'db world \<Rightarrow> (byte \<times> 'db world) option" where
  "insert_client_data_into_database eng client w = do {
     mac \<leftarrow> c_string (mac_address client);
     loc \<leftarrow> c_string (location client);
     insert_query \<leftarrow> sprintf_local 150 (insert_client_sql mac 0 loc);
     let (val, w) = exec_client eng insert_query w;
     Some (if val \<noteq> SQLITE_OK then (QUIT, w) else (STAY, w)) }"

text \<open>
  The function falls off its end when the message was sent; no caller uses the value, which
  is therefore modelled as an option.
\<close>

definition send_client_location :: "pango_data \<Rightarrow> 'db world \<Rightarrow> byte option \<times> 'db world" where
  "send_client_location client w =
     (let (rc, w) = send_msg (client_fd client) (Chars (location client)) w
      in (if rc = -1 then Some QUIT else None, w))"

text \<open>The critical section of \<open>process_client_data\<close>.\<close>

definition insert_new_client ::
    "('db, 'stmt) sqlite \<Rightarrow> pango_data \<Rightarrow> byte \<Rightarrow> 'db world
     \<Rightarrow> (byte \<times> pango_data \<times> byte \<times> 'db world) option" where
  "insert_new_client eng client status w = do {
     w \<leftarrow> mutex_lock w;
     (r, client, w) \<leftarrow> retrieve_parking_price_per_city_from_database eng client w;
     (r, w) \<leftarrow> (if r = QUIT then Some (QUIT, w) else insert_client_data_into_database eng client w);
     if r = QUIT
     then do {
       w \<leftarrow> mutex_unlock w;
       Some (QUIT, client, ERROR_STATUS_IN_NEW_CLIENT_SUBFUNCTIONS, w) }
     else do {
       w \<leftarrow> mutex_unlock w;
       Some (STAY, client, status, w) } }"

definition process_client_data ::
    "('db, 'stmt) sqlite \<Rightarrow> pango_data \<Rightarrow> byte \<Rightarrow> 'db world
     \<Rightarrow> (byte \<times> pango_data \<times> byte \<times> 'db world) option" where
  "process_client_data eng client status w = do {
     (client, w) \<leftarrow> initialize_and_get_start_time client w;
     (r, client, status, w) \<leftarrow> insert_new_client eng client status w;
     if r = QUIT then Some (QUIT, client, status, w)
     else do {
       let (_, w) = send_client_location client w;
       Some (STAY, client, status, w) } }"

section \<open>A client whose row is still in the database\<close>

definition retrieve_time_start_parking_value_from_database ::
    "('db, 'stmt) sqlite \<Rightarrow> pango_data \<Rightarrow> 'db world \<Rightarrow> (byte \<times> pango_data \<times> 'db world) option" where
  "retrieve_time_start_parking_value_from_database eng client w = do {
     mac \<leftarrow> c_string (mac_address client);
     time_used_data \<leftarrow> sprintf_local MAX_BUFF_SIZE (select_time_sql mac);
     let (rc, stmt, w) = prepare_client eng time_used_data w;
     if (ucast rc :: byte) \<noteq> ucast SQLITE_OK then Some (QUIT, client, finalize stmt w)
     else do {
       let (rc, row) = sq_step eng (db_client w) stmt;
       let client = (if (ucast rc :: byte) = ucast SQLITE_ROW
                     then client\<lparr>time_start_parking := sq_column_int eng row 0\<rparr> else client);
       Some (STAY, client, finalize stmt w) } }"

definition update_client_and_continue_time ::
    "('db, 'stmt) sqlite \<Rightarrow> pango_data \<Rightarrow> 'db world \<Rightarrow> (byte \<times> pango_data \<times> 'db world) option" where
  "update_client_and_continue_time eng client w = do {
     let (tv_sec, w) = gettimeofday w;
     let client = client\<lparr>time_start_parking := word_of_int (tv_sec - sint (time_start_parking client))\<rparr>;
     let client = client\<lparr>connected := TRUE\<rparr>;
     mac \<leftarrow> c_string (mac_address client);
     location_data \<leftarrow> sprintf_local 150 (select_location_sql mac);
     let (rc, stmt, w) = prepare_client eng location_data w;
     if (ucast rc :: byte) \<noteq> ucast SQLITE_OK then Some (QUIT, client, w)
     else do {
       let (rc, row) = sq_step eng (db_client w) stmt;
       if (ucast rc :: byte) = ucast SQLITE_ROW
       then do {
         text \<leftarrow> sq_column_text eng row 0;
         loc \<leftarrow> c_write (location client) 0 text;
         Some (STAY, client\<lparr>location := loc\<rparr>, finalize stmt w) }
       else Some (STAY, client, finalize stmt w) } }"

definition retriev_client_data ::
    "('db, 'stmt) sqlite \<Rightarrow> pango_data \<Rightarrow> byte \<Rightarrow> 'db world
     \<Rightarrow> (byte \<times> pango_data \<times> byte \<times> 'db world) option" where
  "retriev_client_data eng client status w = do {
     w \<leftarrow> mutex_lock w;
     (r, client, w) \<leftarrow> retrieve_time_start_parking_value_from_database eng client w;
     (r, client, w) \<leftarrow> (if r = QUIT then Some (QUIT, client, w)
                        else update_client_and_continue_time eng client w);
     (r, client, w) \<leftarrow> (if r = QUIT then Some (QUIT, client, w)
                        else retrieve_parking_price_per_city_from_database eng client w);
     if r = QUIT
     then do {
       w \<leftarrow> mutex_unlock w;
       Some (QUIT, client, ERROR_STATUS_IN_CLIENT_EXIST_SUBFUNCTIONS, w) }
     else do {
       let (_, w) = send_client_location client w;
       w \<leftarrow> mutex_unlock w;
       Some (STAY, client, status, w) } }"

end
