(* ===== verification/Server_Thread.thy ===== *)
theory Server_Thread
  imports Server_Client
begin

text \<open>
  The client thread: the loop of \<open>pango_client\<close> in \<open>client_thread.c\<close> and its exit. The loop
  consumes the results of \<open>recv\<close> one by one, so it is a recursion over them: when they are
  used up the thread is still waiting in \<open>recv\<close> (\<open>Waiting\<close>), otherwise it has left the loop,
  run its exit code and closed its socket (\<open>Exited\<close>).
\<close>

section \<open>The thread's local variables\<close>

record thread =
  t_client :: pango_data
  t_buff :: "byte list"
  t_return_value :: byte
  t_status :: byte
  t_checked :: byte
  t_end_time :: uint32

definition thread_start :: "pango_data \<Rightarrow> thread" where
  "thread_start client =
     \<lparr>t_client = client, t_buff = replicate CLIENT_DATA_BUFFER_SIZE 0, t_return_value = STAY,
      t_status = STATUS_INITIAL_VALUE, t_checked = FALSE, t_end_time = 0\<rparr>"

section \<open>The two requests\<close>

definition handle_start_app ::
    "('db, 'stmt) sqlite \<Rightarrow> thread \<Rightarrow> 'db world \<Rightarrow> (thread \<times> 'db world) option" where
  "handle_start_app eng t w = do {
     (exist, w) \<leftarrow> clinet_exist_in_database_check eng (mac_address (t_client t)) (t_checked t) w;
     (t, w, left) \<leftarrow>
       (if exist = TRUE
        then do {
          (r, client, status, w) \<leftarrow> retriev_client_data eng (t_client t) (t_status t) w;
          let t = t\<lparr>t_client := client, t_status := status, t_return_value := r\<rparr>;
          Some (if r \<noteq> QUIT then (t\<lparr>t_checked := TRUE\<rparr>, w, False) else (t, w, True)) }
        else Some (t, w, False));
     if left then Some (t, w)
     else if new_client (t_checked t) = TRUE
     then do {
       (r, client, status, w) \<leftarrow> process_client_data eng (t_client t) (t_status t) w;
       let client = (if r \<noteq> QUIT then client\<lparr>connected := TRUE\<rparr> else client);
       Some (t\<lparr>t_client := client, t_status := status, t_return_value := r\<rparr>, w) }
     else Some (t, w) }"

definition handle_close_app ::
    "('db, 'stmt) sqlite \<Rightarrow> thread \<Rightarrow> 'db world \<Rightarrow> (thread \<times> 'db world) option" where
  "handle_close_app eng t w = do {
     w \<leftarrow> mutex_lock w;
     (rc, end, w) \<leftarrow> update_client_data eng (t_client t) w;
     let status = (if rc = ERROR then CLOSE_APP_ERROR else t_status t);
     let client = (t_client t)\<lparr>connected := FALSE\<rparr>;
     w \<leftarrow> mutex_unlock w;
     Some (t\<lparr>t_client := client, t_status := status, t_end_time := end, t_return_value := QUIT\<rparr>, w) }"

section \<open>One iteration of the loop\<close>

definition check_and_store :: "thread \<Rightarrow> thread option" where
  "check_and_store t = do {
     (ok, status) \<leftarrow> CRC_8_check (t_buff t) PANGO_DATA_SIZE (t_status t);
     if ok = TRUE
     then do {
       (status, client) \<leftarrow> store_client_data_in_struct status (t_buff t) (t_client t);
       Some (t\<lparr>t_status := status, t_client := client\<rparr>) }
     else Some (t\<lparr>t_status := status, t_return_value := QUIT\<rparr>) }"

definition dispatch ::
    "('db, 'stmt) sqlite \<Rightarrow> thread \<Rightarrow> 'db world \<Rightarrow> (thread \<times> 'db world) option" where
  "dispatch eng t w =
     (if t_status t = START_APP then handle_start_app eng t w
      else if t_status t = CLOSE_APP then handle_close_app eng t w
      else Some (t, w))"

definition pango_iteration ::
    "('db, 'stmt) sqlite \<Rightarrow> recv_result \<Rightarrow> thread \<Rightarrow> 'db world \<Rightarrow> (thread \<times> 'db world) option" where
  "pango_iteration eng r t w = do {
     (lost, client, status, buff, w) \<leftarrow>
       wait_for_data_from_client r (t_client t) (t_status t) (t_buff t) w;
     let t = t\<lparr>t_client := client, t_status := status, t_buff := buff\<rparr>;
     if lost = CONNECTION_LOST then Some (t\<lparr>t_return_value := QUIT\<rparr>, w)
     else do {
       t \<leftarrow> check_and_store t;
       dispatch eng t w } }"

section \<open>The exit\<close>

definition err_msg :: msg where
  "err_msg = Chars ''ERROR''"

definition pango_exit ::
    "('db, 'stmt) sqlite \<Rightarrow> thread \<Rightarrow> 'db world \<Rightarrow> (thread \<times> 'db world) option" where
  "pango_exit eng t w =
     (let client = t_client t in
      if t_status t = CLOSE_APP then do {
        w \<leftarrow> calculate_and_send_payment_data (time_start_parking client) (t_end_time t)
               (price client) (client_fd client) w;
        w \<leftarrow> mutex_lock w;
        w \<leftarrow> remove_client_data eng (mac_address client) w;
        w \<leftarrow> mutex_unlock w;
        Some (t, w) }
      else if t_status t = CONNECTION_LOST then do {
        w \<leftarrow> mutex_lock w;
        (rc, end, w) \<leftarrow> update_client_data eng client w;
        w \<leftarrow> mutex_unlock w;
        Some (t\<lparr>t_end_time := end\<rparr>, w) }
      else if t_status t = CRC8_TEST_FAILED \<or>
              t_status t = ERROR_STATUS_IN_CLIENT_EXIST_SUBFUNCTIONS \<or>
              t_status t = ERROR_STATUS_IN_NEW_CLIENT_SUBFUNCTIONS
      then (let (rc, w) = send_msg (client_fd client) err_msg w in Some (t, w))
      else Some (t, w))"

section \<open>The thread\<close>

datatype ('t, 'w) outcome = Waiting 't 'w | Exited 't 'w

fun outcome_world :: "('t, 'w) outcome \<Rightarrow> 'w" where
  "outcome_world (Waiting t w) = w"
| "outcome_world (Exited t w) = w"

text \<open>What the thread has closed: nothing before it exits, then the socket of its record.\<close>

fun closed_by :: "(thread, 'w) outcome \<Rightarrow> byte list" where
  "closed_by (Waiting t w) = []"
| "closed_by (Exited t w) = [client_fd (t_client t)]"

fun pango_loop ::
    "('db, 'stmt) sqlite \<Rightarrow> recv_result list \<Rightarrow> thread \<Rightarrow> 'db world
     \<Rightarrow> (thread, 'db world) outcome option" where
  "pango_loop eng [] t w = Some (Waiting t w)"
| "pango_loop eng (r # rs) t w = do {
     (t, w) \<leftarrow> pango_iteration eng r t w;
     if t_return_value t = QUIT
     then do {
       (t, w) \<leftarrow> pango_exit eng t w;
       Some (Exited t (close_fd (client_fd (t_client t)) w)) }
     else pango_loop eng rs t w }"

definition pango_client ::
    "('db, 'stmt) sqlite \<Rightarrow> recv_result list \<Rightarrow> pango_data \<Rightarrow> 'db world
     \<Rightarrow> (thread, 'db world) outcome option" where
  "pango_client eng rs client w = pango_loop eng rs (thread_start client) w"

end
