(* ===== verification/Server_Safety.thy ===== *)
theory Server_Safety
  imports Server_Thread
begin

text \<open>
  Safety of the client thread, for every sequence of \<open>recv\<close> results and every behaviour of the
  databases that the contract allows, failures included: no buffer overrun, no signed
  overflow, no string without NUL, no double lock; the thread leaves the mutex free and every
  statement handle finalized.

  The invariant behind the absence of overflow: no row of the table, and no start time, lies
  in the future, so that every elapsed time is an \<open>int\<close>.
\<close>

section \<open>The invariant\<close>

definition rows_ok :: "int \<Rightarrow> parked list \<Rightarrow> bool" where
  "rows_ok now rs \<longleftrightarrow>
     (\<forall>r\<in>set rs. length (p_loc r) < LOCATION_SIZE \<and> plain (p_loc r) \<and> 0 \<le> p_time r \<and> p_time r \<le> now)"

text \<open>
  What is assumed of the clock: its readings never go back and are seconds that fit an \<open>int\<close>.
  \<open>gettimeofday\<close> does not promise the first (the system time can be set back), and the second ends
  in 2038.
\<close>

definition clock_ok :: "'db world \<Rightarrow> bool" where
  "clock_ok w \<longleftrightarrow> mono (clock w) \<and> (\<forall>n. 0 \<le> clock w n \<and> clock w n < 2 ^ 31)"

definition world_ok :: "('db \<Rightarrow> parked list) \<Rightarrow> 'db world \<Rightarrow> bool" where
  "world_ok tbl w \<longleftrightarrow> clock_ok w \<and> rows_ok (clock w (ticks w)) (tbl (db_client w))"

definition client_inv :: "'db world \<Rightarrow> pango_data \<Rightarrow> bool" where
  "client_inv w c \<longleftrightarrow>
     client_ok c \<and> length (cstr (mac_address c)) < MAC_ADDRESS_SIZE \<and>
     0 \<le> sint (time_start_parking c) \<and> sint (time_start_parking c) \<le> clock w (ticks w)"

text \<open>
  A message of the server: the text ERROR, a terminated location of twelve characters, or the
  two numbers of a bill. \<open>sent_more\<close>: only such messages have been added to the outbox.
\<close>

fun msg_ok :: "msg \<Rightarrow> bool" where
  "msg_ok (Chars s) \<longleftrightarrow> s = ''ERROR'' \<or> length s = LOCATION_SIZE \<and> nul \<in> set s"
| "msg_ok (Doubles ds) \<longleftrightarrow> length ds = 2"

definition sent_more :: "(byte \<times> msg) list \<Rightarrow> (byte \<times> msg) list \<Rightarrow> bool" where
  "sent_more out out' \<longleftrightarrow> (\<exists>ms. out' = out @ ms \<and> list_all (\<lambda>(fd, m). msg_ok m) ms)"

lemma sent_more_refl [simp]: "sent_more out out"
  by (simp add: sent_more_def)

lemma sent_more_trans: "sent_more a b \<Longrightarrow> sent_more b c \<Longrightarrow> sent_more a c"
  by (auto simp: sent_more_def)

lemma sent_more_one [simp]: "msg_ok m \<Longrightarrow> sent_more out (out @ [(fd, m)])"
  by (simp add: sent_more_def)

text \<open>What an operation leaves alone: the environment, the mutex and the open statements.\<close>

definition same_env :: "'db world \<Rightarrow> 'db world \<Rightarrow> bool" where
  "same_env w w' \<longleftrightarrow>
     clock w' = clock w \<and> ticks w \<le> ticks w' \<and> send_result w' = send_result w \<and>
     locked w' = locked w \<and> open_stmts w' = open_stmts w \<and> closed_fds w' = closed_fds w \<and>
     sent_more (outbox w) (outbox w')"

lemma same_env_refl [simp]: "same_env w w"
  by (simp add: same_env_def)

lemma same_env_trans: "same_env w w' \<Longrightarrow> same_env w' w'' \<Longrightarrow> same_env w w''"
  by (auto simp: same_env_def intro: sent_more_trans)

lemma rows_ok_mono: "rows_ok now rs \<Longrightarrow> now \<le> now' \<Longrightarrow> rows_ok now' rs"
  by (force simp: rows_ok_def)

lemma rows_ok_set_time: "rows_ok now rs \<Longrightarrow> 0 \<le> n \<Longrightarrow> n \<le> now \<Longrightarrow> rows_ok now (set_time n mac rs)"
  by (auto simp: rows_ok_def set_time_def)

lemma world_ok_closed [simp]: "world_ok tbl (w\<lparr>closed_fds := cs\<rparr>) = world_ok tbl w"
  by (simp add: world_ok_def clock_ok_def)

lemma client_inv_later:
  assumes "client_inv w c" and "same_env w w'" and "clock_ok w"
  shows "client_inv w' c"
proof -
  have "clock w (ticks w) \<le> clock w (ticks w')"
    using assms(2,3) by (auto simp: same_env_def clock_ok_def dest: monoD)
  with assms(1,2) show ?thesis by (auto simp: client_inv_def same_env_def)
qed

lemma clock_range:
  assumes "clock_ok w"
  shows "0 \<le> clock w n" and "clock w n < 2 ^ 31" and "sint (word_of_int (clock w n) :: int32) = clock w n"
  using assms by (auto simp: clock_ok_def intro!: sint_int32_of_int intro: order_trans [of _ 0])

lemma client_inv_strings:
  assumes "client_inv w c"
  shows "c_string (mac_address c) = Some (cstr (mac_address c))"
    and "c_string (location c) = Some (cstr (location c))"
    and "length (cstr (mac_address c)) \<le> 17" and "length (cstr (location c)) \<le> 11"
    and "plain (cstr (mac_address c))" and "plain (cstr (location c))"
    and "length (location c) = LOCATION_SIZE" and "msg_ok (Chars (location c))"
  using assms length_cstr_less [of "location c"]
  by (auto simp: client_inv_def client_ok_def c_string_def size_defs)

section \<open>Reading the clock\<close>

lemma gettimeofday_ok:
  assumes "gettimeofday w = (t, w')" and "world_ok tbl w"
  shows "world_ok tbl w'" and "same_env w w'" and "t = clock w (ticks w)" and "t \<le> clock w' (ticks w')"
    and "db_client w' = db_client w" and "db_prices w' = db_prices w"
proof -
  have w': "w' = w\<lparr>ticks := ticks w + 1\<rparr>" and t: "t = clock w (ticks w)"
    using assms(1) by (simp_all add: gettimeofday_def)
  have le: "clock w (ticks w) \<le> clock w (ticks w + 1)"
    using assms(2) monoD [of "clock w" "ticks w" "ticks w + 1"] by (simp add: world_ok_def clock_ok_def)
  show "world_ok tbl w'"
    using assms(2) rows_ok_mono [OF _ le] by (simp add: w' world_ok_def clock_ok_def)
  show "same_env w w'" "t = clock w (ticks w)" "t \<le> clock w' (ticks w')"
    "db_client w' = db_client w" "db_prices w' = db_prices w"
    using le by (simp_all add: w' t same_env_def)
qed

lemma send_msg_ok:
  assumes "send_msg fd m w = (rc, w')" and "msg_ok m"
  shows "world_ok tbl w' = world_ok tbl w" and "same_env w w'"
  using assms by (auto simp: send_msg_def Let_def world_ok_def clock_ok_def same_env_def split: if_splits)

section \<open>Statements\<close>

context sqlite_contract
begin

lemma exec_update_ok:
  assumes "exec_client eng (update_time_sql n mac) w = (rc, w')" and "world_ok tbl w" and "plain mac"
    and "0 \<le> n" and "n \<le> clock w (ticks w)"
  shows "world_ok tbl w' \<and> same_env w w'"
proof -
  obtain db' where db': "sq_exec eng (db_client w) (update_time_sql n mac) = (rc, db')"
    and w': "w' = w\<lparr>db_client := db'\<rparr>"
    using assms(1) by (auto simp: exec_client_def split: prod.splits)
  have "tbl db' = tbl (db_client w) \<or> tbl db' = set_time n mac (tbl (db_client w))"
    using exec_failed [OF db'] exec_update db' assms(3) by blast
  with assms show ?thesis
    by (auto simp: w' world_ok_def clock_ok_def same_env_def rows_ok_set_time)
qed

lemma exec_delete_ok:
  assumes "exec_client eng (delete_client_sql mac) w = (rc, w')" and "world_ok tbl w" and "plain mac"
  shows "world_ok tbl w' \<and> same_env w w'"
proof -
  obtain db' where db': "sq_exec eng (db_client w) (delete_client_sql mac) = (rc, db')"
    and w': "w' = w\<lparr>db_client := db'\<rparr>"
    using assms(1) by (auto simp: exec_client_def split: prod.splits)
  have "set (tbl db') \<subseteq> set (tbl (db_client w))"
    using exec_failed [OF db'] exec_delete [of "db_client w" mac db'] db' assms(3) by fastforce
  with assms(2) show ?thesis
    by (auto simp: w' world_ok_def clock_ok_def same_env_def rows_ok_def)
qed

lemma exec_insert_ok:
  assumes "exec_client eng (insert_client_sql mac 0 loc) w = (rc, w')" and "world_ok tbl w"
    and "plain mac" and "plain loc" and "length loc < LOCATION_SIZE"
  shows "world_ok tbl w' \<and> same_env w w'"
proof -
  obtain db' where db': "sq_exec eng (db_client w) (insert_client_sql mac 0 loc) = (rc, db')"
    and w': "w' = w\<lparr>db_client := db'\<rparr>"
    using assms(1) by (auto simp: exec_client_def split: prod.splits)
  have "tbl db' = tbl (db_client w) \<or>
      tbl db' = tbl (db_client w) @ [\<lparr>p_mac = mac, p_time = 0, p_loc = loc\<rparr>]"
    using exec_failed [OF db'] exec_insert db' assms(3,4) by blast
  with assms show ?thesis
    by (auto simp: w' world_ok_def clock_ok_def same_env_def rows_ok_def)
qed

text \<open>A prepared and finalized statement leaves the world as it was.\<close>

lemma prepare_client_finalize:
  "prepare_client eng sql w = (rc, st, w') \<Longrightarrow> finalize st w' = w \<and> db_client w' = db_client w"
  by (auto simp: prepare_client_def count_open_def finalize_def split: prod.splits)

lemma prepare_client_failed:
  "prepare_client eng sql w = (rc, st, w') \<Longrightarrow> rc \<noteq> SQLITE_OK \<Longrightarrow> st = None \<and> w' = w"
  using prepare_failed [of "db_client w" sql rc st]
  by (auto simp: prepare_client_def count_open_def split: prod.splits)

lemma prepare_prices_finalize:
  "prepare_prices eng sql w = (rc, st, w') \<Longrightarrow> finalize st w' = w \<and> db_prices w' = db_prices w"
  by (auto simp: prepare_prices_def count_open_def finalize_def split: prod.splits)

lemma prepare_prices_failed:
  "prepare_prices eng sql w = (rc, st, w') \<Longrightarrow> rc \<noteq> SQLITE_OK \<Longrightarrow> st = None \<and> w' = w"
  using prepare_failed [of "db_prices w" sql rc st]
  by (auto simp: prepare_prices_def count_open_def split: prod.splits)

lemma prepare_client_code:
  "prepare_client eng sql w = (rc, st, w') \<Longrightarrow> (ucast rc :: byte) = ucast SQLITE_OK \<longleftrightarrow> rc = SQLITE_OK"
  using prepare_primary by (auto simp: prepare_client_def SQLITE_OK_def split: prod.splits)

lemma step_code: "sq_step eng db st = (rc, st') \<Longrightarrow> (ucast rc :: byte) = ucast SQLITE_ROW \<longleftrightarrow> rc = SQLITE_ROW"
  using step_primary by (simp add: SQLITE_ROW_def)

lemma exec_client_code:
  "exec_client eng sql w = (rc, w') \<Longrightarrow> (ucast rc :: byte) = ucast SQLITE_OK \<longleftrightarrow> rc = SQLITE_OK"
  using exec_primary by (auto simp: exec_client_def SQLITE_OK_def split: prod.splits)

end

section \<open>The mutex\<close>

lemma world_ok_locked [simp]: "world_ok tbl (w\<lparr>locked := b\<rparr>) = world_ok tbl w"
  by (simp add: world_ok_def clock_ok_def)

lemma client_inv_locked [simp]: "client_inv (w\<lparr>locked := b\<rparr>) c = client_inv w c"
  by (simp add: client_inv_def)

text \<open>A critical section whose body keeps the environment can be left, and is left free.\<close>

lemma critical_section:
  assumes "\<not> locked w" and "same_env (w\<lparr>locked := True\<rparr>) w'"
  shows "mutex_lock w = Some (w\<lparr>locked := True\<rparr>)" and "mutex_unlock w' = Some (w'\<lparr>locked := False\<rparr>)"
    and "same_env w (w'\<lparr>locked := False\<rparr>)"
  using assms by (auto simp: mutex_lock_def mutex_unlock_def same_env_def)

section \<open>The database operations\<close>

definition keeps :: "('db \<Rightarrow> parked list) \<Rightarrow> 'db world \<Rightarrow> 'db world \<Rightarrow> bool" where
  "keeps tbl w w' \<longleftrightarrow> same_env w w' \<and> world_ok tbl w'"

lemma keeps_refl: "world_ok tbl w \<Longrightarrow> keeps tbl w w"
  by (simp add: keeps_def)

lemma keeps_trans: "keeps tbl w w' \<Longrightarrow> keeps tbl w' w'' \<Longrightarrow> keeps tbl w w''"
  using same_env_trans by (auto simp: keeps_def)

lemma keeps_client_inv: "keeps tbl w w' \<Longrightarrow> world_ok tbl w \<Longrightarrow> client_inv w c \<Longrightarrow> client_inv w' c"
  using client_inv_later by (auto simp: keeps_def world_ok_def)

lemma send_msg_keeps: "send_msg fd m w = (rc, w') \<Longrightarrow> msg_ok m \<Longrightarrow> world_ok tbl w \<Longrightarrow> keeps tbl w w'"
  unfolding keeps_def using send_msg_ok by blast

lemma gettimeofday_keeps: "gettimeofday w = (t, w') \<Longrightarrow> world_ok tbl w \<Longrightarrow> keeps tbl w w'"
  unfolding keeps_def using gettimeofday_ok by blast

context sqlite_contract
begin

lemma lookup_ok:
  assumes "client_inv w c"
  shows "\<exists>r. clinet_exist_in_database_check eng (mac_address c) chk w = Some (r, w)"
proof -
  obtain rc st w' where p: "prepare_client eng (select_client_sql (cstr (mac_address c))) w = (rc, st, w')"
    by (metis prod_cases3)
  have "finalize st w' = w" using prepare_client_finalize [OF p] by simp
  with p client_inv_strings [OF assms] show ?thesis
    by (auto simp: clinet_exist_in_database_check_def clinet_exist_in_database_check_preparation_def
        sprintf_local_def sql_lengths split: prod.splits)
qed

lemma update_client_data_ok:
  assumes "client_inv w c" and "world_ok tbl w"
  shows "\<exists>rc e w'. update_client_data eng c w = Some (rc, e, w') \<and> keeps tbl w w' \<and> 0 \<le> sint e"
proof -
  let ?s = "time_start_parking c" and ?mac = "cstr (mac_address c)"
  obtain t w1 where t: "gettimeofday w = (t, w1)" by fastforce
  note g = gettimeofday_ok [OF t assms(2)]
  have tr: "0 \<le> t" "t < 2 ^ 31" "sint (word_of_int t :: int32) = t"
    using clock_range [of w "ticks w"] assms(2) by (simp_all add: g(3) world_ok_def)
  have s: "0 \<le> sint ?s" "sint ?s \<le> t" using assms(1) by (simp_all add: g(3) client_inv_def)
  have "int_sub (word_of_int t) ?s = Some (word_of_int t - ?s)" using tr s by (intro int_sub_nonneg) simp_all
  then have d: "sint (word_of_int t - ?s) = t - sint ?s" using int_sub_Some tr by fastforce
  obtain rc w2 where x: "exec_client eng (update_time_sql (sint (word_of_int t - ?s)) ?mac) w1 = (rc, w2)"
    by fastforce
  have "world_ok tbl w2 \<and> same_env w1 w2"
    using g(1,4) s client_inv_strings(5) [OF assms(1)] by (intro exec_update_ok [OF x]) (simp_all add: d)
  then have "keeps tbl w w2" using g(2) same_env_trans by (auto simp: keeps_def)
  moreover have "length (update_time_sql (sint (word_of_int t - ?s)) ?mac) < 100"
    using length_fmt_d_sint [of "word_of_int t - ?s"] client_inv_strings(3) [OF assms(1)]
    by (simp add: sql_lengths)
  ultimately show ?thesis
    using t x tr client_inv_strings(1) [OF assms(1)]
    by (auto simp: update_client_data_def sprintf_local_def Let_def)
qed

lemma remove_client_data_ok:
  assumes "client_inv w c" and "world_ok tbl w"
  shows "\<exists>w'. remove_client_data eng (mac_address c) w = Some w' \<and> keeps tbl w w'"
proof -
  obtain rc w' where x: "exec_client eng (delete_client_sql (cstr (mac_address c))) w = (rc, w')" by fastforce
  have "keeps tbl w w'" using exec_delete_ok [OF x assms(2)] client_inv_strings(5) [OF assms(1)] by (simp add: keeps_def)
  with x client_inv_strings [OF assms(1)] show ?thesis
    by (auto simp: remove_client_data_def sprintf_local_def sql_lengths)
qed

lemma insert_ok:
  assumes "client_inv w c" and "world_ok tbl w"
  shows "\<exists>r w'. insert_client_data_into_database eng c w = Some (r, w') \<and> keeps tbl w w'"
proof -
  obtain rc w' where x: "exec_client eng (insert_client_sql (cstr (mac_address c)) 0 (cstr (location c))) w = (rc, w')"
    by fastforce
  note str = client_inv_strings [OF assms(1)]
  have "keeps tbl w w'" using exec_insert_ok [OF x assms(2)] str by (simp add: keeps_def size_defs)
  moreover have "length (fmt_d 0) \<le> 11" by (rule length_fmt_d) simp_all
  ultimately show ?thesis using x str
    by (auto simp: insert_client_data_into_database_def sprintf_local_def sql_lengths Let_def)
qed

lemma price_ok:
  assumes "client_inv w c"
  shows "\<exists>r p. retrieve_parking_price_per_city_from_database eng c w = Some (r, c\<lparr>price := p\<rparr>, w)"
proof -
  obtain rc st w' where p: "prepare_prices eng (select_price_sql (cstr (location c))) w = (rc, st, w')"
    by (metis prod_cases3)
  obtain rc2 row where st: "sq_step eng (db_prices w') st = (rc2, row)" by fastforce
  define c' where "c' = c\<lparr>price := (if rc = SQLITE_OK \<and> rc2 = SQLITE_ROW then sq_column_double eng row 1 else price c)\<rparr>"
  have "retrieve_parking_price_per_city_from_database eng c w = Some (if rc = SQLITE_OK then STAY else QUIT, c', w)"
    using p st prepare_prices_finalize [OF p] prepare_prices_failed [OF p] client_inv_strings [OF assms]
    by (simp add: retrieve_parking_price_per_city_from_database_def sprintf_local_def sql_lengths c'_def)
  then show ?thesis unfolding c'_def by blast
qed

end

lemma client_inv_fields [simp]:
  "client_inv w (c\<lparr>price := p\<rparr>) = client_inv w c"
  "client_inv w (c\<lparr>connected := b\<rparr>) = client_inv w c"
  by (simp_all add: client_inv_def client_ok_def)


section \<open>The handlers\<close>

text \<open>The loop's invariant.\<close>

definition thread_inv :: "('db \<Rightarrow> parked list) \<Rightarrow> thread \<Rightarrow> 'db world \<Rightarrow> bool" where
  "thread_inv tbl t w \<longleftrightarrow>
     world_ok tbl w \<and> client_inv w (t_client t) \<and> length (t_buff t) = CLIENT_DATA_BUFFER_SIZE \<and>
     0 \<le> sint (t_end_time t) \<and> \<not> locked w"

definition outcome_ok :: "('db \<Rightarrow> parked list) \<Rightarrow> 'db world \<Rightarrow> (thread, 'db world) outcome \<Rightarrow> bool" where
  "outcome_ok tbl w out \<longleftrightarrow>
     (\<exists>w'. keeps tbl w w' \<and> outcome_world out = w'\<lparr>closed_fds := closed_fds w @ closed_by out\<rparr>)"

lemma check_and_store_ok:
  assumes "thread_inv tbl t w"
  shows "\<exists>t'. check_and_store t = Some t' \<and> thread_inv tbl t' w"
proof -
  have len: "length (t_buff t) = 10" "length (mac_address (t_client t)) = MAC_ADDRESS_SIZE"
    using assms by (simp_all add: thread_inv_def size_defs client_inv_def client_ok_def)
  note chk = CRC_8_check_iff [OF len(1)]
  show ?thesis
  proof (cases "frame_ok (t_buff t) \<and> t_status t \<noteq> CRC8_TEST_FAILED")
    case True
    then obtain m where m: "store_client_data_in_struct (t_status t) (t_buff t) (t_client t) =
        Some (t_buff t ! 0, (t_client t)\<lparr>mac_address := m, x_axis := t_buff t ! 7, y_axis := t_buff t ! 8\<rparr>)"
      "cstr m = mac_text (drop 1 (take 7 (t_buff t)))" "length m = MAC_ADDRESS_SIZE" "nul \<in> set m"
      using store_client_data_ok [OF len] by blast
    have "client_inv w ((t_client t)\<lparr>mac_address := m, x_axis := t_buff t ! 7, y_axis := t_buff t ! 8\<rparr>)"
      using assms m length_cstr_less [OF m(4)] plain_mac_text
      by (simp add: thread_inv_def client_inv_def client_ok_def)
    with True m assms chk show ?thesis by (simp add: check_and_store_def thread_inv_def)
  next
    case False
    with assms chk show ?thesis
      by (cases "frame_ok (t_buff t)")
         (simp_all add: check_and_store_def thread_inv_def store_client_data_in_struct_def flag_defs)
  qed
qed

context sqlite_contract
begin

lemma start_time_ok:
  assumes "client_inv w c" and "world_ok tbl w"
  shows "\<exists>c' w'. initialize_and_get_start_time c w = Some (c', w') \<and> keeps tbl w w' \<and> client_inv w' c'"
proof -
  obtain t w' where t: "gettimeofday w = (t, w')" by fastforce
  note g = gettimeofday_ok [OF t assms(2)]
  obtain l where l: "location_func (x_axis c) (y_axis c) (location c) = Some l"
    "cstr l = location_name (x_axis c) (y_axis c)" "length l = LOCATION_SIZE" "nul \<in> set l"
    using location_func_ok client_inv_strings(7) [OF assms(1)] by blast
  have tr: "0 \<le> t" "sint (word_of_int t :: int32) = t"
    using clock_range [of w "ticks w"] assms(2) by (simp_all add: g(3) world_ok_def)
  have "client_inv w' (c\<lparr>time_start_parking := word_of_int t, location := l\<rparr>)"
    using assms(1) l tr g(4) plain_location_name by (simp add: client_inv_def client_ok_def)
  moreover have "keeps tbl w w'" using g by (simp add: keeps_def)
  ultimately show ?thesis using t l by (simp add: initialize_and_get_start_time_def)
qed

lemma insert_new_ok:
  assumes "client_inv w c" and "world_ok tbl w" and "\<not> locked w"
  shows "\<exists>r p st' w'. insert_new_client eng c st w = Some (r, c\<lparr>price := p\<rparr>, st', w') \<and>
    keeps tbl w w' \<and> client_inv w' (c\<lparr>price := p\<rparr>)"
proof -
  let ?l = "w\<lparr>locked := True\<rparr>"
  obtain r p where 2: "retrieve_parking_price_per_city_from_database eng c ?l = Some (r, c\<lparr>price := p\<rparr>, ?l)"
    using price_ok [of ?l c] assms(1) by auto
  obtain r' w2 where 3: "(if r = QUIT then Some (QUIT, ?l) else insert_client_data_into_database eng (c\<lparr>price := p\<rparr>) ?l)
      = Some (r', w2)" "keeps tbl ?l w2"
    using insert_ok [of ?l "c\<lparr>price := p\<rparr>"] assms keeps_refl [of tbl ?l]
    by (cases "r = QUIT") auto
  let ?u = "w2\<lparr>locked := False\<rparr>"
  have u: "mutex_lock w = Some ?l" "mutex_unlock w2 = Some ?u" "keeps tbl w ?u"
    using critical_section [OF assms(3), of w2] 3(2) by (auto simp: keeps_def)
  have "client_inv ?u (c\<lparr>price := p\<rparr>)" using keeps_client_inv [OF u(3) assms(2)] assms(1) by simp
  with 2 3 u show ?thesis by (cases "r' = QUIT") (auto simp: insert_new_client_def)
qed

lemma announce_ok:
  assumes "client_inv w c" and "world_ok tbl w"
  shows "keeps tbl w (snd (send_client_location c w))"
proof -
  obtain rc w' where s: "send_msg (client_fd c) (Chars (location c)) w = (rc, w')" by fastforce
  from send_msg_keeps [OF s client_inv_strings(8) [OF assms(1)] assms(2)] s show ?thesis
    by (simp add: send_client_location_def)
qed

lemma process_ok:
  assumes "client_inv w c" and "world_ok tbl w" and "\<not> locked w"
  shows "\<exists>r c' st' w'. process_client_data eng c st w = Some (r, c', st', w') \<and>
    keeps tbl w w' \<and> client_inv w' c'"
proof -
  obtain c1 w1 where 1: "initialize_and_get_start_time c w = Some (c1, w1)" "keeps tbl w w1" "client_inv w1 c1"
    using start_time_ok assms by blast
  have w1: "world_ok tbl w1" "\<not> locked w1" using 1(2) assms(3) by (simp_all add: keeps_def same_env_def)
  obtain r p st' w2 where 2: "insert_new_client eng c1 st w1 = Some (r, c1\<lparr>price := p\<rparr>, st', w2)" "keeps tbl w1 w2"
    "client_inv w2 (c1\<lparr>price := p\<rparr>)" using insert_new_ok [OF 1(3) w1] by blast
  have w2: "world_ok tbl w2" using 2(2) by (simp add: keeps_def)
  obtain q w3 where s: "send_client_location (c1\<lparr>price := p\<rparr>) w2 = (q, w3)" by fastforce
  have k3: "keeps tbl w2 w3" using announce_ok [OF 2(3) w2] s by simp
  have k: "keeps tbl w w2" "keeps tbl w w3" using keeps_trans 1(2) 2(2) k3 by blast+
  have "client_inv w3 (c1\<lparr>price := p\<rparr>)" using keeps_client_inv [OF k3 w2 2(3)] .
  with 1 2 s k show ?thesis by (cases "r = QUIT") (auto simp: process_client_data_def)
qed

lemma retrieve_time_ok:
  assumes "client_inv w c" and "world_ok tbl w"
  shows "\<exists>r c'. retrieve_time_start_parking_value_from_database eng c w = Some (r, c', w) \<and> client_inv w c'"
proof -
  let ?mac = "cstr (mac_address c)"
  note str = client_inv_strings [OF assms(1)]
  obtain rc st w' where p: "prepare_client eng (select_time_sql ?mac) w = (rc, st, w')"
    by (metis prod_cases3)
  obtain rc2 row where st: "sq_step eng (db_client w) st = (rc2, row)" by fastforce
  define c' where "c' = (if rc = SQLITE_OK \<and> rc2 = SQLITE_ROW then c\<lparr>time_start_parking := sq_column_int eng row 0\<rparr> else c)"
  have "retrieve_time_start_parking_value_from_database eng c w = Some (if rc = SQLITE_OK then STAY else QUIT, c', w)"
    using p st prepare_client_finalize [OF p] str prepare_client_code [OF p] step_code [OF st]
    by (simp add: retrieve_time_start_parking_value_from_database_def sprintf_local_def sql_lengths size_defs c'_def)
  moreover have "client_inv w c'"
  proof (cases "rc = SQLITE_OK \<and> rc2 = SQLITE_ROW")
    case True
    then have "sq_prepare eng (db_client w) (select_time_sql ?mac) = (SQLITE_OK, st)"
      using p by (auto simp: prepare_client_def split: prod.splits)
    then obtain r rs where r: "rows_of ?mac (tbl (db_client w)) = r # rs"
      "sq_column_int eng row 0 = word_of_int (p_time r)"
      using select_time [OF _ str(5) st] True by blast
    have "r \<in> set (rows_of ?mac (tbl (db_client w)))" unfolding r(1) by simp
    then have "0 \<le> p_time r" "p_time r \<le> clock w (ticks w)"
      using assms(2) by (auto simp: world_ok_def rows_ok_def)
    moreover have "clock w (ticks w) < 2 ^ 31" using clock_range(2) assms(2) by (auto simp: world_ok_def)
    ultimately show ?thesis using assms(1) r(2) sint_int32_of_int [of "p_time r"] True
      by (simp add: c'_def client_inv_def client_ok_def)
  qed (use assms(1) in \<open>auto simp: c'_def\<close>)
  ultimately show ?thesis by blast
qed

lemma continue_time_ok:
  assumes "client_inv w c" and "world_ok tbl w"
  shows "\<exists>r c' w'. update_client_and_continue_time eng c w = Some (r, c', w') \<and>
    keeps tbl w w' \<and> client_inv w' c'"
proof -
  let ?mac = "cstr (mac_address c)"
  note str = client_inv_strings [OF assms(1)]
  obtain t w1 where t: "gettimeofday w = (t, w1)" by fastforce
  note g = gettimeofday_ok [OF t assms(2)]
  let ?c = "c\<lparr>time_start_parking := word_of_int (t - sint (time_start_parking c)), connected := TRUE\<rparr>"
  have "0 \<le> sint (time_start_parking c)" "sint (time_start_parking c) \<le> t" "t < 2 ^ 31"
    using assms clock_range(2) by (auto simp: g(3) client_inv_def world_ok_def)
  then have ci: "client_inv w1 ?c" using assms(1) g(4) sint_int32_of_int [of "t - sint (time_start_parking c)"]
    by (simp add: client_inv_def client_ok_def)
  have k: "keeps tbl w w1" using g by (simp add: keeps_def)
  obtain rc st w2 where p: "prepare_client eng (select_location_sql ?mac) w1 = (rc, st, w2)"
    by (metis prod_cases3)
  obtain rc2 row where st: "sq_step eng (db_client w1) st = (rc2, row)" by fastforce
  note pf = prepare_client_finalize [OF p] prepare_client_failed [OF p] prepare_client_code [OF p] step_code [OF st]
  have open_: "update_client_and_continue_time eng c w =
    (if rc \<noteq> SQLITE_OK then Some (QUIT, ?c, w1)
     else if rc2 = SQLITE_ROW
     then do { text \<leftarrow> sq_column_text eng row 0;
               loc \<leftarrow> c_write (location ?c) 0 text;
               Some (STAY, ?c\<lparr>location := loc\<rparr>, w1) }
     else Some (STAY, ?c, w1))"
    using t p st pf str by (simp add: update_client_and_continue_time_def sprintf_local_def sql_lengths)
  show ?thesis
  proof (cases "rc = SQLITE_OK \<and> rc2 = SQLITE_ROW")
    case True
    then have "sq_prepare eng (db_client w1) (select_location_sql ?mac) = (SQLITE_OK, st)"
      using p by (auto simp: prepare_client_def split: prod.splits)
    then obtain r rs where r: "rows_of ?mac (tbl (db_client w1)) = r # rs"
      "sq_column_text eng row 0 = Some (p_loc r)"
      using select_location [OF _ str(5) st] True by blast
    have "r \<in> set (rows_of ?mac (tbl (db_client w1)))" unfolding r(1) by simp
    then have l: "length (p_loc r) < LOCATION_SIZE" "plain (p_loc r)"
      using g(1) by (auto simp: world_ok_def rows_ok_def)
    then obtain loc where loc: "c_write (location ?c) 0 (p_loc r) = Some loc"
      using c_write_Some [of 0 "p_loc r" "location ?c"] str(7) by auto
    have "client_inv w1 (?c\<lparr>location := loc\<rparr>)"
      using ci l cstr_c_write [OF loc] c_write_length [OF loc] nul_in_c_write [OF loc]
      by (simp add: client_inv_def client_ok_def plain_def)
    with True r(2) loc k show ?thesis unfolding open_ by auto
  qed (use k ci in \<open>auto simp: open_\<close>)
qed

lemma retriev_ok:
  assumes "client_inv w c" and "world_ok tbl w" and "\<not> locked w"
  shows "\<exists>r c' st' w'. retriev_client_data eng c st w = Some (r, c', st', w') \<and>
    keeps tbl w w' \<and> client_inv w' c'"
proof -
  let ?l = "w\<lparr>locked := True\<rparr>"
  have l: "client_inv ?l c" "world_ok tbl ?l" using assms by simp_all
  obtain r1 c1 where 1: "retrieve_time_start_parking_value_from_database eng c ?l = Some (r1, c1, ?l)"
    "client_inv ?l c1"
    using retrieve_time_ok [OF l] by blast
  obtain r2 c2 w2 where 2: "(if r1 = QUIT then Some (QUIT, c1, ?l) else update_client_and_continue_time eng c1 ?l)
      = Some (r2, c2, w2)" "keeps tbl ?l w2" "client_inv w2 c2"
    using continue_time_ok [OF 1(2) l(2)] keeps_refl [OF l(2)] 1(2) by (cases "r1 = QUIT") auto
  obtain r3 c3 where 3: "(if r2 = QUIT then Some (QUIT, c2, w2)
        else retrieve_parking_price_per_city_from_database eng c2 w2) = Some (r3, c3, w2)" "client_inv w2 c3"
    using price_ok [OF 2(3)] 2(3) by (cases "r2 = QUIT") auto
  obtain rc w4 where s: "send_msg (client_fd c3) (Chars (location c3)) w2 = (rc, w4)" by fastforce
  have k4: "keeps tbl w2 w4"
    using send_msg_keeps [OF s client_inv_strings(8) [OF 3(2)], of tbl] 2(2) by (simp add: keeps_def)
  have i4: "client_inv w4 c3" using keeps_client_inv [OF k4 _ 3(2)] 2(2) by (simp add: keeps_def)
  have lock: "mutex_lock w = Some ?l" using assms(3) by (simp add: mutex_lock_def)
  have u: "mutex_unlock w' = Some (w'\<lparr>locked := False\<rparr>)" "keeps tbl w (w'\<lparr>locked := False\<rparr>)"
    if "keeps tbl ?l w'" for w'
    using critical_section [OF assms(3), of w'] that by (simp_all add: keeps_def)
  note u2 = u [OF 2(2)] and u4 = u [OF keeps_trans [OF 2(2) k4]]
  show ?thesis
    using lock 1 2 3 s u2 u4 i4
    by (cases "r3 = QUIT") (auto simp: retriev_client_data_def send_client_location_def)
qed

lemma handle_start_ok:
  assumes "thread_inv tbl t w"
  shows "\<exists>t' w'. handle_start_app eng t w = Some (t', w') \<and> keeps tbl w w' \<and> thread_inv tbl t' w'"
proof -
  let ?c = "t_client t"
  have a: "world_ok tbl w" "client_inv w ?c" "\<not> locked w"
    using assms by (simp_all add: thread_inv_def)
  obtain ex where 1: "clinet_exist_in_database_check eng (mac_address ?c) (t_checked t) w = Some (ex, w)"
    using lookup_ok [OF a(2)] by blast
  obtain r c st w' where 2: "retriev_client_data eng ?c (t_status t) w = Some (r, c, st, w')"
    "keeps tbl w w'" "client_inv w' c"
    using retriev_ok [OF a(2,1,3)] by blast
  obtain t1 w1 left where 3: "(if ex = TRUE
      then do {
        (r, client, status, w) \<leftarrow> retriev_client_data eng ?c (t_status t) w;
        let t = t\<lparr>t_client := client, t_status := status, t_return_value := r\<rparr>;
        Some (if r \<noteq> QUIT then (t\<lparr>t_checked := TRUE\<rparr>, w, False) else (t, w, True)) }
      else Some (t, w, False)) = Some (t1, w1, left)"
    and k1: "keeps tbl w w1" "thread_inv tbl t1 w1"
    using 2 assms keeps_refl [OF a(1)] a(3)
    by (cases "ex = TRUE"; cases "r = QUIT") (auto simp: thread_inv_def keeps_def same_env_def)
  have b: "world_ok tbl w1" "client_inv w1 (t_client t1)" "\<not> locked w1"
    using k1(2) by (simp_all add: thread_inv_def)
  obtain r2 c2 st2 w2 where 4: "process_client_data eng (t_client t1) (t_status t1) w1 = Some (r2, c2, st2, w2)"
    "keeps tbl w1 w2" "client_inv w2 c2"
    using process_ok [OF b(2,1,3)] by blast
  have "\<not> locked w2" using 4(2) b(3) by (simp add: keeps_def same_env_def)
  then show ?thesis
    using 1 3 k1 4 keeps_trans [OF k1(1) 4(2)]
    by (cases left; cases "new_client (t_checked t1) = TRUE")
       (auto simp: handle_start_app_def thread_inv_def keeps_def)
qed

lemma handle_close_ok:
  assumes "thread_inv tbl t w"
  shows "\<exists>t' w'. handle_close_app eng t w = Some (t', w') \<and> keeps tbl w w' \<and> thread_inv tbl t' w'"
proof -
  let ?l = "w\<lparr>locked := True\<rparr>"
  have a: "world_ok tbl ?l" "client_inv ?l (t_client t)" "\<not> locked w"
    using assms by (simp_all add: thread_inv_def)
  obtain rc e w' where 1: "update_client_data eng (t_client t) ?l = Some (rc, e, w')" "keeps tbl ?l w'" "0 \<le> sint e"
    using update_client_data_ok [OF a(2,1)] by blast
  note cs = critical_section [OF a(3), of w']
  have k: "keeps tbl w (w'\<lparr>locked := False\<rparr>)" using cs 1(2) by (simp add: keeps_def)
  have "client_inv (w'\<lparr>locked := False\<rparr>) (t_client t)" using keeps_client_inv [OF k] a by simp
  with cs 1 k assms show ?thesis by (auto simp: handle_close_app_def thread_inv_def keeps_def)
qed

lemma payment_ok:
  assumes "client_inv w c" and "world_ok tbl w" and "0 \<le> sint e"
  shows "\<exists>w'. calculate_and_send_payment_data (time_start_parking c) e (price c) (client_fd c) w = Some w' \<and>
    keeps tbl w w'"
proof -
  have "int_sub e (time_start_parking c) = Some (e - time_start_parking c)"
    using assms by (intro int_sub_nonneg) (simp_all add: client_inv_def)
  moreover have "msg_ok (Doubles [p, q])" for p q by simp
  ultimately show ?thesis using send_msg_keeps [OF _ _ assms(2)]
    by (auto simp: calculate_and_send_payment_data_def split: prod.splits)
qed

lemma pango_exit_ok:
  assumes "thread_inv tbl t w"
  shows "\<exists>t' w'. pango_exit eng t w = Some (t', w') \<and> keeps tbl w w' \<and> \<not> locked w'"
proof -
  let ?c = "t_client t" and ?lock = "\<lambda>w. w\<lparr>locked := True\<rparr>"
  have a: "world_ok tbl w" "client_inv w ?c" "\<not> locked w" "0 \<le> sint (t_end_time t)"
    using assms by (simp_all add: thread_inv_def)
  obtain w1 where 1: "calculate_and_send_payment_data (time_start_parking ?c) (t_end_time t) (price ?c) (client_fd ?c) w
      = Some w1" "keeps tbl w w1" using payment_ok [OF a(2,1,4)] by blast
  have l1: "world_ok tbl (?lock w1)" "client_inv (?lock w1) ?c" "\<not> locked w1"
    using 1(2) keeps_client_inv [OF 1(2) a(1,2)] a(3) by (simp_all add: keeps_def same_env_def)
  obtain w2 where 2: "remove_client_data eng (mac_address ?c) (?lock w1) = Some w2" "keeps tbl (?lock w1) w2"
    using remove_client_data_ok [OF l1(2,1)] by blast
  obtain rc e w3 where 3: "update_client_data eng ?c (?lock w) = Some (rc, e, w3)" "keeps tbl (?lock w) w3"
    using update_client_data_ok [of "?lock w" ?c] a by auto
  obtain rc4 w4 where 4: "send_msg (client_fd ?c) err_msg w = (rc4, w4)" by fastforce
  note cs1 = critical_section [OF l1(3), of w2] and cs2 = critical_section [OF a(3), of w3]
  have eq: "pango_exit eng t w = Some
    (if t_status t = CLOSE_APP then (t, w2\<lparr>locked := False\<rparr>)
     else if t_status t = CONNECTION_LOST then (t\<lparr>t_end_time := e\<rparr>, w3\<lparr>locked := False\<rparr>)
     else if t_status t = CRC8_TEST_FAILED \<or> t_status t = ERROR_STATUS_IN_CLIENT_EXIST_SUBFUNCTIONS \<or>
             t_status t = ERROR_STATUS_IN_NEW_CLIENT_SUBFUNCTIONS then (t, w4) else (t, w))"
    using 1(1) 2 3 4 cs1 cs2 by (simp add: pango_exit_def Let_def keeps_def)
  have "keeps tbl w (w2\<lparr>locked := False\<rparr>)" "keeps tbl w (w3\<lparr>locked := False\<rparr>)" "keeps tbl w w4"
    using cs1 cs2 2(2) 3(2) send_msg_keeps [OF 4 _ a(1)] keeps_trans [OF 1(2)] by (simp_all add: keeps_def err_msg_def)
  with eq a(3) keeps_refl [OF a(1)] show ?thesis by (auto simp: keeps_def same_env_def)
qed

lemma dispatch_ok:
  assumes "thread_inv tbl t w"
  shows "\<exists>t' w'. dispatch eng t w = Some (t', w') \<and> keeps tbl w w' \<and> thread_inv tbl t' w'"
  using handle_start_ok [OF assms] handle_close_ok [OF assms] assms keeps_refl [of tbl w]
  by (auto simp: dispatch_def thread_inv_def)

lemma iteration_ok:
  assumes "thread_inv tbl t w"
  shows "\<exists>t' w'. pango_iteration eng r t w = Some (t', w') \<and> keeps tbl w w' \<and> thread_inv tbl t' w'"
proof -
  have a: "world_ok tbl w" "\<not> locked w" using assms by (simp_all add: thread_inv_def)
  show ?thesis
  proof (cases "r = Received []")
    case True
    with assms a show ?thesis
      by (auto simp: pango_iteration_def wait_for_data_from_client_def mutex_lock_def mutex_unlock_def
          thread_inv_def keeps_def same_env_def)
  next
    case False
    define buff where "buff = (case r of Received bs \<Rightarrow> take 10 bs @ drop (length (take 10 bs)) (t_buff t) | _ \<Rightarrow> t_buff t)"
    let ?t = "t\<lparr>t_buff := buff\<rparr>"
    have len: "length (t_buff t) = 10" using assms by (simp add: thread_inv_def size_defs)
    have i: "thread_inv tbl ?t w" using assms by (auto simp: thread_inv_def buff_def size_defs split: recv_result.splits)
    have eq: "pango_iteration eng r t w = check_and_store ?t \<bind> (\<lambda>t. dispatch eng t w)"
      using False len by (auto simp: pango_iteration_def wait_for_data_from_client_def buff_def status_defs
          split: recv_result.splits list.splits)
    from check_and_store_ok [OF i] obtain t' where "check_and_store ?t = Some t'" "thread_inv tbl t' w" by blast
    with eq dispatch_ok show ?thesis by auto
  qed
qed

text \<open>The whole thread, by induction on the results of \<open>recv\<close>.\<close>

lemma loop_ok:
  assumes "thread_inv tbl t w"
  shows "\<exists>out. pango_loop eng rs t w = Some out \<and> outcome_ok tbl w out"
  using assms
proof (induction rs arbitrary: t w)
  case Nil
  then have "keeps tbl w w" using keeps_refl by (auto simp: thread_inv_def)
  then show ?case by (auto simp: outcome_ok_def intro!: exI [of _ w])
next
  case (Cons r rs)
  obtain t1 w1 where 1: "pango_iteration eng r t w = Some (t1, w1)" "keeps tbl w w1" "thread_inv tbl t1 w1"
    using iteration_ok [OF Cons.prems] by blast
  obtain t2 w2 where 2: "pango_exit eng t1 w1 = Some (t2, w2)" "keeps tbl w1 w2"
    using pango_exit_ok [OF 1(3)] by blast
  obtain out where 3: "pango_loop eng rs t1 w1 = Some out" "outcome_ok tbl w1 out"
    using Cons.IH [OF 1(3)] by blast
  show ?case
  proof (cases "t_return_value t1 = QUIT")
    case True
    have "keeps tbl w w2" using keeps_trans [OF 1(2) 2(2)] .
    then have "outcome_ok tbl w (Exited t2 (close_fd (client_fd (t_client t2)) w2))"
      by (auto simp: outcome_ok_def close_fd_def keeps_def same_env_def intro!: exI [of _ w2])
    with True 1(1) 2(1) show ?thesis by simp
  next
    case False
    have "closed_fds w1 = closed_fds w" using 1(2) by (simp add: keeps_def same_env_def)
    with 3(2) have "outcome_ok tbl w out" using keeps_trans [OF 1(2)] by (auto simp: outcome_ok_def)
    with False 1(1) 3(1) show ?thesis by simp
  qed
qed

end

end
