(* ===== verification/Server_Billing.thy ===== *)
theory Server_Billing
  imports Server_Safety
begin

text \<open>
  What a client thread is for, without buffers, machine words, statement texts or a mutex:
  the parking meter of one client. The specification \<open>meter_run\<close> works on the rows of the
  table, on integers of seconds and on the requests of a frame; the theorems show that a
  client thread whose databases are healthy and whose messages are delivered does exactly
  what the meter does.
\<close>

section \<open>The specification\<close>

datatype reply = Text string | Bill rat rat

record meter =
  m_rows :: "parked list"
  m_tick :: nat
  m_mac :: string
  m_city :: string
  m_start :: int
  m_price :: rat
  m_resumed :: bool
  m_stuck :: bool
  m_replies :: "reply list"

text \<open>
  One event of the connection: the peer closed it, a frame whose checksum is wrong, or a
  frame with its status, the text of its MAC address and its coordinates.
\<close>

datatype event = Lost | Corrupt | Request byte string byte byte

definition city_price :: "(string \<times> rat) list \<Rightarrow> string \<Rightarrow> rat \<Rightarrow> rat" where
  "city_price ps city old = (case filter (\<lambda>cp. fst cp = city) ps of [] \<Rightarrow> old | cp # _ \<Rightarrow> snd cp)"

definition meter_reply :: "reply \<Rightarrow> meter \<Rightarrow> meter" where
  "meter_reply r m = m\<lparr>m_replies := m_replies m @ [r]\<rparr>"

text \<open>A new client starts now with nothing used; a known one continues where it stopped.\<close>

definition meter_new :: "(string \<times> rat) list \<Rightarrow> (nat \<Rightarrow> int) \<Rightarrow> byte \<Rightarrow> byte \<Rightarrow> meter \<Rightarrow> meter" where
  "meter_new ps clk x y m =
     (let city = location_name x y in
      meter_reply (Text city)
        (m\<lparr>m_tick := m_tick m + 1, m_start := clk (m_tick m), m_city := city,
           m_price := city_price ps city (m_price m),
           m_rows := m_rows m @ [\<lparr>p_mac = m_mac m, p_time = 0, p_loc = city\<rparr>]\<rparr>))"

definition meter_resume :: "(string \<times> rat) list \<Rightarrow> (nat \<Rightarrow> int) \<Rightarrow> parked \<Rightarrow> meter \<Rightarrow> meter" where
  "meter_resume ps clk r m =
     meter_reply (Text (p_loc r))
       (m\<lparr>m_tick := m_tick m + 1, m_start := clk (m_tick m) - p_time r, m_city := p_loc r,
          m_price := city_price ps (p_loc r) (m_price m), m_resumed := True\<rparr>)"

definition meter_start :: "(string \<times> rat) list \<Rightarrow> (nat \<Rightarrow> int) \<Rightarrow> byte \<Rightarrow> byte \<Rightarrow> meter \<Rightarrow> meter" where
  "meter_start ps clk x y m =
     (if m_resumed m then m
      else case rows_of (m_mac m) (m_rows m) of
        [] \<Rightarrow> meter_new ps clk x y m
      | r # _ \<Rightarrow> meter_resume ps clk r m)"

text \<open>Saving the time used so far, and the bill.\<close>

definition meter_save :: "(nat \<Rightarrow> int) \<Rightarrow> meter \<Rightarrow> meter" where
  "meter_save clk m =
     m\<lparr>m_tick := m_tick m + 1, m_rows := set_time (clk (m_tick m) - m_start m) (m_mac m) (m_rows m)\<rparr>"

definition meter_close :: "(nat \<Rightarrow> int) \<Rightarrow> meter \<Rightarrow> meter" where
  "meter_close clk m =
     (let used = of_int (clk (m_tick m) - m_start m) in
      meter_reply (Bill (double_mult (m_price m) used) used)
        (m\<lparr>m_tick := m_tick m + 1, m_rows := filter (\<lambda>r. p_mac r \<noteq> m_mac m) (m_rows m)\<rparr>))"

text \<open>
  The meter after an event, and whether the thread ends with it. A frame whose status byte is
  255 (the value of \<open>CRC8_TEST_FAILED\<close>) makes the thread deaf to every later frame.
\<close>

definition meter_step ::
    "(string \<times> rat) list \<Rightarrow> (nat \<Rightarrow> int) \<Rightarrow> event \<Rightarrow> meter \<Rightarrow> meter \<times> bool" where
  "meter_step ps clk e m =
     (case e of
        Lost \<Rightarrow> (meter_save clk m, True)
      | Corrupt \<Rightarrow> (meter_reply (Text ''ERROR'') m, True)
      | Request st mac x y \<Rightarrow>
          (if m_stuck m then (m, False)
           else let m = m\<lparr>m_mac := mac, m_stuck := (st = CRC8_TEST_FAILED)\<rparr> in
             if st = START_APP then (meter_start ps clk x y m, False)
             else if st = CLOSE_APP then (meter_close clk m, True)
             else (m, False)))"

fun meter_run ::
    "(string \<times> rat) list \<Rightarrow> (nat \<Rightarrow> int) \<Rightarrow> event list \<Rightarrow> meter \<Rightarrow> meter \<times> bool" where
  "meter_run ps clk [] m = (m, False)"
| "meter_run ps clk (e # es) m =
     (case meter_step ps clk e m of (m, ended) \<Rightarrow>
        if ended then (m\<lparr>m_stuck := False\<rparr>, True) else meter_run ps clk es m)"

section \<open>The abstraction\<close>

fun view_msg :: "msg \<Rightarrow> reply" where
  "view_msg (Chars s) = Text (cstr s)"
| "view_msg (Doubles ds) = Bill (ds ! 0) (ds ! 1)"

definition meter_of :: "('db \<Rightarrow> parked list) \<Rightarrow> bool \<Rightarrow> bool \<Rightarrow> pango_data \<Rightarrow> 'db world \<Rightarrow> meter" where
  "meter_of tbl resumed stuck c w =
     \<lparr>m_rows = tbl (db_client w), m_tick = ticks w, m_mac = cstr (mac_address c),
      m_city = cstr (location c), m_start = sint (time_start_parking c), m_price = price c,
      m_resumed = resumed, m_stuck = stuck, m_replies = map (\<lambda>(_, m). view_msg m) (outbox w)\<rparr>"

definition thread_meter :: "('db \<Rightarrow> parked list) \<Rightarrow> thread \<Rightarrow> 'db world \<Rightarrow> meter" where
  "thread_meter tbl t w = meter_of tbl (t_checked t \<noteq> FALSE) (t_status t = CRC8_TEST_FAILED) (t_client t) w"

fun outcome_meter :: "('db \<Rightarrow> parked list) \<Rightarrow> (thread, 'db world) outcome \<Rightarrow> meter \<times> bool" where
  "outcome_meter tbl (Waiting t w) = (thread_meter tbl t w, False)"
| "outcome_meter tbl (Exited t w) = ((thread_meter tbl t w)\<lparr>m_stuck := False\<rparr>, True)"

definition event_of :: "byte list \<Rightarrow> event" where
  "event_of bs =
     (if bs = [] then Lost
      else if \<not> frame_ok bs then Corrupt
      else Request (bs ! 0) (mac_text (drop 1 (take 7 bs))) (bs ! 7) (bs ! 8))"

text \<open>Both databases can be read and written, every \<open>send\<close> succeeds, and the prices are \<open>ps\<close>.\<close>

definition fair_world ::
    "('db \<Rightarrow> bool) \<Rightarrow> ('db \<Rightarrow> (string \<times> rat) list) \<Rightarrow> (string \<times> rat) list \<Rightarrow> 'db world \<Rightarrow> bool" where
  "fair_world healthy prices ps w \<longleftrightarrow>
     healthy (db_client w) \<and> healthy (db_prices w) \<and> prices (db_prices w) = ps \<and>
     (\<forall>n. send_result w n \<noteq> - 1)"

lemma close_fd_meter [simp]:
  "fair_world healthy prices ps (w\<lparr>closed_fds := cs\<rparr>) = fair_world healthy prices ps w"
  "fair_world healthy prices ps (close_fd fd w) = fair_world healthy prices ps w"
  "thread_meter tbl t (close_fd fd w) = thread_meter tbl t w"
  by (simp_all add: fair_world_def thread_meter_def meter_of_def close_fd_def)

lemma fair_world_locked [simp]: "fair_world healthy prices ps (w\<lparr>locked := b\<rparr>) = fair_world healthy prices ps w"
  by (simp add: fair_world_def)

lemma meter_of_locked [simp]: "meter_of tbl b s c (w\<lparr>locked := l\<rparr>) = meter_of tbl b s c w"
  by (simp add: meter_of_def)

lemma send_msg_fair:
  assumes "fair_world healthy prices ps w"
  shows "send_msg fd m w = (send_result w (sends w), w\<lparr>sends := sends w + 1, outbox := outbox w @ [(fd, m)]\<rparr>)"
  using assms by (simp add: send_msg_def fair_world_def)

text \<open>Storing a frame.\<close>

lemma check_and_store_meter:
  assumes "thread_inv tbl t w" and "frame_ok (t_buff t)"
  shows "if t_status t = CRC8_TEST_FAILED then check_and_store t = Some t
    else \<exists>m. check_and_store t = Some (t\<lparr>t_status := t_buff t ! 0,
        t_client := (t_client t)\<lparr>mac_address := m, x_axis := t_buff t ! 7, y_axis := t_buff t ! 8\<rparr>\<rparr>) \<and>
      cstr m = mac_text (drop 1 (take 7 (t_buff t)))"
proof -
  have len: "length (t_buff t) = 10" "length (mac_address (t_client t)) = MAC_ADDRESS_SIZE"
    using assms by (simp_all add: thread_inv_def size_defs client_inv_def client_ok_def)
  note chk = CRC_8_check_iff [OF len(1)]
  show ?thesis
  proof (cases "t_status t = CRC8_TEST_FAILED")
    case True
    with assms(2) chk show ?thesis by (simp add: check_and_store_def store_client_data_in_struct_def)
  next
    case False
    with store_client_data_ok [OF len False] assms(2) chk show ?thesis
      by (auto simp: check_and_store_def)
  qed
qed

text \<open>
  The seconds and the city a returning vehicle continues with: those of its row, or, when the
  row has gone since the lookup, the start and the city of the record.
\<close>

definition used_before :: "parked list \<Rightarrow> int \<Rightarrow> int" where
  "used_before rows old = (case rows of [] \<Rightarrow> old | r # _ \<Rightarrow> p_time r)"

definition city_before :: "parked list \<Rightarrow> string \<Rightarrow> string" where
  "city_before rows old = (case rows of [] \<Rightarrow> old | r # _ \<Rightarrow> p_loc r)"

lemma set_time_filter: "filter (\<lambda>r. p_mac r \<noteq> mac) (set_time n mac rs) = filter (\<lambda>r. p_mac r \<noteq> mac) rs"
  by (induction rs) (auto simp: set_time_def)

section \<open>The operations on healthy databases\<close>

context sqlite_contract
begin

lemma lookup_eq:
  assumes "client_inv w c" and "healthy (db_client w)"
  shows "clinet_exist_in_database_check eng (mac_address c) chk w =
    Some (if rows_of (cstr (mac_address c)) (tbl (db_client w)) \<noteq> [] \<and> chk = 0 then TRUE else FALSE, w)"
proof -
  let ?mac = "cstr (mac_address c)"
  note str = client_inv_strings [OF assms(1)]
  obtain rc st where p: "sq_prepare eng (db_client w) (select_client_sql ?mac) = (rc, st)" by fastforce
  moreover have "rc = SQLITE_OK" using prepare_healthy [OF p] assms(2) str(5) by (auto simp: server_query_def)
  moreover obtain rc2 row where s: "sq_step eng (db_client w) st = (rc2, row)" by fastforce
  ultimately have "rc2 = SQLITE_ROW \<longleftrightarrow> rows_of ?mac (tbl (db_client w)) \<noteq> []"
    using select_client [OF _ str(5)] assms(2) by blast
  with p s str show ?thesis
    by (simp add: clinet_exist_in_database_check_def clinet_exist_in_database_check_preparation_def
        prepare_client_def sprintf_local_def sql_lengths)
qed

lemma price_eq:
  assumes "client_inv w c" and "healthy (db_prices w)"
  shows "retrieve_parking_price_per_city_from_database eng c w =
    Some (STAY, c\<lparr>price := city_price (prices (db_prices w)) (cstr (location c)) (price c)\<rparr>, w)"
proof -
  let ?city = "cstr (location c)"
  note str = client_inv_strings [OF assms(1)]
  obtain rc st where p: "sq_prepare eng (db_prices w) (select_price_sql ?city) = (rc, st)" by fastforce
  moreover have rc: "rc = SQLITE_OK" using prepare_healthy [OF p] assms(2) str(6) by (auto simp: server_query_def)
  moreover obtain rc2 row where s: "sq_step eng (db_prices w) st = (rc2, row)" by fastforce
  ultimately have "(if rc2 = SQLITE_ROW then c\<lparr>price := sq_column_double eng row 1\<rparr> else c) =
      c\<lparr>price := city_price (prices (db_prices w)) ?city (price c)\<rparr>"
    using select_price [OF _ str(6), of "db_prices w" st rc2 row] assms(2)
    by (auto simp: city_price_def split: list.splits)
  with p rc s str show ?thesis
    by (simp add: retrieve_parking_price_per_city_from_database_def prepare_prices_def sprintf_local_def
        sql_lengths)
qed

lemma insert_eq:
  assumes "client_inv w c" and "healthy (db_client w)"
  shows "\<exists>db'. insert_client_data_into_database eng c w = Some (STAY, w\<lparr>db_client := db'\<rparr>) \<and> healthy db' \<and>
    tbl db' = tbl (db_client w) @ [\<lparr>p_mac = cstr (mac_address c), p_time = 0, p_loc = cstr (location c)\<rparr>]"
proof -
  let ?sql = "insert_client_sql (cstr (mac_address c)) 0 (cstr (location c))"
  note str = client_inv_strings [OF assms(1)]
  obtain rc db' where x: "sq_exec eng (db_client w) ?sql = (rc, db')" by fastforce
  have "server_command ?sql" using str(5,6) by (auto simp: server_command_def)
  then have "rc = SQLITE_OK" "healthy db'" using exec_healthy [OF x] assms(2) by auto
  moreover have "length (fmt_d 0) \<le> 11" by (rule length_fmt_d) simp_all
  ultimately show ?thesis using x str exec_insert [OF _ str(5,6)]
    by (auto simp: insert_client_data_into_database_def sprintf_local_def sql_lengths exec_client_def)
qed

lemma update_eq:
  assumes "client_inv w c" and "world_ok tbl w" and "healthy (db_client w)"
  shows "\<exists>db'. update_client_data eng c w =
      Some (0, word_of_int (clock w (ticks w)), w\<lparr>ticks := ticks w + 1, db_client := db'\<rparr>) \<and> healthy db' \<and>
    tbl db' = set_time (clock w (ticks w) - sint (time_start_parking c)) (cstr (mac_address c)) (tbl (db_client w))"
proof -
  let ?now = "clock w (ticks w)" and ?s = "time_start_parking c"
  let ?sql = "update_time_sql (?now - sint ?s) (cstr (mac_address c))"
  note str = client_inv_strings [OF assms(1)]
  have r: "0 \<le> sint ?s" "sint ?s \<le> ?now" "?now < 2 ^ 31" "sint (word_of_int ?now :: int32) = ?now"
    using assms(1,2) clock_range [of w] by (auto simp: client_inv_def world_ok_def)
  then have "int_sub (word_of_int ?now) ?s = Some (word_of_int ?now - ?s)" by (intro int_sub_nonneg) simp_all
  then have d: "sint (word_of_int ?now - ?s) = ?now - sint ?s" using int_sub_Some r(4) by fastforce
  obtain rc db' where x: "sq_exec eng (db_client w) ?sql = (rc, db')" by fastforce
  have "server_command ?sql" using str(5) by (auto simp: server_command_def plain_def)
  then have "rc = SQLITE_OK" "healthy db'" using exec_healthy [OF x] assms(3) by auto
  moreover have "length (fmt_d (?now - sint ?s)) \<le> 11" using r by (intro length_fmt_d) simp_all
  ultimately show ?thesis using x str exec_update [OF _ str(5)] d
    by (auto simp: update_client_data_def gettimeofday_def sprintf_local_def sql_lengths exec_client_def)
qed

lemma remove_eq:
  assumes "client_inv w c" and "healthy (db_client w)"
  shows "\<exists>db'. remove_client_data eng (mac_address c) w = Some (w\<lparr>db_client := db'\<rparr>) \<and> healthy db' \<and>
    tbl db' = filter (\<lambda>r. p_mac r \<noteq> cstr (mac_address c)) (tbl (db_client w))"
proof -
  let ?sql = "delete_client_sql (cstr (mac_address c))"
  note str = client_inv_strings [OF assms(1)]
  obtain rc db' where x: "sq_exec eng (db_client w) ?sql = (rc, db')" by fastforce
  have "server_command ?sql" using str(5) by (auto simp: server_command_def plain_def)
  then have "rc = SQLITE_OK" "healthy db'" using exec_healthy [OF x] assms(2) by auto
  then show ?thesis using x str exec_delete [OF _ str(5)]
    by (auto simp: remove_client_data_def sprintf_local_def sql_lengths exec_client_def)
qed

section \<open>The handlers meet the specification\<close>

lemma start_time_eq:
  assumes "client_inv w c"
  shows "\<exists>l. initialize_and_get_start_time c w = Some
      (c\<lparr>time_start_parking := word_of_int (clock w (ticks w)), location := l\<rparr>, w\<lparr>ticks := ticks w + 1\<rparr>) \<and>
    cstr l = location_name (x_axis c) (y_axis c)"
proof -
  obtain l where "location_func (x_axis c) (y_axis c) (location c) = Some l" "cstr l = location_name (x_axis c) (y_axis c)"
    using location_func_ok client_inv_strings(7) [OF assms(1)] by blast
  then show ?thesis by (intro exI [of _ l]) (simp add: initialize_and_get_start_time_def gettimeofday_def)
qed

lemma insert_new_eq:
  assumes "client_inv w c" and "\<not> locked w" and "fair_world healthy prices ps w"
  shows "\<exists>db'. insert_new_client eng c st w =
      Some (STAY, c\<lparr>price := city_price ps (cstr (location c)) (price c)\<rparr>, st, w\<lparr>db_client := db', locked := False\<rparr>) \<and>
    healthy db' \<and> tbl db' = tbl (db_client w) @ [\<lparr>p_mac = cstr (mac_address c), p_time = 0, p_loc = cstr (location c)\<rparr>]"
proof -
  let ?l = "w\<lparr>locked := True\<rparr>" and ?c = "c\<lparr>price := city_price ps (cstr (location c)) (price c)\<rparr>"
  have f: "healthy (db_client ?l)" "healthy (db_prices ?l)" "prices (db_prices ?l) = ps"
    using assms(3) by (simp_all add: fair_world_def)
  have 1: "retrieve_parking_price_per_city_from_database eng c ?l = Some (STAY, ?c, ?l)"
    using price_eq [of ?l c] assms(1) f by simp
  obtain db' where 2: "insert_client_data_into_database eng ?c ?l = Some (STAY, ?l\<lparr>db_client := db'\<rparr>)"
    "healthy db'" "tbl db' = tbl (db_client ?l) @ [\<lparr>p_mac = cstr (mac_address ?c), p_time = 0, p_loc = cstr (location ?c)\<rparr>]"
    using insert_eq [of ?l ?c] assms(1) f by auto
  with 1 assms(2) show ?thesis
    by (intro exI [of _ db']) (simp add: insert_new_client_def mutex_lock_def mutex_unlock_def flag_defs)
qed

lemma announce_eq:
  "fair_world healthy prices ps w \<Longrightarrow>
   snd (send_client_location c w) = w\<lparr>sends := sends w + 1, outbox := outbox w @ [(client_fd c, Chars (location c))]\<rparr>"
  by (simp add: send_client_location_def send_msg_fair)

lemma process_eq:
  assumes "client_inv w c" and "world_ok tbl w" and "\<not> locked w" and "fair_world healthy prices ps w"
  shows "\<exists>l db'. process_client_data eng c st w = Some (STAY,
      c\<lparr>time_start_parking := word_of_int (clock w (ticks w)), location := l,
        price := city_price ps (cstr l) (price c)\<rparr>, st,
      w\<lparr>ticks := ticks w + 1, db_client := db', locked := False, sends := sends w + 1,
        outbox := outbox w @ [(client_fd c, Chars l)]\<rparr>) \<and>
    cstr l = location_name (x_axis c) (y_axis c) \<and> healthy db' \<and>
    tbl db' = tbl (db_client w) @ [\<lparr>p_mac = cstr (mac_address c), p_time = 0, p_loc = cstr l\<rparr>]"
proof -
  let ?w1 = "w\<lparr>ticks := ticks w + 1\<rparr>"
  obtain l where 1: "initialize_and_get_start_time c w =
      Some (c\<lparr>time_start_parking := word_of_int (clock w (ticks w)), location := l\<rparr>, ?w1)"
    "cstr l = location_name (x_axis c) (y_axis c)" using start_time_eq [OF assms(1)] by blast
  let ?c1 = "c\<lparr>time_start_parking := word_of_int (clock w (ticks w)), location := l\<rparr>"
  have i1: "client_inv ?w1 ?c1" using start_time_ok [OF assms(1,2)] unfolding 1(1) by auto
  have f1: "\<not> locked ?w1" "fair_world healthy prices ps ?w1" using assms(3,4) by (simp_all add: fair_world_def)
  obtain db' where 2: "insert_new_client eng ?c1 st ?w1 =
      Some (STAY, ?c1\<lparr>price := city_price ps (cstr l) (price c)\<rparr>, st, ?w1\<lparr>db_client := db', locked := False\<rparr>)"
    "healthy db'" "tbl db' = tbl (db_client w) @ [\<lparr>p_mac = cstr (mac_address c), p_time = 0, p_loc = cstr l\<rparr>]"
    using insert_new_eq [OF i1 f1, of st] by auto
  have "fair_world healthy prices ps (?w1\<lparr>db_client := db', locked := False\<rparr>)"
    using assms(4) 2(2) by (simp add: fair_world_def)
  from announce_eq [OF this] 1 2 show ?thesis
    by (intro exI [of _ l] exI [of _ db']) (simp add: process_client_data_def flag_defs case_prod_beta)
qed

lemma process_meter:
  assumes "client_inv w c" and "world_ok tbl w" and "\<not> locked w" and "fair_world healthy prices ps w"
  shows "\<exists>c' w'. process_client_data eng c st w = Some (STAY, c', st, w') \<and>
    meter_of tbl b s c' w' = meter_new ps (clock w) (x_axis c) (y_axis c) (meter_of tbl b s c w) \<and>
    fair_world healthy prices ps w'"
proof -
  have now: "sint (word_of_int (clock w (ticks w)) :: int32) = clock w (ticks w)"
    using clock_range(3) assms(2) by (auto simp: world_ok_def)
  from process_eq [OF assms] obtain l db' where "process_client_data eng c st w = Some (STAY,
      c\<lparr>time_start_parking := word_of_int (clock w (ticks w)), location := l,
        price := city_price ps (cstr l) (price c)\<rparr>, st,
      w\<lparr>ticks := ticks w + 1, db_client := db', locked := False, sends := sends w + 1,
        outbox := outbox w @ [(client_fd c, Chars l)]\<rparr>)"
    "cstr l = location_name (x_axis c) (y_axis c)" "healthy db'"
    "tbl db' = tbl (db_client w) @ [\<lparr>p_mac = cstr (mac_address c), p_time = 0, p_loc = cstr l\<rparr>]" by blast
  with assms(4) now show ?thesis
    by (simp add: meter_of_def meter_new_def meter_reply_def fair_world_def Let_def)
qed

lemma continue_eq:
  assumes "client_inv w c" and "world_ok tbl w" and "healthy (db_client w)"
  shows "\<exists>l. update_client_and_continue_time eng c w =
      Some (STAY, c\<lparr>time_start_parking := word_of_int (clock w (ticks w) - sint (time_start_parking c)),
          connected := TRUE, location := l\<rparr>, w\<lparr>ticks := ticks w + 1\<rparr>) \<and>
    cstr l = city_before (rows_of (cstr (mac_address c)) (tbl (db_client w))) (cstr (location c))"
proof -
  let ?mac = "cstr (mac_address c)" and ?w = "w\<lparr>ticks := ticks w + 1\<rparr>"
  let ?rows = "rows_of ?mac (tbl (db_client w))"
  note str = client_inv_strings [OF assms(1)]
  obtain rc st where p: "sq_prepare eng (db_client w) (select_location_sql ?mac) = (rc, st)" by fastforce
  moreover have rc: "rc = SQLITE_OK" using prepare_healthy [OF p] assms(3) str(5) by (auto simp: server_query_def)
  moreover obtain rc2 row where s: "sq_step eng (db_client w) st = (rc2, row)" by fastforce
  ultimately have row: "if ?rows = [] then rc2 \<noteq> SQLITE_ROW
      else rc2 = SQLITE_ROW \<and> sq_column_text eng row 0 = Some (p_loc (hd ?rows))"
    using select_location [of "db_client w" ?mac st rc2 row] assms(3) str(5) by auto
  show ?thesis
  proof (cases ?rows)
    case Nil
    with p rc s row str step_code [OF s] show ?thesis
      by (intro exI [of _ "location c"])
         (simp add: update_client_and_continue_time_def gettimeofday_def prepare_client_def sprintf_local_def
           sql_lengths city_before_def)
  next
    case (Cons r rs)
    then have "r \<in> set ?rows" by simp
    then have l: "length (p_loc r) < LOCATION_SIZE" "plain (p_loc r)"
      using assms(2) by (auto simp: world_ok_def rows_ok_def)
    then obtain loc where loc: "c_write (location c) 0 (p_loc r) = Some loc"
      using c_write_Some [of 0 "p_loc r" "location c"] str(7) by auto
    have "cstr loc = p_loc r" using cstr_c_write [OF loc] l(2) by (simp add: plain_def)
    with p rc s row loc str Cons show ?thesis
      by (intro exI [of _ loc]) (simp add: update_client_and_continue_time_def gettimeofday_def prepare_client_def
          sprintf_local_def sql_lengths city_before_def)
  qed
qed

lemma retrieve_time_eq:
  assumes "client_inv w c" and "world_ok tbl w" and "healthy (db_client w)"
  shows "retrieve_time_start_parking_value_from_database eng c w =
    Some (STAY, c\<lparr>time_start_parking := word_of_int
      (used_before (rows_of (cstr (mac_address c)) (tbl (db_client w))) (sint (time_start_parking c)))\<rparr>, w)"
proof -
  let ?mac = "cstr (mac_address c)"
  let ?rows = "rows_of ?mac (tbl (db_client w))"
  note str = client_inv_strings [OF assms(1)]
  obtain rc st where p: "sq_prepare eng (db_client w) (select_time_sql ?mac) = (rc, st)" by fastforce
  moreover have rc: "rc = SQLITE_OK" using prepare_healthy [OF p] assms(3) str(5) by (auto simp: server_query_def)
  moreover obtain rc2 row where s: "sq_step eng (db_client w) st = (rc2, row)" by fastforce
  ultimately have "if ?rows = [] then rc2 \<noteq> SQLITE_ROW
      else rc2 = SQLITE_ROW \<and> sq_column_int eng row 0 = word_of_int (p_time (hd ?rows))"
    using select_time [of "db_client w" ?mac st rc2 row] assms(3) str(5) by auto
  with p rc s str step_code [OF s] show ?thesis
    by (cases ?rows) (simp_all add: retrieve_time_start_parking_value_from_database_def prepare_client_def
        sprintf_local_def sql_lengths size_defs used_before_def)
qed

lemma used_before_range:
  assumes "client_inv w c" and "world_ok tbl w"
  defines "used \<equiv> used_before (rows_of (cstr (mac_address c)) (tbl (db_client w))) (sint (time_start_parking c))"
  shows "0 \<le> used" and "used \<le> clock w (ticks w)" and "sint (word_of_int used :: int32) = used"
    and "sint (word_of_int (clock w (ticks w) - used) :: int32) = clock w (ticks w) - used"
proof -
  let ?rows = "rows_of (cstr (mac_address c)) (tbl (db_client w))"
  have "\<forall>r\<in>set ?rows. 0 \<le> p_time r \<and> p_time r \<le> clock w (ticks w)"
    using assms(2) by (auto simp: world_ok_def rows_ok_def)
  then show r: "0 \<le> used" "used \<le> clock w (ticks w)"
    using assms(1) by (cases ?rows; auto simp: used_def used_before_def client_inv_def)+
  have "clock w (ticks w) < 2 ^ 31" using assms(2) clock_range(2) by (auto simp: world_ok_def)
  with r show "sint (word_of_int used :: int32) = used"
    "sint (word_of_int (clock w (ticks w) - used) :: int32) = clock w (ticks w) - used"
    by (intro sint_int32_of_int; simp)+
qed

lemma retriev_eq:
  assumes "client_inv w c" and "world_ok tbl w" and "\<not> locked w" and "fair_world healthy prices ps w"
  defines "rows \<equiv> rows_of (cstr (mac_address c)) (tbl (db_client w))"
  shows "\<exists>l. retriev_client_data eng c st w = Some (STAY,
      c\<lparr>time_start_parking := word_of_int (clock w (ticks w) - used_before rows (sint (time_start_parking c))),
        connected := TRUE, location := l, price := city_price ps (cstr l) (price c)\<rparr>, st,
      w\<lparr>ticks := ticks w + 1, locked := False, sends := sends w + 1, outbox := outbox w @ [(client_fd c, Chars l)]\<rparr>) \<and>
    cstr l = city_before rows (cstr (location c))"
proof -
  let ?l = "w\<lparr>locked := True\<rparr>" and ?now = "clock w (ticks w)"
  let ?used = "used_before rows (sint (time_start_parking c))"
  let ?w1 = "?l\<lparr>ticks := ticks w + 1\<rparr>" and ?c1 = "c\<lparr>time_start_parking := word_of_int ?used\<rparr>"
  have f: "healthy (db_client ?l)" "healthy (db_prices ?w1)" "prices (db_prices ?w1) = ps" and fl: "fair_world healthy prices ps ?w1"
    using assms(4) by (simp_all add: fair_world_def)
  have l: "client_inv ?l c" "world_ok tbl ?l" using assms(1,2) by simp_all
  have 1: "retrieve_time_start_parking_value_from_database eng c ?l = Some (STAY, ?c1, ?l)"
    using retrieve_time_eq [OF l f(1)] by (simp add: rows_def)
  then have i1: "client_inv ?l ?c1" using retrieve_time_ok [OF l] by auto
  note t = used_before_range(3) [OF assms(1,2), folded rows_def]
  obtain loc where 2: "update_client_and_continue_time eng ?c1 ?l = Some (STAY,
      ?c1\<lparr>time_start_parking := word_of_int (?now - ?used), connected := TRUE, location := loc\<rparr>, ?w1)"
    and loc: "cstr loc = city_before rows (cstr (location c))"
    using continue_eq [OF i1 l(2) f(1)] t by (auto simp: rows_def)
  let ?c2 = "?c1\<lparr>time_start_parking := word_of_int (?now - ?used), connected := TRUE, location := loc\<rparr>"
  have i2: "client_inv ?w1 ?c2" using continue_time_ok [OF i1 l(2)] unfolding 2 by auto
  have "retrieve_parking_price_per_city_from_database eng ?c2 ?w1 =
      Some (STAY, ?c2\<lparr>price := city_price ps (cstr loc) (price c)\<rparr>, ?w1)"
    using price_eq [OF i2] f by simp
  with 1 2 assms(3) loc send_msg_fair [OF fl] show ?thesis
    by (intro exI [of _ loc])
       (simp add: retriev_client_data_def mutex_lock_def mutex_unlock_def send_client_location_def flag_defs)
qed

lemma retriev_meter:
  assumes "client_inv w c" and "world_ok tbl w" and "\<not> locked w" and "fair_world healthy prices ps w"
    and rows: "rows_of (cstr (mac_address c)) (tbl (db_client w)) = r # rs"
  shows "\<exists>c' w'. retriev_client_data eng c st w = Some (STAY, c', st, w') \<and>
    meter_of tbl True s c' w' = meter_resume ps (clock w) r (meter_of tbl b s c w) \<and>
    fair_world healthy prices ps w'"
proof -
  note t = used_before_range(4) [OF assms(1,2)]
  from retriev_eq [OF assms(1-4), of st] obtain l where "retriev_client_data eng c st w = Some (STAY,
      c\<lparr>time_start_parking := word_of_int (clock w (ticks w) - p_time r),
        connected := TRUE, location := l, price := city_price ps (cstr l) (price c)\<rparr>, st,
      w\<lparr>ticks := ticks w + 1, locked := False, sends := sends w + 1, outbox := outbox w @ [(client_fd c, Chars l)]\<rparr>)"
    "cstr l = p_loc r" unfolding rows by (auto simp: used_before_def city_before_def)
  with assms(4) t rows show ?thesis
    by (auto simp: meter_of_def meter_resume_def meter_reply_def fair_world_def used_before_def)
qed

lemma handle_start_meter:
  assumes "thread_inv tbl t w" and "fair_world healthy prices ps w" and "t_status t = START_APP"
  shows "\<exists>t' w'. handle_start_app eng t w = Some (t', w') \<and>
    thread_meter tbl t' w' = meter_start ps (clock w) (x_axis (t_client t)) (y_axis (t_client t)) (thread_meter tbl t w) \<and>
    fair_world healthy prices ps w' \<and> t_return_value t' \<in> {STAY, t_return_value t}"
proof -
  let ?c = "t_client t" and ?mac = "cstr (mac_address (t_client t))"
  have a: "world_ok tbl w" "client_inv w ?c" "\<not> locked w" "healthy (db_client w)"
    using assms(1,2) by (simp_all add: thread_inv_def fair_world_def)
  note look = lookup_eq [OF a(2,4), of "t_checked t"]
  consider (checked) "t_checked t \<noteq> 0"
    | (known) r rs where "t_checked t = 0" "rows_of ?mac (tbl (db_client w)) = r # rs"
    | (fresh) "t_checked t = 0" "rows_of ?mac (tbl (db_client w)) = []"
    by (cases "rows_of ?mac (tbl (db_client w))") auto
  then show ?thesis
  proof cases
    case checked
    with look assms(2) show ?thesis
      by (simp add: handle_start_app_def new_client_def flag_defs thread_meter_def meter_of_def meter_start_def)
  next
    case known
    obtain c' w' where r: "retriev_client_data eng ?c (t_status t) w = Some (STAY, c', t_status t, w')"
      "meter_of tbl True (t_status t = CRC8_TEST_FAILED) c' w' =
        meter_resume ps (clock w) r (meter_of tbl False (t_status t = CRC8_TEST_FAILED) ?c w)"
      "fair_world healthy prices ps w'"
      using retriev_meter [OF a(2,1,3) assms(2) known(2)] by blast
    have "handle_start_app eng t w = Some (t\<lparr>t_client := c', t_return_value := STAY, t_checked := TRUE\<rparr>, w')"
      using look known r(1) by (simp add: handle_start_app_def new_client_def flag_defs)
    with r known show ?thesis
      by (simp add: thread_meter_def meter_start_def meter_of_def flag_defs)
  next
    case fresh
    obtain c' w' where r: "process_client_data eng ?c (t_status t) w = Some (STAY, c', t_status t, w')"
      "meter_of tbl False (t_status t = CRC8_TEST_FAILED) c' w' =
        meter_new ps (clock w) (x_axis ?c) (y_axis ?c) (meter_of tbl False (t_status t = CRC8_TEST_FAILED) ?c w)"
      "fair_world healthy prices ps w'"
      using process_meter [OF a(2,1,3) assms(2)] by blast
    have "handle_start_app eng t w = Some (t\<lparr>t_client := c'\<lparr>connected := TRUE\<rparr>, t_return_value := STAY\<rparr>, w')"
      using look fresh r(1) by (simp add: handle_start_app_def new_client_def flag_defs)
    with r fresh show ?thesis
      by (simp add: thread_meter_def meter_start_def meter_of_def flag_defs)
  qed
qed

text \<open>Closing: the handler saves the time, the exit sends the bill and removes the row.\<close>

lemma close_eq:
  assumes "thread_inv tbl t w" and "healthy (db_client w)"
  shows "\<exists>db'. handle_close_app eng t w = Some
      (t\<lparr>t_client := (t_client t)\<lparr>connected := FALSE\<rparr>, t_end_time := word_of_int (clock w (ticks w)), t_return_value := QUIT\<rparr>,
       w\<lparr>ticks := ticks w + 1, db_client := db', locked := False\<rparr>) \<and>
    healthy db' \<and> tbl db' = set_time (clock w (ticks w) - sint (time_start_parking (t_client t)))
      (cstr (mac_address (t_client t))) (tbl (db_client w))"
proof -
  let ?c = "t_client t" and ?l = "w\<lparr>locked := True\<rparr>" and ?now = "clock w (ticks w)"
  have a: "world_ok tbl ?l" "client_inv ?l ?c" "\<not> locked w" "healthy (db_client ?l)"
    using assms by (simp_all add: thread_inv_def)
  obtain db' where "update_client_data eng ?c ?l = Some (0, word_of_int ?now, ?l\<lparr>ticks := ticks w + 1, db_client := db'\<rparr>)"
    "healthy db'" "tbl db' = set_time (?now - sint (time_start_parking ?c)) (cstr (mac_address ?c)) (tbl (db_client w))"
    using update_eq [OF a(2,1,4)] by auto
  with a(3) show ?thesis
    by (intro exI [of _ db']) (simp add: handle_close_app_def mutex_lock_def mutex_unlock_def ERROR_def)
qed

text \<open>The bill: exactly the seconds between the two times, as a double.\<close>

lemma payment_eq:
  assumes "client_inv w c" and "fair_world healthy prices ps w" and "0 \<le> sint e"
  shows "calculate_and_send_payment_data (time_start_parking c) e (price c) (client_fd c) w =
    Some (w\<lparr>sends := sends w + 1, outbox := outbox w @ [(client_fd c,
      Doubles [double_mult (price c) (of_int (sint e - sint (time_start_parking c))),
               of_int (sint e - sint (time_start_parking c))])]\<rparr>)"
proof -
  define d where "d = e - time_start_parking c"
  have sub: "int_sub e (time_start_parking c) = Some d"
    using assms(1,3) int_sub_nonneg [of e "time_start_parking c"] by (simp add: d_def client_inv_def)
  have "double_of_int d = of_int (sint e - sint (time_start_parking c))"
    using int_sub_Some [OF sub] by (simp add: double_of_int_exact)
  with sub send_msg_fair [OF assms(2)] show ?thesis by (simp add: calculate_and_send_payment_data_def)
qed

lemma close_meter:
  assumes "thread_inv tbl t w" and "fair_world healthy prices ps w" and "t_status t = CLOSE_APP"
  shows "\<exists>t1 w1 t' w'. handle_close_app eng t w = Some (t1, w1) \<and> t_return_value t1 = QUIT \<and>
    pango_exit eng t1 w1 = Some (t', w') \<and>
    thread_meter tbl t' w' = meter_close (clock w) (thread_meter tbl t w) \<and> fair_world healthy prices ps w'"
proof -
  let ?c = "t_client t" and ?now = "clock w (ticks w)"
  let ?d = "?now - sint (time_start_parking ?c)"
  obtain db1 where c: "handle_close_app eng t w = Some
      (t\<lparr>t_client := ?c\<lparr>connected := FALSE\<rparr>, t_end_time := word_of_int ?now, t_return_value := QUIT\<rparr>,
       w\<lparr>ticks := ticks w + 1, db_client := db1, locked := False\<rparr>)"
    "healthy db1" "tbl db1 = set_time ?d (cstr (mac_address ?c)) (tbl (db_client w))"
    using close_eq [OF assms(1)] assms(2) by (auto simp: fair_world_def)
  define t1 where "t1 = t\<lparr>t_client := ?c\<lparr>connected := FALSE\<rparr>, t_end_time := word_of_int ?now, t_return_value := QUIT\<rparr>"
  define w1 where "w1 = w\<lparr>ticks := ticks w + 1, db_client := db1, locked := False\<rparr>"
  have h: "handle_close_app eng t w = Some (t1, w1)" using c(1) by (simp add: t1_def w1_def)
  have i1: "client_inv w1 (t_client t1)" "\<not> locked w1" "0 \<le> sint (t_end_time t1)"
    using handle_close_ok [OF assms(1)] h by (auto simp: thread_inv_def)
  have f1: "fair_world healthy prices ps w1" using assms(2) c(2) by (simp add: fair_world_def w1_def)
  have now: "sint (word_of_int ?now :: int32) = ?now"
    using assms(1) clock_range(3) by (auto simp: thread_inv_def world_ok_def)
  define w2 where "w2 = w1\<lparr>sends := sends w1 + 1,
    outbox := outbox w1 @ [(client_fd ?c, Doubles [double_mult (price ?c) (of_int ?d), of_int ?d])]\<rparr>"
  have pay: "calculate_and_send_payment_data (time_start_parking ?c) (word_of_int ?now) (price ?c) (client_fd ?c) w1 = Some w2"
    using payment_eq [OF i1(1) f1 i1(3)] now by (simp add: w2_def t1_def)
  have i2: "client_inv (w2\<lparr>locked := True\<rparr>) ?c" "healthy (db_client (w2\<lparr>locked := True\<rparr>))"
    using i1 f1 by (simp_all add: client_inv_def client_ok_def w2_def t1_def fair_world_def)
  obtain db3 where rm: "remove_client_data eng (mac_address ?c) (w2\<lparr>locked := True\<rparr>) = Some (w2\<lparr>locked := True, db_client := db3\<rparr>)"
    "healthy db3" "tbl db3 = filter (\<lambda>r. p_mac r \<noteq> cstr (mac_address ?c)) (tbl db1)"
    using remove_eq [OF i2] by (auto simp: w2_def w1_def)
  define w3 where "w3 = w2\<lparr>locked := False, db_client := db3\<rparr>"
  have e: "pango_exit eng t1 w1 = Some (t1, w3)"
    using pay rm(1) i1(2) assms(3)
    by (simp add: pango_exit_def t1_def mutex_lock_def mutex_unlock_def w3_def w2_def)
  have "thread_meter tbl t1 w3 = meter_close (clock w) (thread_meter tbl t w)"
    using rm(3) c(3)
    by (simp add: thread_meter_def meter_of_def meter_close_def meter_reply_def w3_def w2_def w1_def t1_def
        set_time_filter Let_def)
  moreover have "fair_world healthy prices ps w3"
    using f1 rm(2) by (simp add: fair_world_def w3_def w2_def)
  moreover have "t_return_value t1 = QUIT" by (simp add: t1_def)
  ultimately show ?thesis using h e by blast
qed

lemma lost_meter:
  assumes "thread_inv tbl t w" and "fair_world healthy prices ps w" and "t_status t = CONNECTION_LOST"
  shows "\<exists>t' w'. pango_exit eng t w = Some (t', w') \<and> fair_world healthy prices ps w' \<and>
    thread_meter tbl t' w' = meter_save (clock w) (thread_meter tbl t w)"
proof -
  let ?c = "t_client t" and ?l = "w\<lparr>locked := True\<rparr>" and ?now = "clock w (ticks w)"
  have a: "world_ok tbl ?l" "client_inv ?l ?c" "\<not> locked w" "healthy (db_client ?l)"
    using assms(1,2) by (simp_all add: thread_inv_def fair_world_def)
  obtain db1 where u: "update_client_data eng ?c ?l = Some (0, word_of_int ?now, ?l\<lparr>ticks := ticks w + 1, db_client := db1\<rparr>)"
    "healthy db1" "tbl db1 = set_time (?now - sint (time_start_parking ?c)) (cstr (mac_address ?c)) (tbl (db_client w))"
    using update_eq [OF a(2,1,4)] by auto
  with a(3) assms(2,3) show ?thesis
    by (simp add: pango_exit_def mutex_lock_def mutex_unlock_def status_defs thread_meter_def meter_of_def
        meter_save_def fair_world_def)
qed

lemma corrupt_meter:
  assumes "fair_world healthy prices ps w" and "t_status t = CRC8_TEST_FAILED"
  shows "\<exists>t' w'. pango_exit eng t w = Some (t', w') \<and> fair_world healthy prices ps w' \<and>
    thread_meter tbl t' w' = meter_reply (Text ''ERROR'') (thread_meter tbl t w)"
  using assms send_msg_fair [OF assms(1)]
  by (simp add: pango_exit_def err_msg_def status_defs thread_meter_def meter_of_def meter_reply_def
      fair_world_def cstr_def Let_def)

lemma request_meter:
  assumes "thread_inv tbl t w" and "fair_world healthy prices ps w" and "t_return_value t = STAY"
    and "frame_ok (t_buff t)"
  shows "\<exists>t1 w1. check_and_store t \<bind> (\<lambda>t. dispatch eng t w) = Some (t1, w1) \<and>
    (case meter_step ps (clock w) (event_of (t_buff t)) (thread_meter tbl t w) of (m, ended) \<Rightarrow>
      if ended then t_return_value t1 = QUIT \<and> (\<exists>t2 w2. pango_exit eng t1 w1 = Some (t2, w2) \<and> thread_meter tbl t2 w2 = m \<and> fair_world healthy prices ps w2)
      else t_return_value t1 = STAY \<and> thread_meter tbl t1 w1 = m \<and> fair_world healthy prices ps w1)"
proof (cases "t_status t = CRC8_TEST_FAILED")
  case True
  moreover have "check_and_store t = Some t" using check_and_store_meter [OF assms(1,4)] True by simp
  moreover have "t_buff t \<noteq> []" using assms(1) by (auto simp: thread_inv_def size_defs)
  ultimately show ?thesis using assms(2-4)
    by (simp add: dispatch_def status_defs event_of_def meter_step_def thread_meter_def meter_of_def)
next
  case False
  let ?b = "t_buff t"
  obtain m where m: "cstr m = mac_text (drop 1 (take 7 ?b))" and
    cs: "check_and_store t = Some (t\<lparr>t_status := ?b ! 0,
        t_client := (t_client t)\<lparr>mac_address := m, x_axis := ?b ! 7, y_axis := ?b ! 8\<rparr>\<rparr>)"
    using check_and_store_meter [OF assms(1,4)] False by auto
  define t1 where "t1 = t\<lparr>t_status := ?b ! 0,
    t_client := (t_client t)\<lparr>mac_address := m, x_axis := ?b ! 7, y_axis := ?b ! 8\<rparr>\<rparr>"
  have c: "check_and_store t = Some t1" using cs by (simp add: t1_def)
  then have i: "thread_inv tbl t1 w" using check_and_store_ok [OF assms(1)] by auto
  have ne: "?b \<noteq> []" using assms(1) by (auto simp: thread_inv_def size_defs)
  have abs: "thread_meter tbl t1 w = (thread_meter tbl t w)\<lparr>m_mac := mac_text (drop 1 (take 7 ?b)),
      m_stuck := (?b ! 0 = CRC8_TEST_FAILED)\<rparr>" and st: "\<not> m_stuck (thread_meter tbl t w)"
    using m False by (simp_all add: thread_meter_def meter_of_def t1_def)
  have fields: "t_status t1 = ?b ! 0" "x_axis (t_client t1) = ?b ! 7" "y_axis (t_client t1) = ?b ! 8"
    "t_return_value t1 = STAY" using assms(3) by (simp_all add: t1_def)
  have ev: "event_of ?b = Request (?b ! 0) (mac_text (drop 1 (take 7 ?b))) (?b ! 7) (?b ! 8)"
    using assms(4) ne by (simp add: event_of_def)
  consider (start) "?b ! 0 = START_APP" | (close) "?b ! 0 = CLOSE_APP"
    | (other) "?b ! 0 \<noteq> START_APP" "?b ! 0 \<noteq> CLOSE_APP" by blast
  then show ?thesis
  proof cases
    case start
    obtain t2 w2 where "handle_start_app eng t1 w = Some (t2, w2)"
      "thread_meter tbl t2 w2 = meter_start ps (clock w) (?b ! 7) (?b ! 8) (thread_meter tbl t1 w)"
      "fair_world healthy prices ps w2" "t_return_value t2 = STAY"
      using handle_start_meter [OF i assms(2)] start fields by auto
    with c start st fields show ?thesis unfolding ev by (simp add: meter_step_def dispatch_def Let_def abs)
  next
    case close
    obtain t2 w2 t3 w3 where "handle_close_app eng t1 w = Some (t2, w2)" "t_return_value t2 = QUIT"
      "pango_exit eng t2 w2 = Some (t3, w3)" "fair_world healthy prices ps w3"
      "thread_meter tbl t3 w3 = meter_close (clock w) (thread_meter tbl t1 w)"
      using close_meter [OF i assms(2)] close fields by auto
    with c close st fields show ?thesis unfolding ev
      by (simp add: meter_step_def dispatch_def Let_def abs status_defs)
  next
    case other
    with c st fields assms(2) show ?thesis unfolding ev
      by (simp add: meter_step_def dispatch_def Let_def abs)
  qed
qed

lemma iteration_meter:
  assumes "thread_inv tbl t w" and "fair_world healthy prices ps w" and "t_return_value t = STAY"
    and "bs = [] \<or> length bs = 10"
  shows "\<exists>t1 w1. pango_iteration eng (Received bs) t w = Some (t1, w1) \<and>
    (case meter_step ps (clock w) (event_of bs) (thread_meter tbl t w) of (m, ended) \<Rightarrow>
      if ended then t_return_value t1 = QUIT \<and>
        (\<exists>t2 w2. pango_exit eng t1 w1 = Some (t2, w2) \<and> (thread_meter tbl t2 w2)\<lparr>m_stuck := False\<rparr> = m\<lparr>m_stuck := False\<rparr> \<and>
          fair_world healthy prices ps w2)
      else t_return_value t1 = STAY \<and> thread_meter tbl t1 w1 = m \<and> fair_world healthy prices ps w1)"
proof (cases "bs = []")
  case True
  let ?t1 = "t\<lparr>t_client := (t_client t)\<lparr>connected := FALSE\<rparr>, t_status := CONNECTION_LOST, t_return_value := QUIT\<rparr>"
    and ?w1 = "w\<lparr>locked := False\<rparr>"
  have it: "pango_iteration eng (Received bs) t w = Some (?t1, ?w1)"
    using True assms(1)
    by (simp add: pango_iteration_def wait_for_data_from_client_def mutex_lock_def mutex_unlock_def thread_inv_def)
  then have "thread_inv tbl ?t1 ?w1" using iteration_ok [OF assms(1), of "Received bs"] by auto
  then obtain t2 w2 where "pango_exit eng ?t1 ?w1 = Some (t2, w2)" "fair_world healthy prices ps w2"
    "thread_meter tbl t2 w2 = meter_save (clock w) (thread_meter tbl ?t1 ?w1)"
    using lost_meter [of ?t1 ?w1 ps] assms(2) by auto
  with True it show ?thesis
    by (simp add: meter_step_def event_of_def meter_save_def thread_meter_def meter_of_def)
next
  case False
  let ?t = "t\<lparr>t_buff := bs\<rparr>"
  have len: "length bs = 10" "length (t_buff t) = 10" using assms False by (auto simp: thread_inv_def size_defs)
  then have it: "pango_iteration eng (Received bs) t w = check_and_store ?t \<bind> (\<lambda>t. dispatch eng t w)"
    using False by (auto simp: pango_iteration_def wait_for_data_from_client_def status_defs split: list.splits)
  have i: "thread_inv tbl ?t w" using assms(1) len by (simp add: thread_inv_def size_defs)
  have m: "thread_meter tbl ?t w = thread_meter tbl t w" by (simp add: thread_meter_def)
  show ?thesis
  proof (cases "frame_ok bs")
    case True
    then obtain t1 w1 where r: "check_and_store ?t \<bind> (\<lambda>t. dispatch eng t w) = Some (t1, w1)"
      "case meter_step ps (clock w) (event_of bs) (thread_meter tbl t w) of (m, ended) \<Rightarrow>
        if ended then t_return_value t1 = QUIT \<and> (\<exists>t2 w2. pango_exit eng t1 w1 = Some (t2, w2) \<and> thread_meter tbl t2 w2 = m \<and> fair_world healthy prices ps w2)
        else t_return_value t1 = STAY \<and> thread_meter tbl t1 w1 = m \<and> fair_world healthy prices ps w1"
      using request_meter [OF i assms(2)] assms(3) m by auto
    then show ?thesis unfolding it by (auto split: prod.splits if_splits)
  next
    case bad: False
    let ?t1 = "?t\<lparr>t_status := CRC8_TEST_FAILED, t_return_value := QUIT\<rparr>"
    have "check_and_store ?t = Some ?t1"
      using CRC_8_check_iff [OF len(1)] bad by (simp add: check_and_store_def flag_defs)
    then have "pango_iteration eng (Received bs) t w = Some (?t1, w)"
      unfolding it by (simp add: dispatch_def status_defs)
    moreover obtain t2 w2 where "pango_exit eng ?t1 w = Some (t2, w2)" "fair_world healthy prices ps w2"
      "thread_meter tbl t2 w2 = meter_reply (Text ''ERROR'') (thread_meter tbl ?t1 w)"
      using corrupt_meter [OF assms(2), of ?t1] by auto
    ultimately show ?thesis using False bad
      by (simp add: meter_step_def event_of_def meter_reply_def thread_meter_def meter_of_def)
  qed
qed

lemma loop_meter:
  assumes "thread_inv tbl t w" and "fair_world healthy prices ps w" and "t_return_value t = STAY"
    and "\<forall>bs\<in>set fs. bs = [] \<or> length bs = 10"
  shows "\<exists>out. pango_loop eng (map Received fs) t w = Some out \<and>
    outcome_meter tbl out = meter_run ps (clock w) (map event_of fs) (thread_meter tbl t w) \<and>
    fair_world healthy prices ps (outcome_world out)"
  using assms
proof (induction fs arbitrary: t w)
  case (Cons bs fs)
  have b: "bs = [] \<or> length bs = 10" using Cons.prems(4) by simp
  obtain t1 w1 where it: "pango_iteration eng (Received bs) t w = Some (t1, w1)" and
    st: "case meter_step ps (clock w) (event_of bs) (thread_meter tbl t w) of (m, ended) \<Rightarrow>
      if ended then t_return_value t1 = QUIT \<and>
        (\<exists>t2 w2. pango_exit eng t1 w1 = Some (t2, w2) \<and> (thread_meter tbl t2 w2)\<lparr>m_stuck := False\<rparr> = m\<lparr>m_stuck := False\<rparr> \<and>
          fair_world healthy prices ps w2)
      else t_return_value t1 = STAY \<and> thread_meter tbl t1 w1 = m \<and> fair_world healthy prices ps w1"
    using iteration_meter [OF Cons.prems(1-3) b] by (elim exE conjE) (rule that)
  have inv: "thread_inv tbl t1 w1" "clock w1 = clock w"
    using iteration_ok [OF Cons.prems(1), of "Received bs"] it by (auto simp: keeps_def same_env_def)
  obtain m ended where ms: "meter_step ps (clock w) (event_of bs) (thread_meter tbl t w) = (m, ended)" by fastforce
  show ?case
  proof (cases ended)
    case True
    with it st ms show ?thesis by auto
  next
    case False
    with st ms have n: "t_return_value t1 = STAY" "thread_meter tbl t1 w1 = m" "fair_world healthy prices ps w1" by auto
    then obtain out where "pango_loop eng (map Received fs) t1 w1 = Some out"
      "outcome_meter tbl out = meter_run ps (clock w) (map event_of fs) m"
      "fair_world healthy prices ps (outcome_world out)"
      using Cons.IH [OF inv(1)] Cons.prems(4) inv(2) by auto
    with False it ms n(1) show ?thesis by (simp add: flag_defs)
  qed
qed simp

end

end
