(* ===== verification/Server_Session.thy ===== *)
theory Server_Session
  imports Server_Billing
begin

text \<open>
  What a client thread guarantees: safety against every database behaviour and every input,
  refinement of the parking meter, the parked time over any number of interrupted sessions,
  and the error paths. The witnesses run the reference engine on concrete worlds.
\<close>

section \<open>Concrete worlds for the witnesses\<close>

definition seal :: "byte list \<Rightarrow> byte list" where
  "seal d = d @ [crc8 d]"

lemma seal_ok: "length d = 9 \<Longrightarrow> frame_ok (seal d) \<and> length (seal d) = 10"
  by (simp add: seal_def frame_ok_def nth_append)

definition demo_prices :: "(string \<times> rat) list" where
  "demo_prices = [(''Ashkelon'', 3 / 8), (''Jerusalem'', 1 / 2)]"

definition demo_db :: "parked list \<Rightarrow> ref_db" where
  "demo_db rows = \<lparr>rd_rows = rows, rd_prices = demo_prices, rd_broken = False\<rparr>"

definition demo_world :: "parked list \<Rightarrow> ref_db world" where
  "demo_world rows =
     \<lparr>db_client = demo_db rows, db_prices = demo_db [],
      clock = (\<lambda>n. min 2000000000 (1000 + 10 * int n)), ticks = 0, send_result = (\<lambda>_. 12),
      sends = 0, outbox = [], locked = False, open_stmts = 0, closed_fds = []\<rparr>"

lemma demo_clock_ok: "clock_ok (demo_world rows)"
  by (auto simp: clock_ok_def demo_world_def mono_def min_def)

lemma demo_world_ok:
  "rows_ok 1000 rows \<Longrightarrow> world_ok rd_rows (demo_world rows)"
  using demo_clock_ok [of rows] by (simp add: world_ok_def demo_world_def demo_db_def)

lemma demo_fair: "fair_world ref_healthy rd_prices demo_prices (demo_world rows)"
  by (simp add: fair_world_def demo_world_def demo_db_def)

lemma rows_ok_Nil [simp]: "rows_ok n []"
  by (simp add: rows_ok_def)

lemma client_inv_zeroed:
  assumes "clock_ok w"
  shows "client_inv w (zeroed_client\<lparr>client_fd := fd\<rparr>)"
  using assms client_ok_zeroed
  by (simp add: client_inv_def client_ok_def clock_ok_def zeroed_client_def cstr_def size_defs)

lemma client_inv_demo: "client_inv (demo_world rows) (zeroed_client\<lparr>client_fd := fd\<rparr>)"
  by (intro client_inv_zeroed demo_clock_ok)

lemma demo_unlocked [simp]: "\<not> locked (demo_world rows)"
  by (simp add: demo_world_def)

lemma thread_inv_start:
  "world_ok tbl w \<Longrightarrow> \<not> locked w \<Longrightarrow> client_inv w c \<Longrightarrow> thread_inv tbl (thread_start c) w"
  by (simp add: thread_inv_def thread_start_def size_defs)

section \<open>Safety\<close>

text \<open>
  C4: whatever \<open>recv\<close> delivers and however the databases fail, a client thread never runs
  past a buffer, overflows an \<open>int\<close>, reads a string without NUL or locks the mutex twice; when
  it waits or has ended the mutex is free, every prepared statement is finalized, the
  rows of the table are still well formed, with no time in the future, and every message it
  has sent is the text ERROR, a terminated location of twelve characters, or two numbers. It
  closes its socket once when it ends, and no other descriptor.
\<close>

theorem client_thread_safe:
  assumes "sqlite_contract eng tbl prices healthy"
    and "world_ok tbl w" and "\<not> locked w" and "client_inv w client"
  shows "\<exists>out. pango_client eng rs client w = Some out \<and> \<not> locked (outcome_world out) \<and>
    open_stmts (outcome_world out) = open_stmts w \<and> world_ok tbl (outcome_world out) \<and>
    sent_more (outbox w) (outbox (outcome_world out)) \<and>
    closed_fds (outcome_world out) = closed_fds w @ closed_by out"
  using sqlite_contract.loop_ok [OF assms(1) thread_inv_start [OF assms(2-4)], of rs] assms(3)
  by (auto simp: pango_client_def outcome_ok_def keeps_def same_env_def)

theorem client_thread_safe_witness:
  "\<exists>out. pango_client ref_engine [Received [1, 2], Recv_error, Received (seal [2, 0, 0, 0, 0, 0, 0, 1, 1]), Received []]
      (zeroed_client\<lparr>client_fd := 4\<rparr>) (demo_world []) = Some out \<and>
    \<not> locked (outcome_world out) \<and> open_stmts (outcome_world out) = open_stmts (demo_world []) \<and>
    world_ok rd_rows (outcome_world out) \<and> sent_more (outbox (demo_world [])) (outbox (outcome_world out)) \<and>
    closed_fds (outcome_world out) = closed_fds (demo_world []) @ closed_by out"
  by (rule client_thread_safe [OF ref.sqlite_contract_axioms]) (simp_all add: demo_world_ok client_inv_demo)

section \<open>The thread is a parking meter\<close>

lemma client_meter:
  assumes "sqlite_contract eng tbl prices healthy"
    and "world_ok tbl w" and "\<not> locked w" and "client_inv w client" and "fair_world healthy prices ps w"
    and "\<forall>bs\<in>set fs. bs = [] \<or> length bs = 10"
  shows "\<exists>out. pango_client eng (map Received fs) client w = Some out \<and>
    outcome_meter tbl out = meter_run ps (clock w) (map event_of fs) (thread_meter tbl (thread_start client) w) \<and>
    fair_world healthy prices ps (outcome_world out) \<and> outcome_ok tbl w out"
proof -
  note inv = thread_inv_start [OF assms(2-4)]
  have "t_return_value (thread_start client) = STAY" by (simp add: thread_start_def)
  from sqlite_contract.loop_meter [OF assms(1) inv assms(5) this assms(6)]
    sqlite_contract.loop_ok [OF assms(1) inv]
  show ?thesis unfolding pango_client_def by fastforce
qed

text \<open>
  C3: on healthy databases, with every message delivered, a client thread that receives whole
  frames (or the end of the connection) does exactly what the parking meter does: the same
  rows in the table, the same start time, price and city, the same messages in the same
  order, and it ends at the same event.
\<close>

theorem client_thread_refines_meter:
  assumes "sqlite_contract eng tbl prices healthy"
    and "world_ok tbl w" and "\<not> locked w" and "client_inv w client" and "fair_world healthy prices ps w"
    and "\<forall>bs\<in>set fs. bs = [] \<or> length bs = 10"
  shows "map_option (outcome_meter tbl) (pango_client eng (map Received fs) client w) =
    Some (meter_run ps (clock w) (map event_of fs) (thread_meter tbl (thread_start client) w))"
  using client_meter [OF assms] by auto

theorem client_thread_refines_meter_witness:
  "let fs = [seal [1, 1, 2, 3, 4, 5, 6, 10, 20], seal [2, 1, 2, 3, 4, 5, 6, 10, 20]];
       c = zeroed_client\<lparr>client_fd := 4\<rparr>; w = demo_world []
   in map_option (outcome_meter rd_rows) (pango_client ref_engine (map Received fs) c w) =
      Some (meter_run demo_prices (clock w) (map event_of fs) (thread_meter rd_rows (thread_start c) w))"
  unfolding Let_def
  by (rule client_thread_refines_meter [OF ref.sqlite_contract_axioms])
     (simp_all add: demo_world_ok client_inv_demo demo_fair seal_ok)

section \<open>Interrupted parking\<close>

text \<open>
  A vehicle that loses its connection and comes back is served by a new thread each time.
  \<open>serve\<close> runs the threads of consecutive connections, each on a cleared client record.
\<close>

fun serve ::
    "('db, 'stmt) sqlite \<Rightarrow> (byte \<times> recv_result list) list \<Rightarrow> 'db world \<Rightarrow> 'db world option" where
  "serve eng [] w = Some w"
| "serve eng ((fd, rs) # cs) w =
     (case pango_client eng rs (zeroed_client\<lparr>client_fd := fd\<rparr>) w of
        Some (Exited t w') \<Rightarrow> serve eng cs w'
      | _ \<Rightarrow> None)"

lemma serve_append: "serve eng (cs @ ds) w = serve eng cs w \<bind> serve eng ds"
  by (induction cs arbitrary: w) (auto split: option.split outcome.split)

definition frame_mac :: "byte list \<Rightarrow> string" where
  "frame_mac s = mac_text (drop 1 (take 7 s))"

definition frame_city :: "byte list \<Rightarrow> string" where
  "frame_city s = location_name (s ! 7) (s ! 8)"

text \<open>The seconds between the two clock readings of the \<open>k\<close>-th connection after \<open>w\<close>.\<close>

definition connected_for :: "'db world \<Rightarrow> nat \<Rightarrow> int" where
  "connected_for w k = clock w (ticks w + 2 * k + 1) - clock w (ticks w + 2 * k)"

lemma set_time_absent: "\<forall>r\<in>set rs. p_mac r \<noteq> mac \<Longrightarrow> set_time n mac rs = rs"
  by (induction rs) (auto simp: set_time_def)

lemma set_time_append: "set_time n mac (rs @ qs) = set_time n mac rs @ set_time n mac qs"
  by (simp add: set_time_def)

text \<open>A start and a close frame of one client, who is not in the rows \<open>base\<close>.\<close>

definition parking_frames :: "byte list \<Rightarrow> byte list \<Rightarrow> parked list \<Rightarrow> bool" where
  "parking_frames s c base \<longleftrightarrow>
     length s = 10 \<and> frame_ok s \<and> s ! 0 = START_APP \<and>
     length c = 10 \<and> frame_ok c \<and> c ! 0 = CLOSE_APP \<and> frame_mac c = frame_mac s \<and>
     (\<forall>r\<in>set base. p_mac r \<noteq> frame_mac s)"

lemma parking_events:
  assumes "parking_frames s c base"
  shows "event_of s = Request START_APP (frame_mac s) (s ! 7) (s ! 8)"
    and "event_of c = Request CLOSE_APP (frame_mac s) (c ! 7) (c ! 8)"
    and "rows_of (frame_mac s) base = []" and "filter (\<lambda>r. p_mac r \<noteq> frame_mac s) base = base"
  using assms by (auto simp: parking_frames_def event_of_def frame_mac_def filter_empty_conv)

text \<open>
  The rows of the table while the client is away, \<open>n\<close> seconds used in \<open>k\<close> sessions, the first of
  them started by the frame \<open>s\<close>. \<open>again k s s'\<close>: the frame \<open>s'\<close> starts the next session. It may have
  other coordinates than the first frame, whose city the row keeps.
\<close>

definition parked_rows :: "byte list \<Rightarrow> parked list \<Rightarrow> nat \<Rightarrow> int \<Rightarrow> parked list" where
  "parked_rows s base k n =
     base @ (if k = 0 then [] else [\<lparr>p_mac = frame_mac s, p_time = n, p_loc = frame_city s\<rparr>])"

definition again :: "nat \<Rightarrow> byte list \<Rightarrow> byte list \<Rightarrow> bool" where
  "again k s s' \<longleftrightarrow> frame_mac s' = frame_mac s \<and> (k = 0 \<longrightarrow> s' = s)"

lemma again_refl [simp]: "again k s s"
  by (simp add: again_def)

definition session_world ::
    "('db \<Rightarrow> parked list) \<Rightarrow> ('db \<Rightarrow> bool) \<Rightarrow> ('db \<Rightarrow> (string \<times> rat) list) \<Rightarrow> (string \<times> rat) list \<Rightarrow> 'db world \<Rightarrow> bool" where
  "session_world tbl healthy prices ps w \<longleftrightarrow>
     world_ok tbl w \<and> \<not> locked w \<and> fair_world healthy prices ps w"

lemma session_meter:
  assumes con: "sqlite_contract eng tbl prices healthy" and w: "session_world tbl healthy prices ps w"
    and fr: "parking_frames s c base" and bs: "bs = [] \<or> length bs = 10"
    and m: "m = meter_start ps (clock w) (s ! 7) (s ! 8)
      ((thread_meter tbl (thread_start (zeroed_client\<lparr>client_fd := fd\<rparr>)) w)\<lparr>m_mac := frame_mac s\<rparr>)"
    and step: "meter_step ps (clock w) (event_of bs) m = (m', True)"
  shows "\<exists>w'. serve eng [(fd, [Received s, Received bs])] w = Some w' \<and> session_world tbl healthy prices ps w' \<and>
    clock w' = clock w \<and> tbl (db_client w') = m_rows m' \<and> ticks w' = m_tick m' \<and>
    map (\<lambda>(_, m). view_msg m) (outbox w') = m_replies m' \<and> sent_more (outbox w) (outbox w')"
proof -
  let ?c = "zeroed_client\<lparr>client_fd := fd\<rparr>" and ?fs = "[s, bs]"
  have a: "world_ok tbl w" "\<not> locked w" "client_inv w ?c" "fair_world healthy prices ps w"
    using w client_inv_zeroed by (auto simp: session_world_def world_ok_def)
  have "\<forall>bs\<in>set ?fs. bs = [] \<or> length bs = 10" using fr bs by (auto simp: parking_frames_def)
  then obtain out where out: "pango_client eng [Received s, Received bs] ?c w = Some out"
    "outcome_meter tbl out = meter_run ps (clock w) (map event_of ?fs) (thread_meter tbl (thread_start ?c) w)"
    "fair_world healthy prices ps (outcome_world out)" "outcome_ok tbl w out"
    using client_meter [OF con a, of ?fs] by auto
  let ?tm = "thread_meter tbl (thread_start ?c) w"
  have "?tm\<lparr>m_mac := frame_mac s, m_stuck := (START_APP = CRC8_TEST_FAILED)\<rparr> = ?tm\<lparr>m_mac := frame_mac s\<rparr>"
    and "\<not> m_stuck ?tm"
    by (simp_all add: thread_meter_def meter_of_def thread_start_def status_defs)
  then have "meter_step ps (clock w) (event_of s) ?tm = (m, False)"
    unfolding parking_events(1) [OF fr] meter_step_def m by (simp del: meter.update_convs)
  then have "meter_run ps (clock w) (map event_of ?fs) ?tm = (m'\<lparr>m_stuck := False\<rparr>, True)"
    using step by simp
  then obtain t w' where ex: "out = Exited t w'" "(thread_meter tbl t w')\<lparr>m_stuck := False\<rparr> = m'\<lparr>m_stuck := False\<rparr>"
    using out(2) by (cases out) auto
  have "tbl (db_client w') = m_rows m'" "ticks w' = m_tick m'"
    "map (\<lambda>(_, m). view_msg m) (outbox w') = m_replies m'"
    using arg_cong [OF ex(2), of m_rows] arg_cong [OF ex(2), of m_tick] arg_cong [OF ex(2), of m_replies]
    by (simp_all add: thread_meter_def meter_of_def)
  with out(1,3,4) ex(1) a(2) show ?thesis
    by (auto simp: outcome_ok_def keeps_def same_env_def session_world_def)
qed

text \<open>The meter after the start frame \<open>s\<close> of a session whose vehicle came with the frame \<open>s0\<close>.\<close>

lemma started_meter:
  assumes fr: "parking_frames s c base" and rows: "tbl (db_client w) = parked_rows s0 base k n" and n: "k = 0 \<longrightarrow> n = 0"
    and again: "again k s0 s"
    and m: "m = meter_start ps (clock w) (s ! 7) (s ! 8)
      ((thread_meter tbl (thread_start (zeroed_client\<lparr>client_fd := fd\<rparr>)) w)\<lparr>m_mac := frame_mac s\<rparr>)"
  shows "m_rows m = parked_rows s0 base (Suc k) n" and "m_start m = clock w (ticks w) - n"
    and "m_tick m = ticks w + 1" and "m_mac m = frame_mac s" and "m_price m = city_price ps (frame_city s0) 0"
    and "m_replies m = map (\<lambda>(_, m). view_msg m) (outbox w) @ [Text (frame_city s0)]" and "\<not> m_stuck m"
  using rows n again parking_events(3) [OF fr] unfolding m
  by (simp_all add: thread_meter_def meter_of_def thread_start_def zeroed_client_def status_defs flag_defs again_def
      meter_start_def meter_new_def meter_resume_def meter_reply_def parked_rows_def frame_city_def Let_def)

lemma session_lost:
  assumes con: "sqlite_contract eng tbl prices healthy" and w: "session_world tbl healthy prices ps w"
    and fr: "parking_frames s c base" and rows: "tbl (db_client w) = parked_rows s0 base k n" and n: "k = 0 \<longrightarrow> n = 0"
    and again: "again k s0 s"
  shows "\<exists>w'. serve eng [(fd, [Received s, Received []])] w = Some w' \<and> session_world tbl healthy prices ps w' \<and>
    clock w' = clock w \<and> ticks w' = ticks w + 2 \<and>
    tbl (db_client w') = parked_rows s0 base (Suc k) (n + (clock w (ticks w + 1) - clock w (ticks w))) \<and>
    map (\<lambda>(_, m). view_msg m) (outbox w') = map (\<lambda>(_, m). view_msg m) (outbox w) @ [Text (frame_city s0)]"
proof -
  define m where "m = meter_start ps (clock w) (s ! 7) (s ! 8)
      ((thread_meter tbl (thread_start (zeroed_client\<lparr>client_fd := fd\<rparr>)) w)\<lparr>m_mac := frame_mac s\<rparr>)"
  note st = started_meter [OF fr rows n again m_def]
  have "m_rows (meter_save (clock w) m) = parked_rows s0 base (Suc k) (n + (clock w (ticks w + 1) - clock w (ticks w)))"
    using fr again set_time_absent [of base "frame_mac s"] st
    by (simp add: meter_save_def parking_frames_def parked_rows_def set_time_def again_def)
  moreover have "meter_step ps (clock w) (event_of []) m = (meter_save (clock w) m, True)"
    by (simp add: event_of_def meter_step_def)
  moreover have "m_tick (meter_save (clock w) m) = ticks w + 2" using st by (simp add: meter_save_def)
  moreover have "m_replies (meter_save (clock w) m) = m_replies m" by (simp add: meter_save_def)
  ultimately show ?thesis using session_meter [OF con w fr _ m_def] st(6) by fastforce
qed

lemma session_closed:
  assumes con: "sqlite_contract eng tbl prices healthy" and w: "session_world tbl healthy prices ps w"
    and fr: "parking_frames s c base" and rows: "tbl (db_client w) = parked_rows s0 base k n" and n: "k = 0 \<longrightarrow> n = 0"
    and used: "used = n + (clock w (ticks w + 1) - clock w (ticks w))" and again: "again k s0 s"
  shows "\<exists>w'. serve eng [(fd, [Received s, Received c])] w = Some w' \<and> session_world tbl healthy prices ps w' \<and>
    clock w' = clock w \<and> tbl (db_client w') = base \<and> sent_more (outbox w) (outbox w') \<and>
    map (\<lambda>(_, m). view_msg m) (outbox w') = map (\<lambda>(_, m). view_msg m) (outbox w) @
      [Text (frame_city s0), Bill (double_mult (city_price ps (frame_city s0) 0) (of_int used)) (of_int used)]"
proof -
  define m where "m = meter_start ps (clock w) (s ! 7) (s ! 8)
      ((thread_meter tbl (thread_start (zeroed_client\<lparr>client_fd := fd\<rparr>)) w)\<lparr>m_mac := frame_mac s\<rparr>)"
  note st = started_meter [OF fr rows n again m_def]
  have d: "clock w (m_tick m) - m_start m = used" using st used by simp
  let ?m = "m\<lparr>m_mac := frame_mac s, m_stuck := False\<rparr>"
  have "meter_step ps (clock w) (event_of c) m = (meter_close (clock w) ?m, True)"
    using st by (simp add: parking_events(2) [OF fr] meter_step_def status_defs Let_def)
  moreover have "m_rows (meter_close (clock w) ?m) = base"
    using st parking_events(4) [OF fr] again by (simp add: meter_close_def meter_reply_def parked_rows_def again_def Let_def)
  moreover have "m_replies (meter_close (clock w) ?m) = map (\<lambda>(_, m). view_msg m) (outbox w) @
      [Text (frame_city s0), Bill (double_mult (city_price ps (frame_city s0) 0) (of_int used)) (of_int used)]"
    using d st(5,6) by (simp add: meter_close_def meter_reply_def Let_def del: of_int_diff)
  moreover have "c = [] \<or> length c = 10" using fr by (simp add: parking_frames_def)
  ultimately show ?thesis using session_meter [OF con w fr _ m_def] by fastforce
qed

text \<open>The two messages of a closed session as they are sent.\<close>

lemma session_messages:
  assumes "sent_more out out'" and "map (\<lambda>(_, m). view_msg m) out' = map (\<lambda>(_, m). view_msg m) out @ [Text city, Bill p u]"
    and "city \<noteq> ''ERROR''"
  shows "\<exists>f1 f2 l. out' = out @ [(f1, Chars l), (f2, Doubles [p, u])] \<and> length l = LOCATION_SIZE \<and>
    nul \<in> set l \<and> cstr l = city"
proof -
  obtain ms where ms: "out' = out @ ms" "list_all (\<lambda>(fd, m). msg_ok m) ms" using assms(1) by (auto simp: sent_more_def)
  with assms(2) have "map (\<lambda>(_, m). view_msg m) ms = [Text city, Bill p u]" by simp
  then obtain f1 m1 f2 m2 where m: "ms = [(f1, m1), (f2, m2)]" "view_msg m1 = Text city" "view_msg m2 = Bill p u"
    by (auto simp: map_eq_Cons_conv)
  obtain l where l: "m1 = Chars l" "cstr l = city" using m(2) by (cases m1) auto
  obtain ds where ds: "m2 = Doubles ds" "ds ! 0 = p" "ds ! 1 = u" using m(3) by (cases m2) auto
  have ok: "msg_ok m1" "msg_ok m2" using ms(2) m(1) by simp_all
  have "length ds = 2" using ok(2) ds(1) by simp
  then have "ds = [p, u]" using ds(2,3) by (auto simp: length_Suc_conv numeral_2_eq_2)
  moreover have "l \<noteq> ''ERROR''" using l(2) assms(3) by (auto simp: cstr_def)
  ultimately show ?thesis using ms(1) m(1) l ds(1) ok(1) by auto
qed

text \<open>Connections that start with a frame and are lost.\<close>

definition lost_sessions :: "(byte \<times> byte list) list \<Rightarrow> (byte \<times> recv_result list) list" where
  "lost_sessions ss = map (\<lambda>(fd, s). (fd, [Received s, Received []])) ss"

lemma lost_sessions_snoc: "lost_sessions (ss @ [(fd, s)]) = lost_sessions ss @ [(fd, [Received s, Received []])]"
  by (simp add: lost_sessions_def)

lemma again_first:
  assumes "\<forall>p\<in>set (ss @ [(fd, s)]). parking_frames (snd p) c base"
  shows "again (length ss) (snd (hd (ss @ [(fd, s)]))) s"
  using assms by (cases ss) (auto simp: again_def parking_frames_def)

lemma sessions_lost:
  assumes con: "sqlite_contract eng tbl prices healthy" and w: "session_world tbl healthy prices ps w"
    and fr: "\<forall>p\<in>set ss. parking_frames (snd p) c base" and rows: "tbl (db_client w) = base"
    and first: "ss \<noteq> [] \<longrightarrow> s0 = snd (hd ss)"
  shows "\<exists>w'. serve eng (lost_sessions ss) w = Some w' \<and>
    session_world tbl healthy prices ps w' \<and> clock w' = clock w \<and> ticks w' = ticks w + 2 * length ss \<and>
    tbl (db_client w') = parked_rows s0 base (length ss) (\<Sum>i<length ss. connected_for w i) \<and>
    map (\<lambda>(_, m). view_msg m) (outbox w') =
      map (\<lambda>(_, m). view_msg m) (outbox w) @ replicate (length ss) (Text (frame_city s0))"
  using fr first
proof (induction ss rule: rev_induct)
  case Nil
  then show ?case using w rows by (simp add: parked_rows_def lost_sessions_def)
next
  case (snoc p ss)
  obtain fd s where p: "p = (fd, s)" by fastforce
  let ?k = "length ss" and ?n = "\<Sum>i<length ss. connected_for w i"
  have fr: "parking_frames s c base" and again: "again ?k s0 s"
    using snoc.prems again_first [of ss fd s c base] by (simp_all add: p)
  from snoc obtain w1 where 1: "serve eng (lost_sessions ss) w = Some w1"
    "session_world tbl healthy prices ps w1" "clock w1 = clock w" "ticks w1 = ticks w + 2 * ?k"
    "tbl (db_client w1) = parked_rows s0 base ?k ?n"
    "map (\<lambda>(_, m). view_msg m) (outbox w1) =
      map (\<lambda>(_, m). view_msg m) (outbox w) @ replicate ?k (Text (frame_city s0))"
    by (cases "ss = []") auto
  have "?k = 0 \<longrightarrow> ?n = 0" by simp
  from session_lost [OF con 1(2) fr 1(5) this again, of fd] obtain w2 where
    "serve eng [(fd, [Received s, Received []])] w1 = Some w2" "session_world tbl healthy prices ps w2"
    "clock w2 = clock w1" "ticks w2 = ticks w1 + 2"
    "tbl (db_client w2) = parked_rows s0 base (Suc ?k) (?n + connected_for w ?k)"
    "map (\<lambda>(_, m). view_msg m) (outbox w2) = map (\<lambda>(_, m). view_msg m) (outbox w1) @ [Text (frame_city s0)]"
    using 1(3,4) by (auto simp: connected_for_def)
  with 1 show ?case
    by (simp add: p lost_sessions_snoc serve_append replicate_append_same [symmetric] del: serve.simps)
qed

text \<open>
  C8: a vehicle that starts, loses its connection any number of times, comes back each time with a
  start frame of its own (its coordinates are random and may differ) and closes is billed once,
  for the sum of the seconds it was connected, at the price of the city of its first frame.
  These are all the messages it gets: the name of that city at each start, and at the end one
  bill. Afterwards the table is as it was before the vehicle came.
\<close>

theorem interrupted_parking_is_billed_once:
  assumes "sqlite_contract eng tbl prices healthy" and "session_world tbl healthy prices ps w"
    and "\<forall>p\<in>set (ss @ [(fd, s)]). parking_frames (snd p) c (tbl (db_client w))"
    and "city = frame_city (snd (hd (ss @ [(fd, s)])))"
    and "used = (\<Sum>i\<le>length ss. connected_for w i)"
  shows "\<exists>w'. serve eng (lost_sessions ss @ [(fd, [Received s, Received c])]) w = Some w' \<and>
    tbl (db_client w') = tbl (db_client w) \<and>
    map (\<lambda>(_, m). view_msg m) (outbox w') = map (\<lambda>(_, m). view_msg m) (outbox w) @
      replicate (Suc (length ss)) (Text city) @ [Bill (double_mult (city_price ps city 0) (of_int used)) (of_int used)]"
proof -
  let ?n = "\<Sum>i<length ss. connected_for w i" and ?s0 = "snd (hd (ss @ [(fd, s)]))"
  have fr: "\<forall>p\<in>set ss. parking_frames (snd p) c (tbl (db_client w))" "parking_frames s c (tbl (db_client w))"
    using assms(3) by auto
  have "ss \<noteq> [] \<longrightarrow> ?s0 = snd (hd ss)" by simp
  from sessions_lost [OF assms(1,2) fr(1) refl this] obtain w1 where
    1: "serve eng (lost_sessions ss) w = Some w1"
    "session_world tbl healthy prices ps w1" "clock w1 = clock w" "ticks w1 = ticks w + 2 * length ss"
    "tbl (db_client w1) = parked_rows ?s0 (tbl (db_client w)) (length ss) ?n"
    "map (\<lambda>(_, m). view_msg m) (outbox w1) =
      map (\<lambda>(_, m). view_msg m) (outbox w) @ replicate (length ss) (Text (frame_city ?s0))" by blast
  have n: "length ss = 0 \<longrightarrow> ?n = 0" by simp
  have "{..length ss} = insert (length ss) {..<length ss}" by auto
  then have used: "used = ?n + (clock w1 (ticks w1 + 1) - clock w1 (ticks w1))"
    unfolding assms(5) 1(3,4) by (simp add: connected_for_def)
  from session_closed [OF assms(1) 1(2) fr(2) 1(5) n used again_first [OF assms(3)], of fd] obtain w2 where
    2: "serve eng [(fd, [Received s, Received c])] w1 = Some w2" "tbl (db_client w2) = tbl (db_client w)"
    "map (\<lambda>(_, m). view_msg m) (outbox w2) = map (\<lambda>(_, m). view_msg m) (outbox w1) @
      [Text city, Bill (double_mult (city_price ps city 0) (of_int used)) (of_int used)]"
    unfolding assms(4) by blast
  have "replicate (length ss) (Text city) @ [Text city] = replicate (Suc (length ss)) (Text city)"
    by (simp add: replicate_append_same)
  with 1(1,6) 2 show ?thesis unfolding assms(4) by (simp add: serve_append del: serve.simps)
qed

definition demo_start :: "byte list" where
  "demo_start = seal [1, 1, 2, 3, 4, 5, 6, 10, 20]"

definition demo_close :: "byte list" where
  "demo_close = seal [2, 1, 2, 3, 4, 5, 6, 90, 20]"

definition demo_rows :: "parked list" where
  "demo_rows = [\<lparr>p_mac = ''aa:bb:cc:dd:ee:ff'', p_time = 60, p_loc = ''Herzliya''\<rparr>]"

lemma demo_frame_mac: "frame_mac demo_start = ''1:2:3:4:5:6''"
  by code_simp

lemma demo_parking_frames: "parking_frames demo_start demo_close demo_rows"
proof -
  have "frame_mac demo_close = frame_mac demo_start"
    by (simp add: demo_start_def demo_close_def frame_mac_def seal_def)
  then show ?thesis
    using seal_ok [of "[1, 1, 2, 3, 4, 5, 6, 10, 20]"] seal_ok [of "[2, 1, 2, 3, 4, 5, 6, 90, 20]"] demo_frame_mac
    by (simp add: parking_frames_def demo_start_def demo_close_def demo_rows_def status_defs)
       (simp add: seal_def)
qed

text \<open>The same vehicle at another place, in another city.\<close>

definition demo_restart :: "byte list" where
  "demo_restart = seal [1, 1, 2, 3, 4, 5, 6, 100, 100]"

lemma demo_restart_frames: "parking_frames demo_restart demo_close demo_rows"
proof -
  have "frame_mac demo_restart = frame_mac demo_start"
    by (simp add: demo_start_def demo_restart_def frame_mac_def seal_def)
  then show ?thesis
    using demo_parking_frames seal_ok [of "[1, 1, 2, 3, 4, 5, 6, 100, 100]"]
    by (simp add: parking_frames_def) (simp add: demo_restart_def seal_def status_defs)
qed

lemma demo_cities: "frame_city demo_start = ''Ashkelon''" "frame_city demo_restart \<noteq> ''Ashkelon''"
  by (simp_all add: frame_city_def demo_start_def demo_restart_def seal_def location_name_def city_of_def cities_def)

lemma demo_rows_ok: "rows_ok 1000 demo_rows"
  by (simp add: rows_ok_def demo_rows_def size_defs plain_def)

lemma demo_session_world:
  "rows_ok 1000 rows \<Longrightarrow> session_world rd_rows ref_healthy rd_prices demo_prices (demo_world rows)"
  by (simp add: session_world_def demo_world_ok demo_fair)

theorem interrupted_parking_is_billed_once_witness:
  "\<exists>w'. serve ref_engine (lost_sessions [(4, demo_start), (7, demo_restart)] @
        [(5, [Received demo_restart, Received demo_close])]) (demo_world demo_rows) = Some w' \<and>
    rd_rows (db_client w') = demo_rows \<and> frame_city demo_restart \<noteq> ''Ashkelon'' \<and>
    map (\<lambda>(_, m). view_msg m) (outbox w') =
      [Text ''Ashkelon'', Text ''Ashkelon'', Text ''Ashkelon'',
       Bill (double_mult (city_price demo_prices ''Ashkelon'' 0) (of_int 30)) (of_int 30)]"
proof -
  let ?ss = "[(4, demo_start), (7, demo_restart)] :: (byte \<times> byte list) list"
  have rows: "rd_rows (db_client (demo_world demo_rows)) = demo_rows" by (simp add: demo_world_def demo_db_def)
  have used: "30 = (\<Sum>i\<le>length ?ss. connected_for (demo_world demo_rows) i)"
    by (simp add: connected_for_def demo_world_def)
  have "outbox (demo_world demo_rows) = []" by (simp add: demo_world_def)
  then show ?thesis
    using interrupted_parking_is_billed_once [OF ref.sqlite_contract_axioms demo_session_world [OF demo_rows_ok] _ refl used, of 5 demo_restart demo_close]
      demo_parking_frames demo_restart_frames demo_cities
    by (simp add: rows del: serve.simps of_int_numeral)
qed

section \<open>Damaged frames and error paths\<close>

lemma corrupt_iteration:
  assumes "length (t_buff t) = 10" and "length bs = 10" and "\<not> frame_ok bs"
  shows "pango_iteration eng (Received bs) t w = Some
    (t\<lparr>t_buff := bs, t_status := CRC8_TEST_FAILED, t_return_value := QUIT\<rparr>, w)"
  using assms CRC_8_check_iff [OF assms(2)]
  by (auto simp: pango_iteration_def wait_for_data_from_client_def check_and_store_def dispatch_def
      flag_defs status_defs split: list.splits)

text \<open>
  C14: if one or two bits of a valid frame are flipped on the way, or any bits within eight
  consecutive positions, the thread does not act on the frame: it changes neither database,
  sends the text ERROR to the client, closes its socket and ends.
\<close>

theorem transmission_error_is_never_acted_on:
  assumes "length (t_buff t) = 10" and "length p = 10" and "frame_ok p" and "detectable ds"
    and "send_result w (sends w) \<noteq> -1"
  shows "\<exists>t'. pango_loop eng (Received (flip_bits ds p) # rs) t w = Some (Exited t'
    (w\<lparr>sends := sends w + 1, outbox := outbox w @ [(client_fd (t_client t), Chars ''ERROR'')],
       closed_fds := closed_fds w @ [client_fd (t_client t)]\<rparr>))"
  using corrupt_iteration [of t "flip_bits ds p" eng w] assms srv_crc.detects [OF assms(2-4)]
  by (simp add: pango_exit_def err_msg_def send_msg_def status_defs close_fd_def Let_def)

theorem transmission_error_is_never_acted_on_witness:
  "\<exists>t'. pango_loop ref_engine (Received (flip_bits [3, 71] demo_start) # [Received demo_close])
      (thread_start zeroed_client) (demo_world demo_rows) = Some (Exited t'
    ((demo_world demo_rows)\<lparr>sends := sends (demo_world demo_rows) + 1,
       outbox := outbox (demo_world demo_rows) @ [(client_fd (t_client (thread_start zeroed_client)), Chars ''ERROR'')],
       closed_fds := closed_fds (demo_world demo_rows) @ [client_fd (t_client (thread_start zeroed_client))]\<rparr>))"
  using demo_parking_frames
  by (intro transmission_error_is_never_acted_on)
     (simp_all add: thread_start_def size_defs parking_frames_def detectable_def demo_world_def)

lemma stuck_loop:
  assumes "length (t_buff t) = 10" and "t_status t = CRC8_TEST_FAILED" and "t_return_value t = STAY"
    and "\<forall>bs\<in>set fs. length bs = 10 \<and> frame_ok bs"
  shows "\<exists>t'. pango_loop eng (map Received fs) t w = Some (Waiting t' w)"
  using assms
proof (induction fs arbitrary: t)
  case (Cons bs fs)
  let ?t = "t\<lparr>t_buff := bs\<rparr>"
  have bs: "length bs = 10" "frame_ok bs" using Cons.prems(4) by simp_all
  then have it: "pango_iteration eng (Received bs) t w = Some (?t, w)"
    using Cons.prems(1,2) CRC_8_check_iff [OF bs(1)]
    by (auto simp: pango_iteration_def wait_for_data_from_client_def check_and_store_def dispatch_def
        store_client_data_in_struct_def flag_defs status_defs split: list.splits)
  obtain t' where "pango_loop eng (map Received fs) ?t w = Some (Waiting t' w)"
    using Cons.IH [of ?t] Cons.prems bs by auto
  with it Cons.prems(3) show ?case by (simp add: flag_defs)
qed simp


text \<open>
  C35: a valid frame whose status byte is 255 makes the thread ignore every later valid frame:
  it keeps waiting, and changes neither the databases nor the messages.
\<close>

theorem status_255_deafens_the_thread:
  assumes "length p = 10" and "frame_ok p" and "p ! 0 = 255"
    and "\<forall>bs\<in>set fs. length bs = 10 \<and> frame_ok bs"
    and "length (mac_address client) = MAC_ADDRESS_SIZE"
  shows "\<exists>t'. pango_client eng (map Received (p # fs)) client w = Some (Waiting t' w)"
proof -
  let ?t = "(thread_start client)\<lparr>t_buff := p\<rparr>"
  have len: "length (t_buff (thread_start client)) = 10" "t_return_value (thread_start client) = STAY"
    by (simp_all add: thread_start_def size_defs)
  have "STATUS_INITIAL_VALUE \<noteq> CRC8_TEST_FAILED" by (simp add: status_defs)
  from store_client_data_ok [OF assms(1,5) this] obtain m where
    "store_client_data_in_struct STATUS_INITIAL_VALUE p client =
      Some (p ! 0, client\<lparr>mac_address := m, x_axis := p ! 7, y_axis := p ! 8\<rparr>)" by blast
  then have st: "check_and_store ?t = Some (?t\<lparr>t_status := 255,
      t_client := client\<lparr>mac_address := m, x_axis := p ! 7, y_axis := p ! 8\<rparr>\<rparr>)"
    using assms(2,3) CRC_8_check_iff [OF assms(1)] by (simp add: check_and_store_def thread_start_def)
  then have "\<exists>t1. pango_iteration eng (Received p) (thread_start client) w = Some (t1, w) \<and>
      length (t_buff t1) = 10 \<and> t_status t1 = CRC8_TEST_FAILED \<and> t_return_value t1 = STAY"
    using assms(1) len
    by (auto simp: pango_iteration_def wait_for_data_from_client_def dispatch_def status_defs split: list.splits)
  then obtain t1 where t1: "pango_iteration eng (Received p) (thread_start client) w = Some (t1, w)"
    "length (t_buff t1) = 10" "t_status t1 = CRC8_TEST_FAILED" "t_return_value t1 = STAY" by blast
  from stuck_loop [OF t1(2-4) assms(4)] t1(1,4) show ?thesis
    by (simp add: pango_client_def flag_defs)
qed

theorem status_255_deafens_the_thread_witness:
  "\<exists>t'. pango_client ref_engine (map Received (seal [255, 1, 2, 3, 4, 5, 6, 10, 20] # [demo_start, demo_close]))
    zeroed_client (demo_world []) = Some (Waiting t' (demo_world []))"
  using demo_parking_frames
  by (intro status_255_deafens_the_thread)
     (simp_all add: seal_ok parking_frames_def zeroed_client_def, simp_all add: seal_def)

end
