(* ===== verification/Server_Branches.thy ===== *)
theory Server_Branches
  imports Server_Session
begin

text \<open>
  The single operations of the server on every branch: the stored fields and the key they
  form, the location, the bill, and what happens when a database call or \<open>recv\<close> fails.
\<close>

section \<open>The stored fields\<close>

text \<open>
  C27: storing a checked frame gives the client the status byte, the two coordinates and the
  text of the MAC address, whose 18 bytes are never exceeded; two frames give the same text
  only if their six address bytes are the same, so the text is a key for the client.
\<close>

theorem stored_mac_identifies_client:
  assumes "length p = 10" and "length q = 10" and "st \<noteq> CRC8_TEST_FAILED"
    and "length (mac_address c) = MAC_ADDRESS_SIZE" and "length (mac_address d) = MAC_ADDRESS_SIZE"
  shows "\<exists>c' d'. store_client_data_in_struct st p c = Some (p ! 0, c') \<and>
    store_client_data_in_struct st q d = Some (q ! 0, d') \<and>
    x_axis c' = p ! 7 \<and> y_axis c' = p ! 8 \<and>
    (cstr (mac_address c') = cstr (mac_address d') \<longleftrightarrow> take 6 (drop 1 p) = take 6 (drop 1 q))"
proof -
  obtain m where m: "store_client_data_in_struct st p c =
      Some (p ! 0, c\<lparr>mac_address := m, x_axis := p ! 7, y_axis := p ! 8\<rparr>)"
    "cstr m = mac_text (take 6 (drop 1 p))"
    using store_client_data_ok [OF assms(1,4,3)] by (auto simp: drop_take)
  obtain n where n: "store_client_data_in_struct st q d =
      Some (q ! 0, d\<lparr>mac_address := n, x_axis := q ! 7, y_axis := q ! 8\<rparr>)"
    "cstr n = mac_text (take 6 (drop 1 q))"
    using store_client_data_ok [OF assms(2,5,3)] by (auto simp: drop_take)
  have "mac_text (take 6 (drop 1 p)) = mac_text (take 6 (drop 1 q)) \<longleftrightarrow> take 6 (drop 1 p) = take 6 (drop 1 q)"
    using mac_text_inject [of "take 6 (drop 1 p)" "take 6 (drop 1 q)"] assms(1,2) by auto
  with m n show ?thesis by simp
qed

theorem stored_mac_identifies_client_witness:
  "let p = [1, 1, 0x12, 3, 4, 5, 6, 10, 20, 0]; q = [1, 0x11, 2, 3, 4, 5, 6, 10, 20, 0]
   in \<exists>c' d'. store_client_data_in_struct 2 p zeroed_client = Some (p ! 0, c') \<and>
    store_client_data_in_struct 2 q zeroed_client = Some (q ! 0, d') \<and>
    x_axis c' = p ! 7 \<and> y_axis c' = p ! 8 \<and>
    (cstr (mac_address c') = cstr (mac_address d') \<longleftrightarrow> take 6 (drop 1 p) = take 6 (drop 1 q))"
  unfolding Let_def
  by (rule stored_mac_identifies_client) (simp_all add: status_defs zeroed_client_def)

section \<open>The location\<close>

text \<open>
  C31: the location of a client is the city of the quadrant of its coordinates, and ERROR for a
  coordinate above 127; with its NUL it always fits the twelve bytes of the record.
\<close>

theorem location_is_city_of_quadrant:
  assumes "length buff = LOCATION_SIZE"
  shows "\<exists>l. location_func x y buff = Some l \<and> length l = LOCATION_SIZE \<and> nul \<in> set l \<and>
    cstr l = (case city_of (unat x) (unat y) of Some city \<Rightarrow> city | None \<Rightarrow> ''ERROR'') \<and>
    (unat x \<le> 127 \<and> unat y \<le> 127 \<longrightarrow> cstr l \<in> set cities)"
proof -
  have "unat x \<le> 127 \<and> unat y \<le> 127 \<longrightarrow> location_name x y \<in> set cities"
    by (auto simp: location_name_def city_of_def cities_def)
  with location_func_ok [OF assms, of x y] show ?thesis unfolding location_name_def by auto
qed

theorem location_is_city_of_quadrant_witness:
  "\<exists>l. location_func 70 71 (replicate 12 nul) = Some l \<and> length l = LOCATION_SIZE \<and> nul \<in> set l \<and>
    cstr l = (case city_of (unat (70 :: byte)) (unat (71 :: byte)) of Some city \<Rightarrow> city | None \<Rightarrow> ''ERROR'') \<and>
    (unat (70 :: byte) \<le> 127 \<and> unat (71 :: byte) \<le> 127 \<longrightarrow> cstr l \<in> set cities)"
  by (rule location_is_city_of_quadrant) (simp add: size_defs)

section \<open>The bill\<close>

text \<open>
  C30: for a price that is a finite double, and unless the product of price and seconds overflows
  the range of \<open>double\<close> or is so small that its result would be subnormal, the bill holds the exact
  number of seconds between start and end, and a payment that is a finite double and differs from
  price times seconds by at most a relative error of 2^-53. Zero seconds or a price of zero
  are billed as zero.
\<close>

theorem bill_is_accurate:
  assumes "0 \<le> sint start" and "0 \<le> sint end" and "send_result w (sends w) \<noteq> -1" and "is_double p"
    and "p * of_int (sint end - sint start) = 0 \<or> 2 powi (- 1022) \<le> \<bar>p * of_int (sint end - sint start)\<bar>"
    and "\<bar>p * of_int (sint end - sint start)\<bar> \<le> max_double"
  shows "\<exists>pay w'. calculate_and_send_payment_data start end p fd w = Some w' \<and>
    outbox w' = outbox w @ [(fd, Doubles [pay, of_int (sint end - sint start)])] \<and> is_double pay \<and>
    \<bar>pay - p * of_int (sint end - sint start)\<bar> \<le> \<bar>p * of_int (sint end - sint start)\<bar> / 2 ^ 53"
proof -
  let ?d = "sint end - sint start"
  have sub: "int_sub end start = Some (end - start)" using assms(1,2) by (intro int_sub_nonneg)
  then have d: "double_of_int (end - start) = of_int ?d" using int_sub_Some by (simp add: double_of_int_exact)
  have "\<bar>double_mult p (of_int ?d) - p * of_int ?d\<bar> \<le> \<bar>p * of_int ?d\<bar> / 2 ^ 53"
    by (rule double_mult_error [OF assms(5)])
  moreover have "is_double (double_mult p (of_int ?d))" using assms(6) by (rule double_mult_finite)
  ultimately show ?thesis using sub d assms(3)
    by (auto simp: calculate_and_send_payment_data_def send_msg_def Let_def)
qed

theorem bill_is_accurate_witness:
  "\<exists>pay w'. calculate_and_send_payment_data 100 160 (3 / 8) 4 (demo_world []) = Some w' \<and>
    outbox w' = outbox (demo_world []) @ [(4, Doubles [pay, of_int (sint (160 :: int32) - sint (100 :: int32))])] \<and> is_double pay \<and>
    \<bar>pay - 3 / 8 * of_int (sint (160 :: int32) - sint (100 :: int32))\<bar> \<le>
      \<bar>3 / 8 * of_int (sint (160 :: int32) - sint (100 :: int32))\<bar> / 2 ^ 53"
proof -
  have "(2 :: rat) powi (- 1022) \<le> 2 powi 0" by (rule power_int_increasing) simp_all
  moreover have "round64 (3 / 8) = 3 / 8" using round64_scaled [of 3 "- 3"] by (simp add: power_int_def power_divide)
  ultimately show ?thesis
    by (intro bill_is_accurate) (simp_all add: demo_world_def is_double_def max_double_def)
qed

section \<open>Failing calls\<close>

text \<open>
  If \<open>recv\<close> fails, the thread handles the previous frame once more: the iteration is the
  one that receives the bytes already in its buffer.
\<close>

theorem recv_error_replays_last_frame:
  assumes "length (t_buff t) = 10"
  shows "pango_iteration eng Recv_error t w = pango_iteration eng (Received (t_buff t)) t w"
  using assms by (cases t) (auto simp: pango_iteration_def wait_for_data_from_client_def split: list.splits)

theorem recv_error_replays_last_frame_witness:
  "pango_iteration ref_engine Recv_error (thread_start zeroed_client) (demo_world []) =
   pango_iteration ref_engine (Received (t_buff (thread_start zeroed_client))) (thread_start zeroed_client) (demo_world [])"
  by (rule recv_error_replays_last_frame) (simp add: thread_start_def size_defs)

text \<open>
  If the lookup of a client cannot be prepared, the client is taken for a new one, even
  when its row is in the table.
\<close>

theorem failed_lookup_means_new_client:
  assumes "sqlite_contract eng tbl prices healthy" and "client_inv w c"
    and "sq_prepare eng (db_client w) (select_client_sql (cstr (mac_address c))) = (rc, st)" and "rc \<noteq> SQLITE_OK"
  shows "clinet_exist_in_database_check eng (mac_address c) chk w = Some (FALSE, w)"
proof -
  have "st = None" using sqlite_contract.prepare_failed [OF assms(1,3,4)] .
  moreover have "sq_step eng (db_client w) None = (SQLITE_MISUSE, None)"
    by (rule sqlite_contract.step_null [OF assms(1)])
  moreover have "SQLITE_MISUSE \<noteq> SQLITE_ROW" by (simp add: SQLITE_MISUSE_def SQLITE_ROW_def)
  ultimately show ?thesis using assms(3) client_inv_strings [OF assms(2)]
    by (simp add: clinet_exist_in_database_check_def clinet_exist_in_database_check_preparation_def
        prepare_client_def sprintf_local_def sql_lengths count_open_def finalize_def)
qed

theorem failed_lookup_means_new_client_witness:
  "let w = (demo_world demo_rows)\<lparr>db_client := (demo_db demo_rows)\<lparr>rd_broken := True\<rparr>\<rparr>
   in clinet_exist_in_database_check ref_engine (mac_address (zeroed_client\<lparr>client_fd := 4\<rparr>)) 0 w = Some (FALSE, w)"
proof -
  let ?w = "(demo_world demo_rows)\<lparr>db_client := (demo_db demo_rows)\<lparr>rd_broken := True\<rparr>\<rparr>"
  have inv: "client_inv ?w (zeroed_client\<lparr>client_fd := 4\<rparr>)"
    using client_inv_demo [of demo_rows 4] by (simp add: client_inv_def)
  have bad: "sq_prepare ref_engine (db_client ?w) sql = (SQLITE_IOERR, None)" for sql
    by (simp add: ref_engine_def ref_prepare_def)
  have ne: "SQLITE_IOERR \<noteq> SQLITE_OK" by (simp add: SQLITE_IOERR_def SQLITE_OK_def)
  show ?thesis unfolding Let_def
    by (rule failed_lookup_means_new_client [OF ref.sqlite_contract_axioms inv bad ne])
qed

text \<open>
  If the database refuses the update of a closing client, the thread ends without
  sending the client anything, neither a bill nor an error, and the client's row stays.
\<close>

theorem failed_close_is_silent:
  assumes "client_inv w (t_client t)" and "\<not> locked w"
    and "\<forall>sql. \<exists>rc. sq_exec eng (db_client w) sql = (rc, db_client w) \<and> (ucast rc :: byte) \<noteq> 0"
  shows "\<exists>t' w'. handle_close_app eng t w = Some (t', w') \<and> t_return_value t' = QUIT \<and>
    pango_exit eng t' w' = Some (t', w') \<and> outbox w' = outbox w \<and> db_client w' = db_client w"
proof -
  note str = client_inv_strings [OF assms(1)]
  define tv where "tv = clock w (ticks w)"
  define sql where "sql = update_time_sql (sint (word_of_int tv - time_start_parking (t_client t))) (cstr (mac_address (t_client t)))"
  obtain rc where rc: "sq_exec eng (db_client w) sql = (rc, db_client w)" "(ucast rc :: byte) \<noteq> 0"
    using assms(3) by blast
  have "length sql < 100" using length_fmt_d_sint [of "word_of_int tv - time_start_parking (t_client t)"] str(3)
    by (simp add: sql_def sql_lengths)
  then have "update_client_data eng (t_client t) (w\<lparr>locked := True\<rparr>) =
      Some (ERROR, word_of_int tv, w\<lparr>locked := True, ticks := ticks w + 1\<rparr>)"
    using str rc by (simp add: update_client_data_def gettimeofday_def sprintf_local_def exec_client_def
        SQLITE_OK_def tv_def sql_def Let_def)
  with assms(2) show ?thesis
    by (simp add: handle_close_app_def mutex_lock_def mutex_unlock_def pango_exit_def status_defs Let_def)
qed

theorem failed_close_is_silent_witness:
  "let w = (demo_world demo_rows)\<lparr>db_client := (demo_db demo_rows)\<lparr>rd_broken := True\<rparr>\<rparr>
   in \<exists>t' w'. handle_close_app ref_engine (thread_start (zeroed_client\<lparr>client_fd := 4\<rparr>)) w = Some (t', w') \<and>
     t_return_value t' = QUIT \<and> pango_exit ref_engine t' w' = Some (t', w') \<and>
     outbox w' = outbox w \<and> db_client w' = db_client w"
proof -
  let ?w = "(demo_world demo_rows)\<lparr>db_client := (demo_db demo_rows)\<lparr>rd_broken := True\<rparr>\<rparr>"
  have inv: "client_inv ?w (t_client (thread_start (zeroed_client\<lparr>client_fd := 4\<rparr>)))"
    using client_inv_demo [of demo_rows 4] by (simp add: client_inv_def thread_start_def)
  show ?thesis unfolding Let_def
    by (rule failed_close_is_silent [OF inv]) (simp_all add: ref_engine_def ref_exec_def SQLITE_IOERR_def)
qed

end
