(* ===== verification/Backup_Thread.thy ===== *)
theory Backup_Thread
  imports Server_Session "HOL-Library.Signed_Division"
begin

text \<open>
  The backup thread: \<open>db_update\<close> of \<open>db_update_thread.c\<close> and the functions of
  \<open>db_update_thread_func.c\<close>. It walks over the array of client records and saves the time used
  so far of every connected client. The records are shared with the client threads, so each
  iteration of the loop takes the flag \<open>return_thread\<close> and the records as they are then.
\<close>

section \<open>The operations\<close>

definition UPDATE_THREAD_MAX_NUM_CLIENTS :: nat where "UPDATE_THREAD_MAX_NUM_CLIENTS = 10"
definition NUMBER_OF_SECONDS_BETWEEN_BACKUPS :: int where "NUMBER_OF_SECONDS_BETWEEN_BACKUPS = 5"

definition set_start_time :: "'db world \<Rightarrow> int32 \<times> 'db world" where
  "set_start_time w = (let (tv_sec, w) = gettimeofday w in (word_of_int tv_sec, w))"

definition time_to_backup :: "int32 \<Rightarrow> 'db world \<Rightarrow> (byte \<times> 'db world) option" where
  "time_to_backup database_backup_start_time w = do {
     let (tv_sec, w) = gettimeofday w;
     d \<leftarrow> int_sub (word_of_int tv_sec) database_backup_start_time;
     Some (if sint d smod NUMBER_OF_SECONDS_BETWEEN_BACKUPS = 0 then TRUE else FALSE, w) }"

function update_clients_loop ::
    "('db, 'stmt) sqlite \<Rightarrow> pango_data list \<Rightarrow> nat \<Rightarrow> 'db world \<Rightarrow> 'db world option" where
  "update_clients_loop eng client i w =
     (if i < UPDATE_THREAD_MAX_NUM_CLIENTS
      then if i < length client
        then if connected (client ! i) = TRUE
          then do {
            let (tv_sec, w) = gettimeofday w;
            used \<leftarrow> int_sub (word_of_int tv_sec) (time_start_parking (client ! i));
            mac \<leftarrow> c_string (mac_address (client ! i));
            sql \<leftarrow> sprintf_local MAX_BUFF_SIZE (update_time_sql (sint used) mac);
            let (rc, w) = exec_client eng sql w;
            update_clients_loop eng client (i + 1) w }
          else update_clients_loop eng client (i + 1) w
        else None
      else Some w)"
  by pat_completeness auto
termination
  by (relation "measure (\<lambda>(_, _, i, _). UPDATE_THREAD_MAX_NUM_CLIENTS - i)") auto

declare update_clients_loop.simps [simp del]

definition update_clients ::
    "('db, 'stmt) sqlite \<Rightarrow> pango_data list \<Rightarrow> byte \<Rightarrow> 'db world \<Rightarrow> 'db world option" where
  "update_clients eng client is_backup_time w =
     (if is_backup_time \<noteq> TRUE then Some w else update_clients_loop eng client 0 w)"

definition return_database_update_thread ::
    "('db, 'stmt) sqlite \<Rightarrow> byte \<Rightarrow> pango_data list \<Rightarrow> byte \<Rightarrow> byte \<Rightarrow> 'db world
     \<Rightarrow> (byte \<times> byte \<times> 'db world) option" where
  "return_database_update_thread eng return_flag client is_backup_time quit_loop_flag w =
     (if return_flag \<noteq> TRUE then Some (is_backup_time, quit_loop_flag, w)
      else do {
        let quit_loop_flag = TRUE;
        let is_backup_time = TRUE;
        w \<leftarrow> update_clients eng client is_backup_time w;
        let is_backup_time = FALSE;
        Some (is_backup_time, quit_loop_flag, w) })"

definition db_update_iteration ::
    "('db, 'stmt) sqlite \<Rightarrow> int32 \<Rightarrow> byte \<Rightarrow> pango_data list \<Rightarrow> byte \<Rightarrow> 'db world \<Rightarrow> (byte \<times> 'db world) option" where
  "db_update_iteration eng start_time return_thread client quit_loop_flag w = do {
     w \<leftarrow> mutex_lock w;
     (is_backup_time, w) \<leftarrow> time_to_backup start_time w;
     (is_backup_time, quit_loop_flag, w) \<leftarrow>
       return_database_update_thread eng return_thread client is_backup_time quit_loop_flag w;
     w \<leftarrow> update_clients eng client is_backup_time w;
     w \<leftarrow> mutex_unlock w;
     Some (quit_loop_flag, w) }"

text \<open>
  The result says whether the thread has left the loop; when the list is used up it is still
  running.
\<close>

fun db_update_loop ::
    "('db, 'stmt) sqlite \<Rightarrow> int32 \<Rightarrow> (byte \<times> pango_data list) list \<Rightarrow> byte \<Rightarrow> 'db world
     \<Rightarrow> (bool \<times> 'db world) option" where
  "db_update_loop eng start_time envs quit_loop_flag w =
     (if quit_loop_flag = TRUE then Some (True, w)
      else case envs of
          [] \<Rightarrow> Some (False, w)
        | (return_thread, client) # envs \<Rightarrow> do {
            (quit_loop_flag, w) \<leftarrow> db_update_iteration eng start_time return_thread client quit_loop_flag w;
            db_update_loop eng start_time envs quit_loop_flag w })"

definition db_update ::
    "('db, 'stmt) sqlite \<Rightarrow> (byte \<times> pango_data list) list \<Rightarrow> 'db world \<Rightarrow> (bool \<times> 'db world) option" where
  "db_update eng envs w =
     (let (start_time, w) = set_start_time w in db_update_loop eng start_time envs 0 w)"

section \<open>What a backup writes\<close>

text \<open>The rows after a backup, and the number of clock readings, as a plain recursion.\<close>

fun save_all :: "(nat \<Rightarrow> int) \<Rightarrow> nat \<Rightarrow> pango_data list \<Rightarrow> parked list \<Rightarrow> parked list \<times> nat" where
  "save_all clk k [] rows = (rows, k)"
| "save_all clk k (c # cs) rows =
     (if connected c = TRUE
      then save_all clk (k + 1) cs (set_time (clk k - sint (time_start_parking c)) (cstr (mac_address c)) rows)
      else save_all clk k cs rows)"

definition active :: "pango_data list \<Rightarrow> string list" where
  "active cs = map (\<lambda>c. cstr (mac_address c)) (filter (\<lambda>c. connected c = TRUE) cs)"







text \<open>
  Row by row, also when several connected records have the same address: the later record
  overwrites what the earlier one wrote.
\<close>

lemma set_time_nth: "j < length rows \<Longrightarrow>
    set_time n mac rows ! j = (if p_mac (rows ! j) = mac then (rows ! j)\<lparr>p_time := n\<rparr> else rows ! j)"
  by (simp add: set_time_def)

lemma length_set_time [simp]: "length (set_time n mac rows) = length rows"
  by (simp add: set_time_def)

lemma save_all_nth_other:
  "j < length rows \<Longrightarrow> p_mac (rows ! j) \<notin> set (active cs) \<Longrightarrow> save_all clk k cs rows = (rows', k') \<Longrightarrow>
    rows' ! j = rows ! j"
  by (induction clk k cs rows rule: save_all.induct) (auto simp: active_def set_time_nth split: if_splits)

lemma save_all_nth_last:
  assumes "j < length rows" and "i < length cs" and "connected (cs ! i) = TRUE"
    and "cstr (mac_address (cs ! i)) = p_mac (rows ! j)" and "p_mac (rows ! j) \<notin> set (active (drop (Suc i) cs))"
    and "save_all clk k cs rows = (rows', k')"
  shows "rows' ! j =
    (rows ! j)\<lparr>p_time := clk (k + length (active (take i cs))) - sint (time_start_parking (cs ! i))\<rparr>"
  using assms
proof (induction clk k cs rows arbitrary: i rule: save_all.induct)
  case (2 clk k d ds rows)
  let ?n = "clk k - sint (time_start_parking d)"
  let ?rows = "set_time ?n (cstr (mac_address d)) rows"
  show ?case
  proof (cases i)
    case 0
    then have "p_mac (?rows ! j) \<notin> set (active ds)" "save_all clk (k + 1) ds ?rows = (rows', k')"
      using "2.prems" by (simp_all add: set_time_nth)
    then have "rows' ! j = ?rows ! j" using "2.prems"(1) by (intro save_all_nth_other) simp_all
    with 0 "2.prems"(1,4) show ?thesis by (simp add: set_time_nth active_def)
  next
    case (Suc m)
    note pr = "2.prems" [unfolded Suc]
    show ?thesis
    proof (cases "connected d = TRUE")
      case True
      have "p_mac (?rows ! j) = p_mac (rows ! j)" using pr(1) by (simp add: set_time_nth)
      then have "rows' ! j = (?rows ! j)\<lparr>p_time := clk (k + 1 + length (active (take m ds)))
          - sint (time_start_parking (ds ! m))\<rparr>"
        using "2.IH"(1) [OF True, of m] pr True by simp
      with Suc True pr(1) show ?thesis by (simp add: set_time_nth active_def)
    next
      case False
      then show ?thesis using "2.IH"(2) [OF False, of m] pr Suc by (simp add: active_def)
    qed
  qed
qed simp



lemma save_all_macs: "map p_mac (fst (save_all clk k cs rs)) = map p_mac rs"
  by (induction cs arbitrary: k rs) (auto simp: set_time_def)


section \<open>Safety and effect\<close>

context sqlite_contract
begin

lemma update_loop_ok:
  assumes "length cs = 10" and "\<forall>c\<in>set cs. client_inv w c" and "world_ok tbl w" and "i \<le> 10"
  shows "\<exists>w'. update_clients_loop eng cs i w = Some w' \<and> keeps tbl w w' \<and>
    (healthy (db_client w) \<longrightarrow> healthy (db_client w') \<and>
      save_all (clock w) (ticks w) (drop i cs) (tbl (db_client w)) = (tbl (db_client w'), ticks w'))"
  using assms(2-4)
proof (induction "10 - i" arbitrary: i w)
  case 0
  then show ?case using keeps_refl
    by (subst update_clients_loop.simps) (simp add: assms(1) UPDATE_THREAD_MAX_NUM_CLIENTS_def)
next
  case (Suc n)
  then have i: "i < 10" by simp
  let ?c = "cs ! i"
  have drop: "drop i cs = ?c # drop (i + 1) cs" using i assms(1) by (simp add: Cons_nth_drop_Suc)
  have ci: "client_inv w ?c" using Suc.prems(1) i assms(1) by simp
  show ?case
  proof (cases "connected ?c = TRUE")
    case False
    then have "update_clients_loop eng cs i w = update_clients_loop eng cs (i + 1) w"
      using i by (subst update_clients_loop.simps) (simp add: assms(1) UPDATE_THREAD_MAX_NUM_CLIENTS_def)
    moreover have "n = 10 - (i + 1)" using Suc.hyps(2) by simp
    ultimately show ?thesis using Suc.hyps(1) [of "i + 1" w] Suc.prems i drop False by simp
  next
    case True
    let ?now = "clock w (ticks w)" and ?s = "time_start_parking ?c" and ?mac = "cstr (mac_address ?c)"
    let ?sql = "update_time_sql (?now - sint ?s) ?mac" and ?w1 = "w\<lparr>ticks := ticks w + 1\<rparr>"
    have t: "gettimeofday w = (?now, ?w1)" by (simp add: gettimeofday_def)
    note g = gettimeofday_ok [OF t Suc.prems(2)] and str = client_inv_strings [OF ci]
    have r: "0 \<le> sint ?s" "sint ?s \<le> ?now" "?now < 2 ^ 31" "sint (word_of_int ?now :: int32) = ?now"
      using ci Suc.prems(2) clock_range [of w] by (auto simp: client_inv_def world_ok_def)
    then have sub: "int_sub (word_of_int ?now) ?s = Some (word_of_int ?now - ?s)" by (intro int_sub_nonneg) simp_all
    then have d: "sint (word_of_int ?now - ?s) = ?now - sint ?s" using int_sub_Some r(4) by fastforce
    obtain rc w2 where x: "exec_client eng ?sql ?w1 = (rc, w2)" by fastforce
    have "world_ok tbl w2 \<and> same_env ?w1 w2" using g r str(5) by (intro exec_update_ok [OF x]) simp_all
    then have k: "keeps tbl w w2" and tk: "clock w2 = clock w" "ticks w2 = ticks w + 1"
      using g(2) same_env_trans x by (auto simp: keeps_def same_env_def exec_client_def split: prod.splits)
    have "length (fmt_d (?now - sint ?s)) \<le> 11" using r by (intro length_fmt_d) simp_all
    then have "update_clients_loop eng cs i w = update_clients_loop eng cs (i + 1) w2"
      using i True t sub d x str
      by (subst update_clients_loop.simps)
         (simp add: assms(1) UPDATE_THREAD_MAX_NUM_CLIENTS_def sprintf_local_def sql_lengths size_defs)
    moreover have "healthy (db_client w2) \<and>
        tbl (db_client w2) = set_time (?now - sint ?s) ?mac (tbl (db_client w))" if "healthy (db_client w)"
    proof -
      obtain db' where db': "sq_exec eng (db_client w) ?sql = (rc, db')" "w2 = ?w1\<lparr>db_client := db'\<rparr>"
        using x by (auto simp: exec_client_def split: prod.splits)
      have "server_command ?sql" using str(5) by (auto simp: server_command_def plain_def)
      then have "rc = SQLITE_OK" "healthy db'" using exec_healthy [OF db'(1)] that by auto
      with db' exec_update [OF _ str(5)] show ?thesis by auto
    qed
    moreover have "\<forall>c\<in>set cs. client_inv w2 c" using Suc.prems(1,2) keeps_client_inv [OF k] by blast
    moreover have "n = 10 - (i + 1)" "i + 1 \<le> 10" "world_ok tbl w2" using Suc.hyps(2) k by (simp_all add: keeps_def)
    ultimately show ?thesis using Suc.hyps(1) [of "i + 1" w2] drop True tk keeps_trans [OF k] by auto
  qed
qed

lemma update_clients_ok:
  assumes "length cs = 10" and "\<forall>c\<in>set cs. client_inv w c" and "world_ok tbl w"
  shows "\<exists>w'. update_clients eng cs b w = Some w' \<and> keeps tbl w w' \<and>
    (healthy (db_client w) \<longrightarrow> healthy (db_client w') \<and>
      (if b = TRUE then save_all (clock w) (ticks w) cs (tbl (db_client w)) = (tbl (db_client w'), ticks w') else w' = w))"
  using update_loop_ok [OF assms, of 0] keeps_refl [OF assms(3)] by (auto simp: update_clients_def)

end

text \<open>
  A backup reads the MAC address and the start of the connected records and nothing else: what a
  client thread writes into its record before it sets \<open>connected\<close> is invisible to it.
\<close>

definition same_for_backup :: "pango_data \<Rightarrow> pango_data \<Rightarrow> bool" where
  "same_for_backup c d \<longleftrightarrow> (connected c = TRUE \<longleftrightarrow> connected d = TRUE) \<and>
     (connected c = TRUE \<longrightarrow> mac_address c = mac_address d \<and> time_start_parking c = time_start_parking d)"

lemma update_loop_reads:
  "list_all2 same_for_backup cs ds \<Longrightarrow> update_clients_loop eng cs i w = update_clients_loop eng ds i w"
proof (induction eng cs i w rule: update_clients_loop.induct)
  case (1 eng cs i w)
  have len: "length cs = length ds" using "1.prems" by (rule list_all2_lengthD)
  show ?case
  proof (cases "i < UPDATE_THREAD_MAX_NUM_CLIENTS \<and> i < length cs")
    case True
    then have s: "same_for_backup (cs ! i) (ds ! i)" using "1.prems" by (simp add: list_all2_nthD)
    show ?thesis
    proof (cases "connected (cs ! i) = TRUE")
      case on: True
      then show ?thesis using True s len "1.IH"(1) [OF _ _ on] "1.prems"
        by (subst (1 2) update_clients_loop.simps)
           (auto simp: same_for_backup_def gettimeofday_def split: prod.splits intro!: bind_option_cong)
    next
      case False
      then show ?thesis using True s len "1.IH"(2) "1.prems"
        by (subst (1 2) update_clients_loop.simps) (simp add: same_for_backup_def)
    qed
  next
    case False
    with len show ?thesis by (subst (1 2) update_clients_loop.simps) auto
  qed
qed

lemma backup_reads_only_connected:
  assumes "list_all2 same_for_backup cs ds"
  shows "db_update_iteration eng start flag cs quit w = db_update_iteration eng start flag ds quit w"
proof -
  have "update_clients eng cs = update_clients eng ds"
    by (intro ext) (simp add: update_clients_def update_loop_reads [OF assms])
  then show ?thesis unfolding db_update_iteration_def return_database_update_thread_def by (rule arg_cong)
qed

section \<open>Properties\<close>

definition demo_client :: "byte \<Rightarrow> int \<Rightarrow> string \<Rightarrow> pango_data" where
  "demo_client fd start mac = zeroed_client\<lparr>client_fd := fd, time_start_parking := word_of_int start,
     mac_address := mac @ replicate (18 - length mac) nul, connected := TRUE\<rparr>"

definition demo_clients :: "pango_data list" where
  "demo_clients = demo_client 4 900 ''aa:bb:cc:dd:ee:ff'' # replicate 9 zeroed_client"

lemma demo_clients_inv: "\<forall>c\<in>set demo_clients. client_inv (demo_world rows) c"
proof -
  have "client_inv (demo_world rows) (demo_client 4 900 ''aa:bb:cc:dd:ee:ff'')"
    by (simp add: demo_client_def client_inv_def client_ok_def zeroed_client_def cstr_def plain_def size_defs
        demo_world_def)
  moreover have "client_inv (demo_world rows) zeroed_client" using client_inv_demo [of rows 0]
    by (simp add: zeroed_client_def)
  ultimately show ?thesis by (auto simp: demo_clients_def)
qed

lemma iteration_keeps:
  assumes "sqlite_contract eng tbl prices healthy" and "world_ok tbl w" and "\<not> locked w"
    and "length cs = 10" and "\<forall>c\<in>set cs. client_inv w c" and "0 \<le> sint start"
  shows "\<exists>w'. db_update_iteration eng start flag cs quit w = Some (if flag = TRUE then TRUE else quit, w') \<and> keeps tbl w w' \<and>
    (healthy (db_client w) \<longrightarrow> healthy (db_client w') \<and> map p_mac (tbl (db_client w')) = map p_mac (tbl (db_client w)) \<and>
      (flag = TRUE \<longrightarrow> save_all (clock w) (ticks w + 1) cs (tbl (db_client w)) = (tbl (db_client w'), ticks w')))"
proof -
  let ?l = "w\<lparr>locked := True\<rparr>" and ?now = "clock w (ticks w)"
  let ?w1 = "?l\<lparr>ticks := ticks w + 1\<rparr>"
  have t: "gettimeofday ?l = (?now, ?w1)" by (simp add: gettimeofday_def)
  have k1: "keeps tbl ?l ?w1" using gettimeofday_keeps [OF t] assms(2) by simp
  have "sint (word_of_int ?now :: int32) = ?now" "0 \<le> ?now"
    using clock_range [of w "ticks w"] assms(2) by (auto simp: world_ok_def)
  then have "int_sub (word_of_int ?now) start = Some (word_of_int ?now - start)"
    using assms(6) by (intro int_sub_nonneg) simp_all
  then obtain b where b: "time_to_backup start ?l = Some (b, ?w1)" using t by (simp add: time_to_backup_def)
  have i1: "\<forall>c\<in>set cs. client_inv ?w1 c" "world_ok tbl ?w1"
    using keeps_client_inv [OF k1] assms(2,5) k1 by (auto simp: keeps_def)
  define b' where "b' = (if flag = TRUE then TRUE else b)"
  obtain w' where u: "update_clients eng cs b' ?w1 = Some w'" "keeps tbl ?w1 w'"
    "healthy (db_client ?w1) \<longrightarrow> healthy (db_client w') \<and>
      (if b' = TRUE then save_all (clock ?w1) (ticks ?w1) cs (tbl (db_client ?w1)) = (tbl (db_client w'), ticks w') else w' = ?w1)"
    using sqlite_contract.update_clients_ok [OF assms(1,4) i1] by blast
  have k: "keeps tbl ?l w'" using keeps_trans [OF k1 u(2)] .
  note cs = critical_section [OF assms(3), of w']
  have "db_update_iteration eng start flag cs quit w = Some (if flag = TRUE then TRUE else quit, w'\<lparr>locked := False\<rparr>)"
    using b cs(1,2) u(1) k
    by (cases "flag = TRUE")
       (simp_all add: db_update_iteration_def return_database_update_thread_def update_clients_def flag_defs
         keeps_def b'_def)
  moreover have "map p_mac (tbl (db_client w')) = map p_mac (tbl (db_client w))" if "healthy (db_client w)"
    using u(3) that save_all_macs [of "clock w" "ticks w + 1" cs "tbl (db_client w)"] by (cases "b' = TRUE") auto
  moreover have "save_all (clock w) (ticks w + 1) cs (tbl (db_client w)) = (tbl (db_client w'), ticks w')"
    if "healthy (db_client w)" "flag = TRUE" using u(3) that by (simp add: b'_def)
  ultimately show ?thesis using cs(3) k u(3) by (simp add: keeps_def)
qed

lemma backup_iteration_safe:
  assumes "sqlite_contract eng tbl prices healthy" and "world_ok tbl w" and "\<not> locked w"
    and "length cs = 10" and "\<forall>c\<in>set cs. client_inv w c" and "0 \<le> sint start"
  shows "\<exists>w'. db_update_iteration eng start flag cs quit w = Some (if flag = TRUE then TRUE else quit, w') \<and>
    \<not> locked w' \<and> open_stmts w' = open_stmts w \<and> world_ok tbl w'"
  using iteration_keeps [OF assms, of flag quit] assms(3) by (auto simp: keeps_def same_env_def)

declare db_update_loop.simps [simp del]

text \<open>The last rows are those of a backup of \<open>cs\<close> over a table with the vehicles of the first rows.\<close>

definition ends_with_backup :: "('db \<Rightarrow> parked list) \<Rightarrow> pango_data list \<Rightarrow> 'db world \<Rightarrow> 'db world \<Rightarrow> bool" where
  "ends_with_backup tbl cs w w' \<longleftrightarrow> (\<exists>k rows. ticks w \<le> k \<and> map p_mac rows = map p_mac (tbl (db_client w)) \<and>
     save_all (clock w) k cs rows = (tbl (db_client w'), ticks w'))"

lemma ends_with_backup_after:
  assumes "ends_with_backup tbl cs w1 w'" and "ticks w \<le> ticks w1" and "clock w1 = clock w"
    and "map p_mac (tbl (db_client w1)) = map p_mac (tbl (db_client w))"
  shows "ends_with_backup tbl cs w w'"
  using assms unfolding ends_with_backup_def by (metis order_trans)

text \<open>A run of the loop: it ends with the first iteration that sees \<open>return_thread\<close>.\<close>

lemma db_update_loop_ok:
  assumes "sqlite_contract eng tbl prices healthy" and "world_ok tbl w" and "\<not> locked w" and "0 \<le> sint start"
    and "\<forall>(flag, cs)\<in>set envs. length cs = 10 \<and> (\<forall>c\<in>set cs. client_inv w c)" and "quit \<noteq> TRUE"
  shows "\<exists>w'. db_update_loop eng start envs quit w = Some (\<exists>cs. (TRUE, cs) \<in> set envs, w') \<and> keeps tbl w w' \<and>
    (healthy (db_client w) \<and> (\<exists>cs. (TRUE, cs) \<in> set envs) \<longrightarrow>
      (\<exists>cs. (TRUE, cs) \<in> set envs \<and> ends_with_backup tbl cs w w'))"
  using assms(2,3,5,6)
proof (induction envs arbitrary: w quit)
  case Nil
  then show ?case using keeps_refl by (subst db_update_loop.simps) auto
next
  case (Cons e envs)
  obtain flag cs where e: "e = (flag, cs)" by fastforce
  have "length cs = 10" "\<forall>c\<in>set cs. client_inv w c" using Cons.prems(3) e by simp_all
  from iteration_keeps [OF assms(1) Cons.prems(1,2) this assms(4), of flag quit] obtain w1 where
    1: "db_update_iteration eng start flag cs quit w = Some (if flag = TRUE then TRUE else quit, w1)" "keeps tbl w w1"
      "healthy (db_client w) \<longrightarrow> healthy (db_client w1) \<and> map p_mac (tbl (db_client w1)) = map p_mac (tbl (db_client w)) \<and>
        (flag = TRUE \<longrightarrow> save_all (clock w) (ticks w + 1) cs (tbl (db_client w)) = (tbl (db_client w1), ticks w1))"
    by blast
  have step: "db_update_loop eng start (e # envs) quit w = db_update_loop eng start envs (if flag = TRUE then TRUE else quit) w1"
    using 1(1) Cons.prems(4) e by (subst db_update_loop.simps) simp
  show ?case
  proof (cases "flag = TRUE")
    case True
    then have "db_update_loop eng start (e # envs) quit w = Some (True, w1)"
      unfolding step by (subst db_update_loop.simps) simp
    moreover have "ends_with_backup tbl cs w w1" if "healthy (db_client w)"
      using 1(3) that True unfolding ends_with_backup_def by (intro exI [of _ "ticks w + 1"] exI [of _ "tbl (db_client w)"]) simp
    ultimately show ?thesis using True 1(2) e by auto
  next
    case False
    have w1: "world_ok tbl w1" "\<not> locked w1" "ticks w \<le> ticks w1" "clock w1 = clock w"
      using 1(2) Cons.prems(2) by (simp_all add: keeps_def same_env_def)
    have "\<forall>(flag, cs)\<in>set envs. length cs = 10 \<and> (\<forall>c\<in>set cs. client_inv w1 c)"
      using Cons.prems(1,3) keeps_client_inv [OF 1(2)] by fastforce
    from Cons.IH [OF w1(1,2) this Cons.prems(4)] obtain w2 where
      2: "db_update_loop eng start envs quit w1 = Some (\<exists>cs. (TRUE, cs) \<in> set envs, w2)" "keeps tbl w1 w2"
        "healthy (db_client w1) \<and> (\<exists>cs. (TRUE, cs) \<in> set envs) \<longrightarrow>
          (\<exists>cs. (TRUE, cs) \<in> set envs \<and> ends_with_backup tbl cs w1 w2)" by blast
    have "(\<exists>cs. (TRUE, cs) \<in> set (e # envs)) = (\<exists>cs. (TRUE, cs) \<in> set envs)" using False e by auto
    moreover have "\<exists>cs. (TRUE, cs) \<in> set (e # envs) \<and> ends_with_backup tbl cs w w2"
      if "healthy (db_client w)" "\<exists>cs. (TRUE, cs) \<in> set envs"
      using 1(3) 2(3) that ends_with_backup_after [OF _ w1(3,4)] by fastforce
    ultimately show ?thesis using 2(1,2) False step keeps_trans [OF 1(2) 2(2)] by auto
  qed
qed

text \<open>
  C26: the backup thread leaves its loop exactly when \<open>main\<close> has set \<open>return_thread\<close>. However
  the database fails, it never overflows an \<open>int\<close> or a buffer on the way and leaves the mutex
  free and the rows well formed; on a healthy database the last thing it does is to save the
  seconds of the connected clients as they are then, in a table with the same vehicles.
\<close>

theorem backup_ends_on_request:
  assumes "sqlite_contract eng tbl prices healthy" and "world_ok tbl w" and "\<not> locked w"
    and "\<forall>(flag, cs)\<in>set envs. length cs = 10 \<and> (\<forall>c\<in>set cs. client_inv w c)"
  shows "\<exists>w'. db_update eng envs w = Some (\<exists>cs. (TRUE, cs) \<in> set envs, w') \<and>
    \<not> locked w' \<and> open_stmts w' = open_stmts w \<and> world_ok tbl w' \<and>
    (healthy (db_client w) \<and> (\<exists>cs. (TRUE, cs) \<in> set envs) \<longrightarrow>
      (\<exists>cs. (TRUE, cs) \<in> set envs \<and> ends_with_backup tbl cs w w'))"
proof -
  let ?now = "clock w (ticks w)"
  let ?w1 = "w\<lparr>ticks := ticks w + 1\<rparr>"
  have t: "gettimeofday w = (?now, ?w1)" by (simp add: gettimeofday_def)
  note g = gettimeofday_ok [OF t assms(2)]
  have k: "keeps tbl w ?w1" using gettimeofday_keeps [OF t assms(2)] .
  have "0 \<le> sint (word_of_int ?now :: int32)" using clock_range [of w "ticks w"] assms(2) by (simp add: world_ok_def)
  moreover have "\<forall>(flag, cs)\<in>set envs. length cs = 10 \<and> (\<forall>c\<in>set cs. client_inv ?w1 c)"
    using assms(2,4) keeps_client_inv [OF k] by fastforce
  ultimately obtain w' where w': "db_update_loop eng (word_of_int ?now) envs 0 ?w1 = Some (\<exists>cs. (TRUE, cs) \<in> set envs, w')"
    "keeps tbl ?w1 w'"
    "healthy (db_client ?w1) \<and> (\<exists>cs. (TRUE, cs) \<in> set envs) \<longrightarrow>
      (\<exists>cs. (TRUE, cs) \<in> set envs \<and> ends_with_backup tbl cs ?w1 w')"
    using db_update_loop_ok [OF assms(1) g(1), of "word_of_int ?now" envs 0] assms(3) by (auto simp: flag_defs)
  have "db_update eng envs w = Some (\<exists>cs. (TRUE, cs) \<in> set envs, w')"
    using w'(1) t by (simp add: db_update_def set_start_time_def)
  moreover have "\<exists>cs. (TRUE, cs) \<in> set envs \<and> ends_with_backup tbl cs w w'"
    if "healthy (db_client w)" "\<exists>cs. (TRUE, cs) \<in> set envs"
    using w'(3) that ends_with_backup_after [of tbl _ ?w1 w' w] by auto
  ultimately show ?thesis using w'(2) assms(3) by (auto simp: keeps_def same_env_def)
qed

theorem backup_ends_on_request_witness:
  "\<exists>w'. db_update ref_engine [(FALSE, demo_clients), (TRUE, demo_clients)] (demo_world demo_rows) =
      Some (\<exists>cs. (TRUE, cs) \<in> set [(FALSE, demo_clients), (TRUE, demo_clients)], w') \<and>
    \<not> locked w' \<and> open_stmts w' = open_stmts (demo_world demo_rows) \<and> world_ok rd_rows w' \<and>
    (ref_healthy (db_client (demo_world demo_rows)) \<and> (\<exists>cs. (TRUE, cs) \<in> set [(FALSE, demo_clients), (TRUE, demo_clients)]) \<longrightarrow>
      (\<exists>cs. (TRUE, cs) \<in> set [(FALSE, demo_clients), (TRUE, demo_clients)] \<and>
        ends_with_backup rd_rows cs (demo_world demo_rows) w'))"
  using demo_clients_inv
  by (intro backup_ends_on_request [OF ref.sqlite_contract_axioms demo_world_ok [OF demo_rows_ok]])
     (simp_all add: demo_clients_def)

text \<open>
  C24: on a healthy database, a backup goes over the rows as follows. A row whose address is that of
  no connected record keeps its contents. Every other row gets the seconds from the start of the
  last connected record with its address to the clock reading the backup takes for that record;
  an earlier record with the same address (a second connection of the vehicle, or a record left
  marked by a corrupt frame) has no effect on it. Nothing but times changes.
\<close>

theorem backup_saves_connected_clients:
  assumes "sqlite_contract eng tbl prices healthy" and "world_ok tbl w" and "healthy (db_client w)"
    and "length cs = 10" and "\<forall>c\<in>set cs. client_inv w c" and "j < length (tbl (db_client w))"
  shows "\<exists>w'. update_clients eng cs TRUE w = Some w' \<and> map p_mac (tbl (db_client w')) = map p_mac (tbl (db_client w)) \<and>
    (p_mac (tbl (db_client w) ! j) \<notin> set (active cs) \<longrightarrow> tbl (db_client w') ! j = tbl (db_client w) ! j) \<and>
    (\<forall>i<10. connected (cs ! i) = TRUE \<and> cstr (mac_address (cs ! i)) = p_mac (tbl (db_client w) ! j) \<and>
        p_mac (tbl (db_client w) ! j) \<notin> set (active (drop (Suc i) cs)) \<longrightarrow>
      tbl (db_client w') ! j = (tbl (db_client w) ! j)\<lparr>p_time :=
        clock w (ticks w + length (active (take i cs))) - sint (time_start_parking (cs ! i))\<rparr>)"
proof -
  obtain w' where w': "update_clients_loop eng cs 0 w = Some w'"
    "save_all (clock w) (ticks w) cs (tbl (db_client w)) = (tbl (db_client w'), ticks w')"
    using sqlite_contract.update_loop_ok [OF assms(1,4,5,2), of 0] assms(3) by auto
  then have "map p_mac (tbl (db_client w')) = map p_mac (tbl (db_client w))"
    using save_all_macs [of "clock w" "ticks w" cs "tbl (db_client w)"] by simp
  with w'(1) save_all_nth_other [OF assms(6) _ w'(2)] save_all_nth_last [OF assms(6) _ _ _ _ w'(2)] assms(4)
  show ?thesis by (simp add: update_clients_def)
qed

text \<open>Two connections of one vehicle: the backup saves the seconds of the second.\<close>

definition demo_twice :: "pango_data list" where
  "demo_twice = demo_client 4 900 ''aa:bb:cc:dd:ee:ff'' # demo_client 5 940 ''aa:bb:cc:dd:ee:ff'' # replicate 8 zeroed_client"

lemma demo_twice_inv: "\<forall>c\<in>set demo_twice. client_inv (demo_world rows) c"
proof -
  have "client_inv (demo_world rows) (demo_client 5 940 ''aa:bb:cc:dd:ee:ff'')"
    by (simp add: demo_client_def client_inv_def client_ok_def zeroed_client_def cstr_def plain_def size_defs
        demo_world_def)
  with demo_clients_inv [of rows] show ?thesis by (auto simp: demo_twice_def demo_clients_def)
qed

theorem backup_saves_connected_clients_witness:
  "\<exists>w'. update_clients ref_engine demo_twice TRUE (demo_world demo_rows) = Some w' \<and>
    active demo_twice = [''aa:bb:cc:dd:ee:ff'', ''aa:bb:cc:dd:ee:ff''] \<and>
    rd_rows (db_client w') ! 0 = (hd demo_rows)\<lparr>p_time := 1010 - 940\<rparr>"
proof -
  have act: "active demo_twice = [''aa:bb:cc:dd:ee:ff'', ''aa:bb:cc:dd:ee:ff'']"
    "active (take 1 demo_twice) = [''aa:bb:cc:dd:ee:ff'']" "active (drop (Suc 1) demo_twice) = []"
    "connected (demo_twice ! 1) = TRUE" "cstr (mac_address (demo_twice ! 1)) = ''aa:bb:cc:dd:ee:ff''"
    "sint (time_start_parking (demo_twice ! 1)) = 940" "length demo_twice = 10"
    by (simp_all add: active_def demo_twice_def demo_client_def zeroed_client_def cstr_def flag_defs)
  have w: "rd_rows (db_client (demo_world demo_rows)) = demo_rows" "ref_healthy (db_client (demo_world demo_rows))"
    "p_mac (demo_rows ! 0) = ''aa:bb:cc:dd:ee:ff''" "demo_rows ! 0 = hd demo_rows" "0 < length demo_rows"
    "clock (demo_world demo_rows) (ticks (demo_world demo_rows) + 1) = 1010"
    by (simp_all add: demo_world_def demo_db_def demo_rows_def)
  from backup_saves_connected_clients [OF ref.sqlite_contract_axioms demo_world_ok [OF demo_rows_ok] w(2) act(7) demo_twice_inv, of 0]
  obtain w' where w': "update_clients ref_engine demo_twice TRUE (demo_world demo_rows) = Some w'"
    "\<forall>i<10. connected (demo_twice ! i) = TRUE \<and> cstr (mac_address (demo_twice ! i)) = p_mac (demo_rows ! 0) \<and>
        p_mac (demo_rows ! 0) \<notin> set (active (drop (Suc i) demo_twice)) \<longrightarrow>
      rd_rows (db_client w') ! 0 = (demo_rows ! 0)\<lparr>p_time := clock (demo_world demo_rows)
        (ticks (demo_world demo_rows) + length (active (take i demo_twice))) - sint (time_start_parking (demo_twice ! i))\<rparr>"
    using w(5) unfolding w(1) by blast
  from w'(2) [rule_format, of 1] have "rd_rows (db_client w') ! 0 = (hd demo_rows)\<lparr>p_time := 1010 - 940\<rparr>"
    using act w by simp
  with w'(1) act(1) show ?thesis by blast
qed






end
