(* ===== verification/Server_Threads.thy ===== *)
theory Server_Threads
  imports Backup_Thread
begin

text \<open>
  The server with all its threads. A client thread is cut into sections: the pieces of its
  loop body and exit with at most one critical section of the mutex. What a section does
  before and after it (reading the clock, writing the thread's own record, sending) is one step
  with it. A schedule says which thread runs its next section, which frame arrives where,
  when a connection is accepted and when the backup thread goes round its loop. The lemmas
  show that no schedule leads to undefined behaviour or leaves the mutex held, and that
  the sections of one thread, run one after the other, are the thread of \<open>Server_Thread\<close>.
\<close>

section \<open>The sections of a client thread\<close>

datatype pc = Receiving | Looking_up | Resuming | Entering | Inserting | Announcing | Closing | Leaving | Removing | Done

text \<open>The test of the \<open>while\<close> loop.\<close>

definition loop_pc :: "thread \<Rightarrow> pc" where
  "loop_pc t = (if t_return_value t = QUIT then Leaving else Receiving)"

text \<open>From \<open>recv\<close> to the \<open>switch\<close> on the status.\<close>

definition receive_section :: "recv_result \<Rightarrow> thread \<Rightarrow> 'db world \<Rightarrow> (pc \<times> thread \<times> 'db world) option" where
  "receive_section r t w = do {
     (lost, client, status, buff, w) \<leftarrow>
       wait_for_data_from_client r (t_client t) (t_status t) (t_buff t) w;
     let t = t\<lparr>t_client := client, t_status := status, t_buff := buff\<rparr>;
     if lost = CONNECTION_LOST then Some (Leaving, t\<lparr>t_return_value := QUIT\<rparr>, w)
     else do {
       t \<leftarrow> check_and_store t;
       Some (if t_status t = START_APP then Looking_up
             else if t_status t = CLOSE_APP then Closing else loop_pc t, t, w) } }"

text \<open>
  The lookup runs without the mutex. A new client is entered in three sections: its thread reads
  the clock and stores the city, inserts the row in a critical section, and then sends the
  city and marks the record as connected. The bill is sent before the row is removed, in a critical
  section of its own; a thread that has left its exit switch closes its socket.
\<close>

fun act_section ::
    "('db, 'stmt) sqlite \<Rightarrow> pc \<Rightarrow> thread \<Rightarrow> 'db world \<Rightarrow> (pc \<times> thread \<times> 'db world) option" where
  "act_section eng Looking_up t w = do {
     (exist, w) \<leftarrow> clinet_exist_in_database_check eng (mac_address (t_client t)) (t_checked t) w;
     Some (if exist = TRUE then Resuming
           else if new_client (t_checked t) = TRUE then Entering else loop_pc t, t, w) }"
| "act_section eng Resuming t w = do {
     (r, client, status, w) \<leftarrow> retriev_client_data eng (t_client t) (t_status t) w;
     let t = t\<lparr>t_client := client, t_status := status, t_return_value := r\<rparr>;
     if r = QUIT then Some (loop_pc t, t, w)
     else let t = t\<lparr>t_checked := TRUE\<rparr> in
       Some (if new_client (t_checked t) = TRUE then Entering else loop_pc t, t, w) }"
| "act_section eng Entering t w = do {
     (client, w) \<leftarrow> initialize_and_get_start_time (t_client t) w;
     Some (Inserting, t\<lparr>t_client := client\<rparr>, w) }"
| "act_section eng Inserting t w = do {
     (r, client, status, w) \<leftarrow> insert_new_client eng (t_client t) (t_status t) w;
     let t = t\<lparr>t_client := client, t_status := status, t_return_value := r\<rparr>;
     Some (if r = QUIT then loop_pc t else Announcing, t, w) }"
| "act_section eng Announcing t w = do {
     let (_, w) = send_client_location (t_client t) w;
     let t = t\<lparr>t_client := (t_client t)\<lparr>connected := TRUE\<rparr>\<rparr>;
     Some (loop_pc t, t, w) }"
| "act_section eng Closing t w = do {
     (t, w) \<leftarrow> handle_close_app eng t w;
     Some (loop_pc t, t, w) }"
| "act_section eng Leaving t w =
     (if t_status t = CLOSE_APP then do {
        w \<leftarrow> calculate_and_send_payment_data (time_start_parking (t_client t)) (t_end_time t)
               (price (t_client t)) (client_fd (t_client t)) w;
        Some (Removing, t, w) }
      else do {
        (t, w) \<leftarrow> pango_exit eng t w;
        Some (Done, t, close_fd (client_fd (t_client t)) w) })"
| "act_section eng Removing t w = do {
     w \<leftarrow> mutex_lock w;
     w \<leftarrow> remove_client_data eng (mac_address (t_client t)) w;
     w \<leftarrow> mutex_unlock w;
     Some (Done, t, close_fd (client_fd (t_client t)) w) }"
| "act_section eng _ t w = None"

section \<open>The server\<close>

text \<open>
  \<open>s_threads\<close> are the client threads in the order of their connections; thread \<open>i\<close> works on
  the record \<open>client[i]\<close>, which is its \<open>t_client\<close>. The backup thread reads the whole array.
\<close>

record 'db system =
  s_world :: "'db world"
  s_threads :: "(pc \<times> thread) list"
  s_quit :: byte

definition client_array :: "'db system \<Rightarrow> pango_data list" where
  "client_array s =
     map (\<lambda>(pc, t). t_client t) (s_threads s) @
     replicate (SERVER_MAX_NUM_CLIENTS - length (s_threads s)) zeroed_client"

datatype turn = Accept byte | Receive nat recv_result | Act nat | Backup

definition put_thread :: "nat \<Rightarrow> pc \<times> thread \<times> 'db world \<Rightarrow> 'db system \<Rightarrow> 'db system" where
  "put_thread i r s = (case r of (pc, t, w) \<Rightarrow> s\<lparr>s_world := w, s_threads := (s_threads s)[i := (pc, t)]\<rparr>)"

text \<open>
  One turn. A thread that is waiting for something else lets its turn pass. The main thread
  never sets \<open>return_thread\<close>; the connection after the tenth is stored outside of the array.
\<close>

fun take_turn :: "('db, 'stmt) sqlite \<Rightarrow> int32 \<Rightarrow> turn \<Rightarrow> 'db system \<Rightarrow> 'db system option" where
  "take_turn eng start (Accept fd) s =
     (if length (s_threads s) < SERVER_MAX_NUM_CLIENTS
      then Some (s\<lparr>s_threads := s_threads s @ [(Receiving, thread_start (zeroed_client\<lparr>client_fd := fd\<rparr>))]\<rparr>)
      else None)"
| "take_turn eng start (Receive i r) s =
     (if i < length (s_threads s) \<and> fst (s_threads s ! i) = Receiving
      then do {
        res \<leftarrow> receive_section r (snd (s_threads s ! i)) (s_world s);
        Some (put_thread i res s) }
      else Some s)"
| "take_turn eng start (Act i) s =
     (if i < length (s_threads s) \<and> fst (s_threads s ! i) \<notin> {Receiving, Done}
      then do {
        res \<leftarrow> act_section eng (fst (s_threads s ! i)) (snd (s_threads s ! i)) (s_world s);
        Some (put_thread i res s) }
      else Some s)"
| "take_turn eng start Backup s = do {
     (quit_loop_flag, w) \<leftarrow> db_update_iteration eng start FALSE (client_array s) (s_quit s) (s_world s);
     Some (s\<lparr>s_quit := quit_loop_flag, s_world := w\<rparr>) }"

fun run_schedule :: "('db, 'stmt) sqlite \<Rightarrow> int32 \<Rightarrow> turn list \<Rightarrow> 'db system \<Rightarrow> 'db system option" where
  "run_schedule eng start [] s = Some s"
| "run_schedule eng start (l # ls) s = take_turn eng start l s \<bind> run_schedule eng start ls"

definition server_system :: "'db world \<Rightarrow> 'db system" where
  "server_system w = \<lparr>s_world = w, s_threads = [], s_quit = 0\<rparr>"

fun accepts :: "turn list \<Rightarrow> nat" where
  "accepts [] = 0"
| "accepts (Accept fd # ls) = Suc (accepts ls)"
| "accepts (l # ls) = accepts ls"

lemma run_schedule_append:
  "run_schedule eng start (ls @ ms) s = run_schedule eng start ls s \<bind> run_schedule eng start ms"
  by (induction ls arbitrary: s) (auto split: Option.bind_split)

section \<open>What a section keeps\<close>

text \<open>Between two sections the mutex is free; sockets may be closed.\<close>

definition evolves :: "('db \<Rightarrow> parked list) \<Rightarrow> 'db world \<Rightarrow> 'db world \<Rightarrow> bool" where
  "evolves tbl w w' \<longleftrightarrow>
     world_ok tbl w' \<and> \<not> locked w' \<and> clock w' = clock w \<and> ticks w \<le> ticks w' \<and>
     open_stmts w' = open_stmts w \<and> sent_more (outbox w) (outbox w')"

lemma evolves_refl: "world_ok tbl w \<Longrightarrow> \<not> locked w \<Longrightarrow> evolves tbl w w"
  by (simp add: evolves_def)

lemma evolves_trans: "evolves tbl w w' \<Longrightarrow> evolves tbl w' w'' \<Longrightarrow> evolves tbl w w''"
  using sent_more_trans by (auto simp: evolves_def)

lemma keeps_evolves: "keeps tbl w w' \<Longrightarrow> \<not> locked w \<Longrightarrow> evolves tbl w w'"
  by (simp add: evolves_def keeps_def same_env_def)

lemma evolves_close_fd [simp]: "evolves tbl w (close_fd fd w') = evolves tbl w w'"
  by (simp add: evolves_def close_fd_def)

lemma evolves_client_inv:
  assumes "evolves tbl w w'" and "world_ok tbl w" and "client_inv w c"
  shows "client_inv w' c"
proof -
  have "clock w (ticks w) \<le> clock w (ticks w')"
    using assms(1,2) by (auto simp: evolves_def world_ok_def clock_ok_def dest: monoD)
  with assms show ?thesis by (auto simp: client_inv_def evolves_def)
qed

text \<open>A thread that is not done satisfies the loop's invariant, and every record its own.\<close>

definition slot_inv :: "('db \<Rightarrow> parked list) \<Rightarrow> 'db world \<Rightarrow> pc \<times> thread \<Rightarrow> bool" where
  "slot_inv tbl w slot \<longleftrightarrow>
     client_inv w (t_client (snd slot)) \<and> (fst slot \<noteq> Done \<longrightarrow> thread_inv tbl (snd slot) w)"

lemma slot_inv_thread: "thread_inv tbl t w \<Longrightarrow> slot_inv tbl w (pc, t)"
  by (simp add: slot_inv_def thread_inv_def)

lemma slot_inv_later:
  assumes "evolves tbl w w'" and "world_ok tbl w" and "slot_inv tbl w slot"
  shows "slot_inv tbl w' slot"
  using assms evolves_client_inv [OF assms(1,2)]
  by (auto simp: slot_inv_def thread_inv_def evolves_def)

lemma receive_section_ok:
  assumes "thread_inv tbl t w"
  shows "\<exists>pc' t' w'. receive_section r t w = Some (pc', t', w') \<and> evolves tbl w w' \<and> thread_inv tbl t' w'"
proof -
  have a: "world_ok tbl w" "\<not> locked w" using assms by (simp_all add: thread_inv_def)
  show ?thesis
  proof (cases "r = Received []")
    case True
    with assms a show ?thesis
      by (auto simp: receive_section_def wait_for_data_from_client_def mutex_lock_def mutex_unlock_def
          thread_inv_def evolves_def)
  next
    case False
    define buff where "buff = (case r of Received bs \<Rightarrow> take 10 bs @ drop (length (take 10 bs)) (t_buff t) | _ \<Rightarrow> t_buff t)"
    let ?t = "t\<lparr>t_buff := buff\<rparr>"
    have len: "length (t_buff t) = 10" using assms by (simp add: thread_inv_def size_defs)
    have "thread_inv tbl ?t w" using assms by (auto simp: thread_inv_def buff_def size_defs split: recv_result.splits)
    then obtain t' where "check_and_store ?t = Some t'" "thread_inv tbl t' w" using check_and_store_ok by blast
    with False len evolves_refl [OF a] show ?thesis
      by (auto simp: receive_section_def wait_for_data_from_client_def buff_def status_defs
          split: recv_result.splits list.splits)
  qed
qed

lemma exit_record:
  "pango_exit eng t w = Some (t', w') \<Longrightarrow> t_client t' = t_client t"
  by (auto simp: pango_exit_def Let_def split: if_splits Option.bind_splits prod.splits)

context sqlite_contract
begin

lemma act_section_ok:
  assumes "thread_inv tbl t w" and "pc \<notin> {Receiving, Done}"
  shows "\<exists>pc' t' w'. act_section eng pc t w = Some (pc', t', w') \<and> evolves tbl w w' \<and> slot_inv tbl w' (pc', t')"
proof -
  let ?c = "t_client t"
  have a: "world_ok tbl w" "client_inv w ?c" "\<not> locked w" "0 \<le> sint (t_end_time t)"
    "length (t_buff t) = CLIENT_DATA_BUFFER_SIZE" using assms(1) by (simp_all add: thread_inv_def)
  have inv: "thread_inv tbl (t\<lparr>t_client := c', t_status := st', t_return_value := r, t_checked := chk\<rparr>) w'"
    if "keeps tbl w w'" "client_inv w' c'" for c' st' r chk w'
    using that a keeps_evolves [OF that(1) a(3)] by (simp add: thread_inv_def evolves_def)
  show ?thesis
  proof (cases pc)
    case Looking_up
    obtain e where "clinet_exist_in_database_check eng (mac_address ?c) (t_checked t) w = Some (e, w)"
      using lookup_ok [OF a(2)] by blast
    with Looking_up assms(1) evolves_refl [OF a(1,3)] show ?thesis by (simp add: slot_inv_thread)
  next
    case Resuming
    obtain r c' st' w' where r: "retriev_client_data eng ?c (t_status t) w = Some (r, c', st', w')"
      "keeps tbl w w'" "client_inv w' c'" using retriev_ok [OF a(2,1,3)] by blast
    have "thread_inv tbl (t\<lparr>t_client := c', t_status := st', t_return_value := r\<rparr>) w'"
      using inv [OF r(2,3), where st' = st' and r = r and chk = "t_checked t"] by simp
    with Resuming r(1) inv [OF r(2,3), where st' = st' and r = r and chk = TRUE] keeps_evolves [OF r(2) a(3)] show ?thesis
      by (auto intro!: slot_inv_thread simp: Let_def)
  next
    case Entering
    obtain c' w' where r: "initialize_and_get_start_time ?c w = Some (c', w')" "keeps tbl w w'" "client_inv w' c'"
      using start_time_ok [OF a(2,1)] by blast
    from inv [OF r(2,3), where st' = "t_status t" and r = "t_return_value t" and chk = "t_checked t"]
      Entering r(1) keeps_evolves [OF r(2) a(3)] show ?thesis by (auto intro!: slot_inv_thread)
  next
    case Inserting
    obtain r p st' w' where r: "insert_new_client eng ?c (t_status t) w = Some (r, ?c\<lparr>price := p\<rparr>, st', w')"
      "keeps tbl w w'" "client_inv w' (?c\<lparr>price := p\<rparr>)" using insert_new_ok [OF a(2,1,3)] by blast
    from inv [OF r(2,3), where st' = st' and r = r and chk = "t_checked t"] Inserting r(1) keeps_evolves [OF r(2) a(3)]
    show ?thesis by (auto intro!: slot_inv_thread simp: Let_def)
  next
    case Announcing
    obtain q w' where r: "send_client_location ?c w = (q, w')" by fastforce
    then have k: "keeps tbl w w'" using announce_ok [OF a(2,1)] by simp
    have "client_inv w' (?c\<lparr>connected := TRUE\<rparr>)" using keeps_client_inv [OF k a(1,2)] by simp
    from inv [OF k this, where st' = "t_status t" and r = "t_return_value t" and chk = "t_checked t"]
      Announcing r keeps_evolves [OF k a(3)] show ?thesis by (auto intro!: slot_inv_thread simp: Let_def)
  next
    case Closing
    with handle_close_ok [OF assms(1)] keeps_evolves [OF _ a(3)] slot_inv_thread show ?thesis by fastforce
  next
    case Leaving
    show ?thesis
    proof (cases "t_status t = CLOSE_APP")
      case True
      obtain w' where w': "calculate_and_send_payment_data (time_start_parking ?c) (t_end_time t)
          (price ?c) (client_fd ?c) w = Some w'" "keeps tbl w w'"
        using payment_ok [OF a(2,1,4)] by blast
      note e = keeps_evolves [OF w'(2) a(3)]
      have "slot_inv tbl w' (Removing, t)" using slot_inv_later [OF e a(1)] assms(1) slot_inv_thread by blast
      with w'(1) e True Leaving show ?thesis by simp
    next
      case False
      obtain t' w' where x: "pango_exit eng t w = Some (t', w')" "keeps tbl w w'" using pango_exit_ok [OF assms(1)] by blast
      note e = keeps_evolves [OF x(2) a(3)]
      have "client_inv (close_fd (client_fd ?c) w') (t_client t')"
        using evolves_client_inv [OF e a(1,2)] exit_record [OF x(1)] by (simp add: close_fd_def client_inv_def)
      with x(1) e exit_record [OF x(1)] False Leaving show ?thesis by (simp add: slot_inv_def)
    qed
  next
    case Removing
    have l: "world_ok tbl (w\<lparr>locked := True\<rparr>)" "client_inv (w\<lparr>locked := True\<rparr>) ?c" using a by simp_all
    obtain w' where r: "remove_client_data eng (mac_address ?c) (w\<lparr>locked := True\<rparr>) = Some w'"
      "keeps tbl (w\<lparr>locked := True\<rparr>) w'" using remove_client_data_ok [OF l(2,1)] by blast
    note cs = critical_section [OF a(3), of w']
    have e: "evolves tbl w (w'\<lparr>locked := False\<rparr>)" using cs(3) r(2) a(3) by (simp add: evolves_def keeps_def same_env_def)
    have "client_inv (close_fd (client_fd ?c) (w'\<lparr>locked := False\<rparr>)) ?c"
      using evolves_client_inv [OF e a(1,2)] by (simp add: close_fd_def client_inv_def)
    with Removing r cs e show ?thesis by (simp add: slot_inv_def keeps_def)
  qed (use assms(2) in simp_all)
qed

end

section \<open>Every schedule\<close>

definition system_ok :: "('db \<Rightarrow> parked list) \<Rightarrow> 'db system \<Rightarrow> bool" where
  "system_ok tbl s \<longleftrightarrow>
     world_ok tbl (s_world s) \<and> \<not> locked (s_world s) \<and> length (s_threads s) \<le> SERVER_MAX_NUM_CLIENTS \<and>
     (\<forall>slot\<in>set (s_threads s). slot_inv tbl (s_world s) slot)"

lemma put_thread_ok:
  assumes "system_ok tbl s" and "evolves tbl (s_world s) w'" and "slot_inv tbl w' (pc, t)"
  shows "system_ok tbl (put_thread i (pc, t, w') s)"
proof -
  have "slot_inv tbl w' slot" if "slot \<in> set ((s_threads s)[i := (pc, t)])" for slot
  proof -
    have "slot = (pc, t) \<or> slot \<in> set (s_threads s)"
      using that set_update_subset_insert [of "s_threads s" i "(pc, t)"] by blast
    then show ?thesis using assms(1,3) slot_inv_later [OF assms(2), of slot] by (auto simp: system_ok_def)
  qed
  with assms(1,2) show ?thesis by (auto simp: put_thread_def system_ok_def evolves_def)
qed

lemma client_array_inv:
  assumes "system_ok tbl s"
  shows "length (client_array s) = 10" and "\<forall>c\<in>set (client_array s). client_inv (s_world s) c"
proof -
  show "length (client_array s) = 10" using assms by (simp add: client_array_def system_ok_def size_defs)
  have "client_inv (s_world s) zeroed_client"
    using client_inv_zeroed [of "s_world s" 0] assms by (simp add: system_ok_def world_ok_def zeroed_client_def)
  with assms show "\<forall>c\<in>set (client_array s). client_inv (s_world s) c"
    by (auto simp: client_array_def system_ok_def slot_inv_def)
qed

lemma turn_ok:
  assumes "sqlite_contract eng tbl prices healthy" and "system_ok tbl s" and "0 \<le> sint start"
    and "length (s_threads s) + accepts [l] \<le> SERVER_MAX_NUM_CLIENTS"
  shows "\<exists>s'. take_turn eng start l s = Some s' \<and> system_ok tbl s' \<and> evolves tbl (s_world s) (s_world s') \<and>
    length (s_threads s') = length (s_threads s) + accepts [l]"
proof -
  have w: "world_ok tbl (s_world s)" "\<not> locked (s_world s)" using assms(2) by (simp_all add: system_ok_def)
  note stay = evolves_refl [OF w]
  have slot: "slot_inv tbl (s_world s) (s_threads s ! i)" if "i < length (s_threads s)" for i
    using that assms(2) by (simp add: system_ok_def)
  show ?thesis
  proof (cases l)
    case (Accept fd)
    have "client_inv (s_world s) (zeroed_client\<lparr>client_fd := fd\<rparr>)"
      using w(1) by (intro client_inv_zeroed) (simp add: world_ok_def)
    then have "slot_inv tbl (s_world s) (Receiving, thread_start (zeroed_client\<lparr>client_fd := fd\<rparr>))"
      using w by (intro slot_inv_thread thread_inv_start)
    with Accept assms(2,4) stay show ?thesis by (auto simp: system_ok_def)
  next
    case (Receive i r)
    show ?thesis
    proof (cases "i < length (s_threads s) \<and> fst (s_threads s ! i) = Receiving")
      case True
      then have "thread_inv tbl (snd (s_threads s ! i)) (s_world s)" using slot [of i] by (simp add: slot_inv_def)
      from receive_section_ok [OF this, of r] obtain pc t w' where
        "receive_section r (snd (s_threads s ! i)) (s_world s) = Some (pc, t, w')"
        "evolves tbl (s_world s) w'" "thread_inv tbl t w'" by blast
      with True Receive put_thread_ok [OF assms(2), of w' pc t i] slot_inv_thread show ?thesis
        by (auto simp: put_thread_def)
    qed (use Receive assms(2) stay in auto)
  next
    case (Act i)
    show ?thesis
    proof (cases "i < length (s_threads s) \<and> fst (s_threads s ! i) \<notin> {Receiving, Done}")
      case True
      then have "thread_inv tbl (snd (s_threads s ! i)) (s_world s)" using slot [of i] by (simp add: slot_inv_def)
      from sqlite_contract.act_section_ok [OF assms(1) this, of "fst (s_threads s ! i)"] True obtain pc t w' where
        "act_section eng (fst (s_threads s ! i)) (snd (s_threads s ! i)) (s_world s) = Some (pc, t, w')"
        "evolves tbl (s_world s) w'" "slot_inv tbl w' (pc, t)" by blast
      with True Act put_thread_ok [OF assms(2), of w' pc t i] show ?thesis by (auto simp: put_thread_def)
    qed (use Act assms(2) stay in auto)
  next
    case Backup
    from iteration_keeps [OF assms(1) w client_array_inv [OF assms(2)] assms(3), of FALSE "s_quit s"]
    obtain w' where b: "db_update_iteration eng start FALSE (client_array s) (s_quit s) (s_world s) = Some (s_quit s, w')"
      "keeps tbl (s_world s) w'" by (auto simp: flag_defs)
    note e = keeps_evolves [OF b(2) w(2)]
    with Backup b(1) assms(2) slot_inv_later [OF e w(1)] show ?thesis
      by (auto simp: system_ok_def evolves_def)
  qed
qed

lemma schedule_ok:
  assumes "sqlite_contract eng tbl prices healthy" and "system_ok tbl s" and "0 \<le> sint start"
    and "length (s_threads s) + accepts ls \<le> SERVER_MAX_NUM_CLIENTS"
  shows "\<exists>s'. run_schedule eng start ls s = Some s' \<and> system_ok tbl s' \<and> evolves tbl (s_world s) (s_world s') \<and>
    length (s_threads s') = length (s_threads s) + accepts ls"
  using assms(2,4)
proof (induction ls arbitrary: s)
  case Nil
  then show ?case using evolves_refl by (auto simp: system_ok_def)
next
  case (Cons l ls)
  have acc: "accepts (l # ls) = accepts [l] + accepts ls" by (cases l) auto
  obtain s1 where 1: "take_turn eng start l s = Some s1" "system_ok tbl s1" "evolves tbl (s_world s) (s_world s1)"
    "length (s_threads s1) = length (s_threads s) + accepts [l]"
    using turn_ok [OF assms(1) Cons.prems(1) assms(3)] Cons.prems(2) acc by force
  with Cons.IH [OF 1(2)] Cons.prems(2) acc obtain s2 where
    2: "run_schedule eng start ls s1 = Some s2" "system_ok tbl s2" "evolves tbl (s_world s1) (s_world s2)"
      "length (s_threads s2) = length (s_threads s1) + accepts ls" by auto
  show ?case using 1(1,4) 2(1,2,4) evolves_trans [OF 1(3) 2(3)] acc by (simp del: accepts.simps)
qed

text \<open>
  In every interleaving of up to ten client threads and the backup thread, whatever
  arrives on the sockets and however the databases fail, no section has undefined behaviour
  or waits for a mutex that is never freed; between any two sections the mutex is free,
  every prepared statement is finalized, the rows are well formed with no time in the future,
  and every message sent is a location, a bill or the text ERROR.
\<close>

theorem every_schedule_is_safe:
  assumes "sqlite_contract eng tbl prices healthy" and "world_ok tbl w" and "\<not> locked w" and "0 \<le> sint start"
    and "accepts ls \<le> SERVER_MAX_NUM_CLIENTS"
  shows "\<exists>s. run_schedule eng start ls (server_system w) = Some s \<and> \<not> locked (s_world s) \<and>
    open_stmts (s_world s) = open_stmts w \<and> world_ok tbl (s_world s) \<and> sent_more (outbox w) (outbox (s_world s))"
proof -
  have "system_ok tbl (server_system w)" "accepts ls + length (s_threads (server_system w)) \<le> SERVER_MAX_NUM_CLIENTS"
    using assms by (simp_all add: system_ok_def server_system_def)
  with schedule_ok [OF assms(1) _ assms(4), of "server_system w" ls] show ?thesis
    by (auto simp: evolves_def server_system_def)
qed

theorem every_schedule_is_safe_witness:
  "\<exists>s. run_schedule ref_engine 900
      [Accept 4, Receive 0 (Received demo_start), Accept 5, Act 0, Receive 1 (Received [1, 2]), Backup, Act 0, Act 1]
      (server_system (demo_world demo_rows)) = Some s \<and> \<not> locked (s_world s) \<and>
    open_stmts (s_world s) = open_stmts (demo_world demo_rows) \<and> world_ok rd_rows (s_world s) \<and>
    sent_more (outbox (demo_world demo_rows)) (outbox (s_world s))"
  by (rule every_schedule_is_safe [OF ref.sqlite_contract_axioms])
     (simp_all add: demo_world_ok [OF demo_rows_ok] size_defs)

section \<open>The sections are the thread\<close>

text \<open>
  A thread that runs alone: after each result of \<open>recv\<close> it gets four turns, enough for
  looking up, entering or resuming, leaving and removing; a turn it does not need passes.
\<close>

definition alone :: "nat \<Rightarrow> recv_result list \<Rightarrow> turn list" where
  "alone i rs = concat (map (\<lambda>r. [Receive i r, Act i, Act i, Act i, Act i]) rs)"

definition act :: "('db, 'stmt) sqlite \<Rightarrow> pc \<times> thread \<times> 'db world \<Rightarrow> (pc \<times> thread \<times> 'db world) option" where
  "act eng c = (case c of (pc, t, w) \<Rightarrow>
     if pc \<in> {Receiving, Done} then Some (pc, t, w) else act_section eng pc t w)"

definition finished :: "('db, 'stmt) sqlite \<Rightarrow> thread \<times> 'db world \<Rightarrow> (pc \<times> thread \<times> 'db world) option" where
  "finished eng c = (case c of (t, w) \<Rightarrow>
     if t_return_value t = QUIT
     then do { (t, w) \<leftarrow> pango_exit eng t w; Some (Done, t, close_fd (client_fd (t_client t)) w) }
     else Some (Receiving, t, w))"

lemma act_twice:
  "act eng (loop_pc t, t, w) \<bind> act eng = finished eng (t, w)"
  by (auto simp: loop_pc_def finished_def act_def pango_exit_def Let_def status_defs split: Option.bind_split prod.splits)

lemma act_finished: "finished eng c \<bind> act eng = finished eng c"
  by (auto simp: finished_def act_def split: prod.splits Option.bind_split)

lemma insert_new_status:
  assumes "insert_new_client eng c st w = Some (r, c', st', w')"
  shows "if r = QUIT then st' = ERROR_STATUS_IN_NEW_CLIENT_SUBFUNCTIONS else r = STAY"
  using assms by (auto simp: insert_new_client_def Option.bind_eq_Some_conv flag_defs split: if_splits)

lemma act_enter:
  "act eng (Entering, t, w) \<bind> act eng \<bind> act eng = do {
     (r, client, status, w) \<leftarrow> process_client_data eng (t_client t) (t_status t) w;
     let client = (if r \<noteq> QUIT then client\<lparr>connected := TRUE\<rparr> else client);
     finished eng (t\<lparr>t_client := client, t_status := status, t_return_value := r\<rparr>, w) }"
proof (cases "initialize_and_get_start_time (t_client t) w")
  case None
  then show ?thesis by (simp add: act_def process_client_data_def)
next
  case (Some cw)
  obtain c1 w1 where cw: "cw = (c1, w1)" by fastforce
  have 1: "act eng (Entering, t, w) = Some (Inserting, t\<lparr>t_client := c1\<rparr>, w1)" using Some cw by (simp add: act_def)
  show ?thesis
  proof (cases "insert_new_client eng c1 (t_status t) w1")
    case None
    then show ?thesis unfolding 1 using Some cw by (simp add: act_def process_client_data_def)
  next
    case ins: (Some x)
    obtain r c2 st w2 where x: "x = (r, c2, st, w2)" by (metis prod_cases4)
    let ?t = "t\<lparr>t_client := c2, t_status := st, t_return_value := r\<rparr>"
    have 2: "act eng (Inserting, t\<lparr>t_client := c1\<rparr>, w1) = Some (if r = QUIT then loop_pc ?t else Announcing, ?t, w2)"
      using ins x by (simp add: act_def Let_def)
    have st: "if r = QUIT then st = ERROR_STATUS_IN_NEW_CLIENT_SUBFUNCTIONS else r = STAY"
      using insert_new_status ins x by blast
    obtain q w3 where s: "send_client_location c2 w2 = (q, w3)" by fastforce
    show ?thesis
    proof (cases "r = QUIT")
      case True
      with 1 2 st Some cw ins x show ?thesis
        by (simp add: act_def loop_pc_def finished_def process_client_data_def status_defs)
    next
      case False
      with 1 2 st Some cw ins x s show ?thesis
        by (simp add: act_def loop_pc_def finished_def process_client_data_def flag_defs)
    qed
  qed
qed

lemma act_start:
  "act eng (Looking_up, t, w) \<bind> act eng \<bind> act eng \<bind> act eng = handle_start_app eng t w \<bind> finished eng"
proof (cases "clinet_exist_in_database_check eng (mac_address (t_client t)) (t_checked t) w")
  case None
  then show ?thesis by (simp add: act_def handle_start_app_def)
next
  case (Some ew)
  obtain e w1 where ew: "ew = (e, w1)" by fastforce
  show ?thesis
  proof (cases "e = TRUE")
    case True
    have new: "new_client TRUE \<noteq> TRUE" by (simp add: new_client_def flag_defs)
    have "act eng (Looking_up, t, w) = Some (Resuming, t, w1)" using Some ew True by (simp add: act_def)
    with Some ew True new show ?thesis
      by (cases "retriev_client_data eng (t_client t) (t_status t) w1")
         (auto simp: act_def [of eng "(Resuming, t, w1)"] handle_start_app_def act_twice Let_def)
  next
    case False
    show ?thesis
    proof (cases "new_client (t_checked t) = TRUE")
      case True
      have "act eng (Looking_up, t, w) = Some (Entering, t, w1)" using Some ew False True by (simp add: act_def)
      then have "act eng (Looking_up, t, w) \<bind> act eng \<bind> act eng \<bind> act eng = act eng (Entering, t, w1) \<bind> act eng \<bind> act eng"
        by simp
      with Some ew False True show ?thesis unfolding act_enter
        by (cases "process_client_data eng (t_client t) (t_status t) w1") (auto simp: handle_start_app_def Let_def)
    next
      case known: False
      have "act eng (Looking_up, t, w) = Some (loop_pc t, t, w1)" using Some ew False known by (simp add: act_def)
      with Some ew False known show ?thesis
        by (simp add: handle_start_app_def act_twice act_finished)
    qed
  qed
qed

lemma act_close:
  "act eng (Closing, t, w) \<bind> act eng \<bind> act eng \<bind> act eng = handle_close_app eng t w \<bind> finished eng"
proof (cases "handle_close_app eng t w")
  case (Some tw)
  obtain t1 w1 where tw: "tw = (t1, w1)" by fastforce
  then have "act eng (Closing, t, w) = Some (loop_pc t1, t1, w1)" using Some by (simp add: act_def)
  with Some tw show ?thesis by (simp add: act_twice act_finished)
qed (simp add: act_def)

lemma frame_sections:
  "receive_section r t w \<bind> act eng \<bind> act eng \<bind> act eng \<bind> act eng = pango_iteration eng r t w \<bind> finished eng"
proof (cases "wait_for_data_from_client r (t_client t) (t_status t) (t_buff t) w")
  case (Some x)
  obtain lost client status buff w1 where x: "x = (lost, client, status, buff, w1)" by (metis prod_cases5)
  define t1 where "t1 = t\<lparr>t_client := client, t_status := status, t_buff := buff\<rparr>"
  show ?thesis
  proof (cases "lost = CONNECTION_LOST")
    case True
    let ?t = "t1\<lparr>t_return_value := QUIT\<rparr>"
    have "receive_section r t w = Some (loop_pc ?t, ?t, w1)"
      using Some x True by (simp add: receive_section_def t1_def loop_pc_def)
    with Some x True show ?thesis by (simp add: pango_iteration_def t1_def [symmetric] act_twice act_finished)
  next
    case False
    show ?thesis
    proof (cases "check_and_store t1")
      case None
      with Some x False show ?thesis by (simp add: receive_section_def pango_iteration_def t1_def)
    next
      case st: (Some t2)
      have it: "pango_iteration eng r t w = dispatch eng t2 w1"
        using Some x False st by (simp add: pango_iteration_def t1_def)
      have "receive_section r t w = Some (if t_status t2 = START_APP then Looking_up
          else if t_status t2 = CLOSE_APP then Closing else loop_pc t2, t2, w1)"
        using Some x False st by (simp add: receive_section_def t1_def)
      then show ?thesis
        by (simp add: it dispatch_def act_start act_close act_twice act_finished del: Option.bind_assoc)
    qed
  qed
qed (simp add: receive_section_def pango_iteration_def)

lemma put_put [simp]: "put_thread i r' (put_thread i r s) = put_thread i r' s"
  by (simp add: put_thread_def split: prod.splits)

lemma put_same: "s_threads s ! i = (pc, t) \<Longrightarrow> put_thread i (pc, t, s_world s) s = s"
  using list_update_id [of "s_threads s" i] by (simp add: put_thread_def)

lemma put_fields [simp]:
  "s_world (put_thread i (pc, t, w) s) = w" "length (s_threads (put_thread i r s)) = length (s_threads s)"
  "i < length (s_threads s) \<Longrightarrow> s_threads (put_thread i (pc, t, w) s) ! i = (pc, t)"
  by (simp_all add: put_thread_def split: prod.splits)

text \<open>A turn of a thread changes no other thread.\<close>

lemma take_turn_elsewhere:
  "take_turn eng start (Receive i r) s = Some s' \<Longrightarrow> k \<noteq> i \<Longrightarrow> s_threads s' ! k = s_threads s ! k"
  "take_turn eng start (Act i) s = Some s' \<Longrightarrow> k \<noteq> i \<Longrightarrow> s_threads s' ! k = s_threads s ! k"
  by (auto simp: put_thread_def Option.bind_eq_Some_conv split: if_splits prod.splits)

lemma take_turn_act:
  assumes "i < length (s_threads s)"
  shows "take_turn eng start (Act i) (put_thread i c s) = act eng c \<bind> (\<lambda>c. Some (put_thread i c s))"
  using assms by (cases c) (auto simp: act_def split: Option.bind_split)

lemma run_frame:
  assumes "i < length (s_threads s)" and "s_threads s ! i = (Receiving, t)"
  shows "run_schedule eng start [Receive i r, Act i, Act i, Act i, Act i] s =
    pango_iteration eng r t (s_world s) \<bind> finished eng \<bind> (\<lambda>c. Some (put_thread i c s))"
proof -
  have "take_turn eng start (Receive i r) s = receive_section r t (s_world s) \<bind> (\<lambda>c. Some (put_thread i c s))"
    using assms by simp
  then have "run_schedule eng start [Receive i r, Act i, Act i, Act i, Act i] s =
      (receive_section r t (s_world s) \<bind> act eng \<bind> act eng \<bind> act eng \<bind> act eng) \<bind> (\<lambda>c. Some (put_thread i c s))"
    by (simp add: take_turn_act [OF assms(1)] del: take_turn.simps)
  then show ?thesis unfolding frame_sections by simp
qed

fun outcome_slot :: "(thread, 'db world) outcome \<Rightarrow> pc \<times> thread \<times> 'db world" where
  "outcome_slot (Waiting t w) = (Receiving, t, w)"
| "outcome_slot (Exited t w) = (Done, t, w)"

lemma alone_done:
  assumes "s_threads s ! i = (Done, t)"
  shows "run_schedule eng start (alone i rs) s = Some s"
  using assms by (induction rs) (simp_all add: alone_def)

text \<open>
  C16: a thread that runs alone is the thread of the code: for all results of \<open>recv\<close>, the turns
  of one client thread lead to the state in which \<open>pango_client\<close>'s loop waits or has ended, and
  are undefined exactly when it is.
\<close>

theorem thread_is_its_sections:
  assumes "i < length (s_threads s)" and "s_threads s ! i = (Receiving, t)"
  shows "run_schedule eng start (alone i rs) s =
    map_option (\<lambda>out. put_thread i (outcome_slot out) s) (pango_loop eng rs t (s_world s))"
  using assms
proof (induction rs arbitrary: s t)
  case Nil
  then show ?case by (simp add: alone_def put_same)
next
  case (Cons r rs)
  have split: "alone i (r # rs) = [Receive i r, Act i, Act i, Act i, Act i] @ alone i rs"
    by (simp add: alone_def)
  have run: "run_schedule eng start (alone i (r # rs)) s =
      (pango_iteration eng r t (s_world s) \<bind> finished eng \<bind> (\<lambda>c. Some (put_thread i c s)))
        \<bind> run_schedule eng start (alone i rs)"
    by (simp only: split run_schedule_append run_frame [OF Cons.prems])
  show ?case
  proof (cases "pango_iteration eng r t (s_world s)")
    case (Some tw)
    obtain t1 w1 where tw: "tw = (t1, w1)" by fastforce
    show ?thesis
    proof (cases "t_return_value t1 = QUIT")
      case True
      then show ?thesis unfolding run using Some tw Cons.prems(1)
        by (cases "pango_exit eng t1 w1") (auto simp: finished_def alone_done)
    next
      case False
      then show ?thesis unfolding run using Some tw Cons.prems(1) Cons.IH [of "put_thread i (Receiving, t1, w1) s" t1]
        by (simp add: finished_def option.map_comp comp_def)
    qed
  qed (simp add: run)
qed

theorem thread_is_its_sections_witness:
  "let s = \<lparr>s_world = demo_world demo_rows, s_threads = [(Receiving, thread_start zeroed_client)], s_quit = 0\<rparr> in
   run_schedule ref_engine 900 (alone 0 [Received demo_start, Received []]) s =
     map_option (\<lambda>out. put_thread 0 (outcome_slot out) s)
       (pango_loop ref_engine [Received demo_start, Received []] (thread_start zeroed_client) (s_world s))"
  unfolding Let_def by (rule thread_is_its_sections) simp_all

end
