(* ===== verification/Server_Isolation.thy ===== *)
theory Server_Isolation
  imports Server_Threads
begin

text \<open>
  What the threads of the server do to each other. The first part is a frame rule: an
  operation on the record of one vehicle spares the rows of every other MAC address. It gives
  the main result, that a parking is billed as if its thread ran alone, whatever the threads
  of other vehicles and the backup thread do in between. The second part shows that this needs
  different vehicles: two threads of one vehicle can both miss the row the other is about to
  insert, since the lookup is outside of the mutex.
\<close>

section \<open>What an operation spares\<close>

definition same_db :: "'db world \<Rightarrow> 'db world \<Rightarrow> bool" where
  "same_db w w' \<longleftrightarrow> db_client w' = db_client w \<and> db_prices w' = db_prices w \<and> send_result w' = send_result w"

text \<open>The rows of \<open>m\<close> stay, up to their times, and a healthy database stays healthy.\<close>

definition spares ::
    "('db \<Rightarrow> parked list) \<Rightarrow> ('db \<Rightarrow> bool) \<Rightarrow> string \<Rightarrow> 'db world \<Rightarrow> 'db world \<Rightarrow> bool" where
  "spares tbl healthy m w w' \<longleftrightarrow>
     map p_loc (rows_of m (tbl (db_client w'))) = map p_loc (rows_of m (tbl (db_client w))) \<and>
     (healthy (db_client w) \<longrightarrow> healthy (db_client w')) \<and>
     db_prices w' = db_prices w \<and> send_result w' = send_result w"

lemma same_db_refl [simp]: "same_db w w"
  by (simp add: same_db_def)

lemma same_db_trans: "same_db w w' \<Longrightarrow> same_db w' w'' \<Longrightarrow> same_db w w''"
  by (simp add: same_db_def)

lemma same_db_spares: "same_db w w' \<Longrightarrow> spares tbl healthy m w w'"
  by (simp add: same_db_def spares_def)

lemma spares_refl [simp]: "spares tbl healthy m w w"
  by (simp add: spares_def)

lemma spares_trans: "spares tbl healthy m w w' \<Longrightarrow> spares tbl healthy m w' w'' \<Longrightarrow> spares tbl healthy m w w''"
  by (simp add: spares_def)

lemma spares_fields [simp]:
  "spares tbl healthy m w (w'\<lparr>locked := b\<rparr>) = spares tbl healthy m w w'"
  "spares tbl healthy m (w\<lparr>locked := b\<rparr>) w' = spares tbl healthy m w w'"
  "spares tbl healthy m (w\<lparr>ticks := k\<rparr>) w' = spares tbl healthy m w w'"
  "spares tbl healthy m w (close_fd fd w') = spares tbl healthy m w w'"
  by (simp_all add: spares_def close_fd_def)

lemma mutex_same_db:
  "mutex_lock w = Some w' \<Longrightarrow> same_db w w'" "mutex_unlock w = Some w' \<Longrightarrow> same_db w w'"
  by (auto simp: mutex_lock_def mutex_unlock_def same_db_def split: if_splits)

lemma send_same_db: "send_msg fd msg w = (rc, w') \<Longrightarrow> same_db w w'"
  by (auto simp: send_msg_def same_db_def Let_def split: if_splits)

lemma prepare_same_db:
  "prepare_client eng sql w = (rc, st, w') \<Longrightarrow> same_db w w'"
  "prepare_prices eng sql w = (rc, st, w') \<Longrightarrow> same_db w w'"
  by (auto simp: prepare_client_def prepare_prices_def count_open_def same_db_def split: prod.splits)

lemma finalize_same_db [simp]: "same_db w (finalize st w') = same_db w w'"
  by (simp add: finalize_def same_db_def)

lemma clock_same_db: "gettimeofday w = (t, w') \<Longrightarrow> same_db w w'"
  by (auto simp: gettimeofday_def same_db_def)

lemma rows_of_set_time: "map p_loc (rows_of m (set_time n mac rs)) = map p_loc (rows_of m rs)"
  by (induction rs) (auto simp: set_time_def)

lemma rows_of_others: "m \<noteq> mac \<Longrightarrow> filter (\<lambda>r. p_mac r \<noteq> mac \<and> p_mac r = m) rs = rows_of m rs"
  by (induction rs) auto

section \<open>The operations that only read\<close>

lemma price_frame:
  assumes "retrieve_parking_price_per_city_from_database eng c w = Some (r, c', w')"
  shows "same_db w w' \<and> mac_address c' = mac_address c"
  using assms
  by (auto simp: retrieve_parking_price_per_city_from_database_def dest: prepare_same_db
      split: Option.bind_splits prod.splits if_splits)

lemma time_frame:
  assumes "retrieve_time_start_parking_value_from_database eng c w = Some (r, c', w')"
  shows "same_db w w' \<and> mac_address c' = mac_address c"
  using assms
  by (auto simp: retrieve_time_start_parking_value_from_database_def dest: prepare_same_db
      split: Option.bind_splits prod.splits if_splits)

lemma continue_frame:
  assumes "update_client_and_continue_time eng c w = Some (r, c', w')"
  shows "same_db w w' \<and> mac_address c' = mac_address c"
proof -
  obtain t w1 where t: "gettimeofday w = (t, w1)" by fastforce
  have "same_db w1 w' \<and> mac_address c' = mac_address c"
    using assms t
    by (auto simp: update_client_and_continue_time_def Let_def dest: prepare_same_db
        split: Option.bind_splits prod.splits if_splits)
  with clock_same_db [OF t] show ?thesis using same_db_trans by blast
qed

lemma location_frame: "send_client_location c w = (r, w') \<Longrightarrow> same_db w w'"
  by (auto simp: send_client_location_def dest: send_same_db split: prod.splits)

lemma retriev_frame:
  assumes "retriev_client_data eng c st w = Some (r, c', st', w')"
  shows "same_db w w' \<and> mac_address c' = mac_address c"
proof -
  obtain w1 r2 c2 w2 where 1: "mutex_lock w = Some w1"
    "retrieve_time_start_parking_value_from_database eng c w1 = Some (r2, c2, w2)"
    using assms by (auto simp: retriev_client_data_def split: Option.bind_splits)
  obtain r3 c3 w3 where 3: "(if r2 = QUIT then Some (QUIT, c2, w2) else update_client_and_continue_time eng c2 w2) = Some (r3, c3, w3)"
    using assms 1 by (auto simp: retriev_client_data_def split: Option.bind_splits)
  obtain r4 c4 w4 where 4: "(if r3 = QUIT then Some (QUIT, c3, w3)
      else retrieve_parking_price_per_city_from_database eng c3 w3) = Some (r4, c4, w4)"
    using assms 1 3 by (auto simp: retriev_client_data_def split: Option.bind_splits)
  have s: "same_db w w1" "same_db w1 w2" "same_db w2 w3" "same_db w3 w4"
    "mac_address c2 = mac_address c" "mac_address c3 = mac_address c2" "mac_address c4 = mac_address c3"
    using 1 3 4 mutex_same_db time_frame continue_frame price_frame by (fastforce split: if_splits)+
  have "same_db w4 w' \<and> c' = c4"
    using assms 1 3 4
    by (auto simp: retriev_client_data_def dest: mutex_same_db location_frame intro: same_db_trans
        split: Option.bind_splits prod.splits if_splits)
  with s show ?thesis using same_db_trans by metis
qed

section \<open>The operations that write\<close>

context sqlite_contract
begin

lemma exec_healthy_client:
  assumes "exec_client eng sql w = (rc, w')" and "server_command sql"
  shows "healthy (db_client w) \<longrightarrow> healthy (db_client w')" and "db_prices w' = db_prices w"
    and "send_result w' = send_result w"
  using assms exec_healthy by (auto simp: exec_client_def split: prod.splits)

lemma exec_rows:
  assumes "exec_client eng sql w = (rc, w')"
    and "rc = SQLITE_OK \<Longrightarrow> sq_exec eng (db_client w) sql = (SQLITE_OK, db_client w') \<Longrightarrow>
      map p_loc (rows_of m (tbl (db_client w'))) = map p_loc (rows_of m (tbl (db_client w)))"
    and "server_command sql"
  shows "spares tbl healthy m w w'"
proof -
  have x: "sq_exec eng (db_client w) sql = (rc, db_client w')"
    using assms(1) by (auto simp: exec_client_def split: prod.splits)
  show ?thesis
  proof (cases "rc = SQLITE_OK")
    case False
    then have "tbl (db_client w') = tbl (db_client w)" using exec_failed [OF x] by simp
    with exec_healthy_client [OF assms(1,3)] show ?thesis by (simp add: spares_def)
  next
    case True
    with assms(2) x exec_healthy_client [OF assms(1,3)] show ?thesis by (simp add: spares_def)
  qed
qed

lemma update_spares:
  assumes "exec_client eng (update_time_sql n mac) w = (rc, w')" and "plain mac"
  shows "spares tbl healthy m w w'"
  using assms exec_update [OF _ assms(2)]
  by (intro exec_rows [OF assms(1)]) (auto simp: rows_of_set_time server_command_def plain_def)

lemma delete_spares:
  assumes "exec_client eng (delete_client_sql mac) w = (rc, w')" and "plain mac" and "m \<noteq> mac"
  shows "spares tbl healthy m w w'"
  using assms exec_delete [OF _ assms(2)]
  by (intro exec_rows [OF assms(1)]) (auto simp: rows_of_others server_command_def plain_def)

lemma insert_spares:
  assumes "exec_client eng (insert_client_sql mac n loc) w = (rc, w')" and "plain mac" and "plain loc" and "m \<noteq> mac"
  shows "spares tbl healthy m w w'"
  using assms exec_insert [OF _ assms(2,3)]
  by (intro exec_rows [OF assms(1)]) (auto simp: server_command_def)

lemma update_client_frame:
  assumes "update_client_data eng c w = Some (rc, e, w')" and "plain (cstr (mac_address c))"
  shows "spares tbl healthy m w w'"
proof -
  obtain t w1 where t: "gettimeofday w = (t, w1)" by fastforce
  have "spares tbl healthy m w1 w'"
    using assms t
    by (auto simp: update_client_data_def c_string_def sprintf_local_def Let_def dest: update_spares
        split: Option.bind_splits prod.splits if_splits)
  with clock_same_db [OF t] show ?thesis using same_db_spares spares_trans by blast
qed

lemma remove_client_frame:
  assumes "remove_client_data eng (mac_address c) w = Some w'" and "plain (cstr (mac_address c))"
    and "m \<noteq> cstr (mac_address c)"
  shows "spares tbl healthy m w w'"
  using assms
  by (auto simp: remove_client_data_def c_string_def sprintf_local_def dest: delete_spares
      split: Option.bind_splits prod.splits if_splits)

lemma insert_client_frame:
  assumes "insert_client_data_into_database eng c w = Some (r, w')" and "plain (cstr (mac_address c))"
    and "plain (cstr (location c))" and "m \<noteq> cstr (mac_address c)"
  shows "spares tbl healthy m w w'"
  using assms
  by (auto simp: insert_client_data_into_database_def c_string_def sprintf_local_def dest: insert_spares
      split: Option.bind_splits prod.splits if_splits)

lemma start_time_frame:
  "initialize_and_get_start_time c w = Some (c', w') \<Longrightarrow> same_db w w' \<and> mac_address c' = mac_address c"
  by (auto simp: initialize_and_get_start_time_def Let_def dest: clock_same_db split: Option.bind_splits prod.splits)

lemma insert_new_frame:
  assumes "insert_new_client eng c st w = Some (r, c', st', w')" and "client_inv w c" and "m \<noteq> cstr (mac_address c)"
  shows "spares tbl healthy m w w' \<and> mac_address c' = mac_address c"
proof -
  obtain w2 where 2: "mutex_lock w = Some w2" using assms(1)
    by (auto simp: insert_new_client_def split: Option.bind_splits)
  have i2: "client_inv w2 c" using 2 assms(2) by (auto simp: mutex_lock_def split: if_splits)
  obtain r3 p where 3: "retrieve_parking_price_per_city_from_database eng c w2 = Some (r3, c\<lparr>price := p\<rparr>, w2)"
    using price_ok [OF i2] by blast
  obtain r4 w4 where 4: "(if r3 = QUIT then Some (QUIT, w2)
      else insert_client_data_into_database eng (c\<lparr>price := p\<rparr>) w2) = Some (r4, w4)"
    using assms(1) 2 3 by (auto simp: insert_new_client_def split: Option.bind_splits)
  have s4: "spares tbl healthy m w2 w4"
    using 4 insert_client_frame [of "c\<lparr>price := p\<rparr>" w2 r4 w4] client_inv_strings(5,6) [OF i2] assms(3)
    by (auto split: if_splits)
  have s5: "same_db w4 w'" "mac_address c' = mac_address c"
    using assms(1) 2 3 4
    by (auto simp: insert_new_client_def dest: mutex_same_db split: Option.bind_splits prod.splits if_splits)
  from spares_trans [OF same_db_spares [OF mutex_same_db(1) [OF 2]] spares_trans [OF s4 same_db_spares [OF s5(1)]]] s5(2)
  show ?thesis by simp
qed

lemma handle_close_frame:
  assumes "handle_close_app eng t w = Some (t', w')" and "plain (cstr (mac_address (t_client t)))"
  shows "spares tbl healthy m w w' \<and> mac_address (t_client t') = mac_address (t_client t)"
proof -
  obtain w1 rc e w2 where 1: "mutex_lock w = Some w1" "update_client_data eng (t_client t) w1 = Some (rc, e, w2)"
    "mutex_unlock w2 = Some w'" "mac_address (t_client t') = mac_address (t_client t)"
    using assms(1) by (auto simp: handle_close_app_def Let_def split: Option.bind_splits)
  then show ?thesis
    using update_client_frame [OF 1(2) assms(2)] mutex_same_db same_db_spares spares_trans by metis
qed

lemma payment_frame:
  "calculate_and_send_payment_data a e p fd w = Some w' \<Longrightarrow> same_db w w'"
  by (auto simp: calculate_and_send_payment_data_def Let_def dest: send_same_db
      split: Option.bind_splits prod.splits)

lemma exit_frame:
  assumes "pango_exit eng t w = Some (t', w')" and "t_status t \<noteq> CLOSE_APP" and "plain (cstr (mac_address (t_client t)))"
  shows "spares tbl healthy m w w'"
proof (cases "t_status t = CONNECTION_LOST")
  case True
  then obtain w1 rc e w2 where 1: "mutex_lock w = Some w1" "update_client_data eng (t_client t) w1 = Some (rc, e, w2)"
    "mutex_unlock w2 = Some w'"
    using assms(1,2) by (auto simp: pango_exit_def Let_def split: Option.bind_splits)
  then show ?thesis
    using update_client_frame [OF 1(2) assms(3)] mutex_same_db same_db_spares spares_trans by metis
next
  case False
  with assms(1,2) have "same_db w w'"
    by (auto simp: pango_exit_def Let_def dest: send_same_db split: prod.splits if_splits)
  then show ?thesis by (rule same_db_spares)
qed

text \<open>A section of a thread spares the rows of every MAC address but its own.\<close>

lemma act_section_frame:
  assumes "act_section eng pc t w = Some (pc', t', w')" and "thread_inv tbl t w"
    and "m \<noteq> cstr (mac_address (t_client t))"
  shows "spares tbl healthy m w w' \<and> mac_address (t_client t') = mac_address (t_client t)"
proof -
  let ?c = "t_client t"
  have a: "client_inv w ?c" "world_ok tbl w" "plain (cstr (mac_address ?c))"
    using assms(2) client_inv_strings(5) by (auto simp: thread_inv_def)
  show ?thesis
  proof (cases pc)
    case Looking_up
    then show ?thesis using assms(1) lookup_ok [OF a(1), of "t_checked t"] by auto
  next
    case Resuming
    then show ?thesis using assms(1) retriev_frame same_db_spares
      by (auto simp: Let_def split: Option.bind_splits if_splits) fastforce+
  next
    case Entering
    then show ?thesis using assms(1) start_time_frame same_db_spares
      by (auto split: Option.bind_splits) fastforce+
  next
    case Inserting
    then show ?thesis using assms(1) insert_new_frame [OF _ a(1) assms(3)]
      by (auto simp: Let_def split: Option.bind_splits if_splits)
  next
    case Announcing
    then show ?thesis using assms(1)
      by (auto simp: Let_def dest!: location_frame intro: same_db_spares split: prod.splits)
  next
    case Closing
    then show ?thesis using assms(1) handle_close_frame [OF _ a(3)]
      by (auto split: Option.bind_splits)
  next
    case Leaving
    then show ?thesis using assms(1) exit_frame [OF _ _ a(3)] exit_record [where eng = eng]
      by (auto dest!: payment_frame intro: same_db_spares split: Option.bind_splits if_splits)
  next
    case Removing
    then obtain w1 w2 w3 where 1: "mutex_lock w = Some w1" "remove_client_data eng (mac_address ?c) w1 = Some w2"
      "mutex_unlock w2 = Some w3" "w' = close_fd (client_fd ?c) w3" "t' = t"
      using assms(1) by (auto simp: Option.bind_eq_Some_conv)
    then have "spares tbl healthy m w w1" "spares tbl healthy m w1 w2" "spares tbl healthy m w2 w3"
      using remove_client_frame [OF 1(2) a(3) assms(3)] mutex_same_db same_db_spares by blast+
    then have "spares tbl healthy m w w3" using spares_trans by blast
    with 1(4,5) show ?thesis by simp
  qed (use assms(1) in simp_all)
qed

lemma update_loop_frame:
  assumes "update_clients_loop eng cs i w = Some w'" and "\<forall>c\<in>set cs. plain (cstr (mac_address c))"
  shows "spares tbl healthy m w w'"
  using assms(1)
proof (induction "UPDATE_THREAD_MAX_NUM_CLIENTS - i" arbitrary: i w)
  case 0
  then show ?case by (subst (asm) update_clients_loop.simps) simp
next
  case (Suc n)
  have IH: "spares tbl healthy m v w'" if "update_clients_loop eng cs (i + 1) v = Some w'" for v
    using Suc.hyps(1) [OF _ that] Suc.hyps(2) by simp
  from Suc.hyps(2) have i: "i < UPDATE_THREAD_MAX_NUM_CLIENTS" by simp
  with Suc.prems have len: "i < length cs" by (subst (asm) update_clients_loop.simps) (simp split: if_splits)
  show ?case
  proof (cases "connected (cs ! i) = TRUE")
    case False
    with Suc.prems i len show ?thesis by (subst (asm) update_clients_loop.simps) (simp add: IH)
  next
    case True
    let ?c = "cs ! i"
    obtain t w1 where t: "gettimeofday w = (t, w1)" by fastforce
    obtain used mac rc w2 where 1: "c_string (mac_address ?c) = Some mac"
      "exec_client eng (update_time_sql used mac) w1 = (rc, w2)" "update_clients_loop eng cs (i + 1) w2 = Some w'"
      using Suc.prems i len True t
      by (subst (asm) update_clients_loop.simps)
         (auto simp: sprintf_local_def split: Option.bind_splits prod.splits if_splits)
    have mac: "plain mac" using 1(1) assms(2) len by (auto simp: c_string_def split: if_splits)
    have "spares tbl healthy m w w1" "spares tbl healthy m w1 w2"
      using same_db_spares [OF clock_same_db [OF t]] update_spares [OF 1(2) mac] by simp_all
    then show ?thesis using IH [OF 1(3)] spares_trans by blast
  qed
qed

lemma backup_frame:
  assumes "db_update_iteration eng start flag cs quit w = Some (q, w')"
    and "\<forall>c\<in>set cs. plain (cstr (mac_address c))"
  shows "spares tbl healthy m w w'"
proof -
  have up: "spares tbl healthy m v v'" if "update_clients eng cs b v = Some v'" for b v v'
    using that update_loop_frame [OF _ assms(2)] by (auto simp: update_clients_def split: if_splits)
  have quit: "spares tbl healthy m v v'" if "return_database_update_thread eng flag cs b q' v = Some (b', q'', v')" for b q' v b' q'' v'
    using that up by (auto simp: return_database_update_thread_def Let_def split: if_splits Option.bind_splits)
  obtain w1 b w2 b3 q3 w3 w4 where 1: "mutex_lock w = Some w1" "time_to_backup start w1 = Some (b, w2)"
    "return_database_update_thread eng flag cs b quit w2 = Some (b3, q3, w3)"
    "update_clients eng cs b3 w3 = Some w4" "mutex_unlock w4 = Some w'"
    using assms(1) by (auto simp: db_update_iteration_def split: Option.bind_splits)
  have "same_db w1 w2" using 1(2) by (auto simp: time_to_backup_def Let_def dest: clock_same_db
    split: Option.bind_splits prod.splits)
  then have "spares tbl healthy m w w1" "spares tbl healthy m w1 w2" "spares tbl healthy m w2 w3"
    "spares tbl healthy m w3 w4" "spares tbl healthy m w4 w'"
    using 1 quit up mutex_same_db same_db_spares by blast+
  then show ?thesis using spares_trans by blast
qed

end

lemma receive_frame:
  assumes "receive_section r t w = Some (pc', t', w')" and "thread_inv tbl t w"
  shows "same_db w w'"
  using assms
  by (auto simp: receive_section_def wait_for_data_from_client_def Let_def dest!: mutex_same_db intro: same_db_trans
      split: Option.bind_splits recv_result.splits list.splits if_splits)

text \<open>A frame gives its MAC address to the record, or leaves the record's.\<close>

lemma receive_mac:
  assumes "receive_section (Received f) t w = Some (pc', t', w')" and "thread_inv tbl t w"
    and "f = [] \<or> length f = 10"
  shows "cstr (mac_address (t_client t')) \<in> {cstr (mac_address (t_client t)), frame_mac f}"
proof (cases f)
  case Nil
  with assms show ?thesis
    by (auto simp: receive_section_def wait_for_data_from_client_def split: Option.bind_splits)
next
  case (Cons b bs)
  let ?t = "t\<lparr>t_buff := f\<rparr>"
  have len: "length f = 10" "length (t_buff t) = 10" using assms Cons by (auto simp: thread_inv_def size_defs)
  have inv: "thread_inv tbl ?t w" using assms(2) len by (simp add: thread_inv_def size_defs)
  have r: "check_and_store ?t = Some t'"
    using assms(1) Cons len
    by (auto simp: receive_section_def wait_for_data_from_client_def status_defs split: Option.bind_splits if_splits)
  show ?thesis
  proof (cases "frame_ok f")
    case True
    with check_and_store_meter [OF inv] r show ?thesis
      by (auto simp: frame_mac_def split: if_splits)
  next
    case False
    with r CRC_8_check_iff [OF len(1)] show ?thesis by (auto simp: check_and_store_def flag_defs split: if_splits)
  qed
qed

section \<open>Turns of the others\<close>

text \<open>
  A turn of another thread than \<open>i\<close>: a connection, a whole frame of another vehicle or the end of
  a connection, a section, or an iteration of the backup thread.
\<close>

fun elsewhere :: "nat \<Rightarrow> string \<Rightarrow> turn \<Rightarrow> bool" where
  "elsewhere i m (Accept fd) \<longleftrightarrow> True"
| "elsewhere i m (Receive j (Received f)) \<longleftrightarrow> j \<noteq> i \<and> (f = [] \<or> length f = 10 \<and> frame_mac f \<noteq> m)"
| "elsewhere i m (Receive j Recv_error) \<longleftrightarrow> False"
| "elsewhere i m (Act j) \<longleftrightarrow> j \<noteq> i"
| "elsewhere i m Backup \<longleftrightarrow> True"

text \<open>Thread \<open>i\<close> is the only one that has the MAC address \<open>m\<close>.\<close>

definition sole :: "nat \<Rightarrow> string \<Rightarrow> 'db system \<Rightarrow> bool" where
  "sole i m s \<longleftrightarrow> i < length (s_threads s) \<and>
     (\<forall>j<length (s_threads s). j \<noteq> i \<longrightarrow> cstr (mac_address (t_client (snd (s_threads s ! j)))) \<noteq> m)"

definition calm ::
    "('db \<Rightarrow> parked list) \<Rightarrow> ('db \<Rightarrow> bool) \<Rightarrow> ('db \<Rightarrow> (string \<times> rat) list) \<Rightarrow> (string \<times> rat) list
     \<Rightarrow> nat \<Rightarrow> string \<Rightarrow> 'db system \<Rightarrow> bool" where
  "calm tbl healthy prices ps i m s \<longleftrightarrow>
     system_ok tbl s \<and> fair_world healthy prices ps (s_world s) \<and> sole i m s"

text \<open>What the turns of the others leave of the state of thread \<open>i\<close> and its rows.\<close>

definition undisturbed :: "('db \<Rightarrow> parked list) \<Rightarrow> nat \<Rightarrow> string \<Rightarrow> 'db system \<Rightarrow> 'db system \<Rightarrow> bool" where
  "undisturbed tbl i m s s' \<longleftrightarrow>
     s_threads s' ! i = s_threads s ! i \<and> evolves tbl (s_world s) (s_world s') \<and>
     map p_loc (rows_of m (tbl (db_client (s_world s')))) = map p_loc (rows_of m (tbl (db_client (s_world s))))"

lemma undisturbed_trans:
  "undisturbed tbl i m s s' \<Longrightarrow> undisturbed tbl i m s' s'' \<Longrightarrow> undisturbed tbl i m s s''"
  using evolves_trans by (auto simp: undisturbed_def)

lemma spares_fair:
  "spares tbl healthy m w w' \<Longrightarrow> fair_world healthy prices ps w \<Longrightarrow> fair_world healthy prices ps w'"
  by (auto simp: spares_def fair_world_def)

lemma sole_put:
  assumes "sole i m s" and "j \<noteq> i" and "cstr (mac_address (t_client t)) \<noteq> m"
  shows "sole i m (put_thread j (pc, t, w) s)"
  using assms by (cases "j < length (s_threads s)") (simp_all add: sole_def put_thread_def nth_list_update)

context sqlite_contract
begin

lemma elsewhere_put:
  assumes "calm tbl healthy prices ps i m s" and "j \<noteq> i" and "spares tbl healthy m (s_world s) w'"
    and "evolves tbl (s_world s) w'" and "slot_inv tbl w' (pc, t)" and "cstr (mac_address (t_client t)) \<noteq> m"
  shows "calm tbl healthy prices ps i m (put_thread j (pc, t, w') s) \<and>
    undisturbed tbl i m s (put_thread j (pc, t, w') s)"
proof -
  have "system_ok tbl (put_thread j (pc, t, w') s)" using put_thread_ok assms(1,4,5) by (auto simp: calm_def)
  moreover have "sole i m (put_thread j (pc, t, w') s)" using sole_put assms(1,2,6) by (auto simp: calm_def)
  moreover have "fair_world healthy prices ps w'" using spares_fair [OF assms(3)] assms(1) by (simp add: calm_def)
  ultimately show ?thesis using assms(2-4) by (simp add: calm_def undisturbed_def put_thread_def spares_def)
qed

lemma elsewhere_turn:
  assumes "calm tbl healthy prices ps i m s" and "elsewhere i m l" and "0 \<le> sint start" and "m \<noteq> []"
    and "length (s_threads s) + accepts [l] \<le> SERVER_MAX_NUM_CLIENTS"
  shows "\<exists>s'. take_turn eng start l s = Some s' \<and> calm tbl healthy prices ps i m s' \<and> undisturbed tbl i m s s' \<and>
    length (s_threads s') = length (s_threads s) + accepts [l]"
proof -
  have ok: "system_ok tbl s" "sole i m s" "world_ok tbl (s_world s)" "\<not> locked (s_world s)"
    using assms(1) by (simp_all add: calm_def system_ok_def)
  have stay: "undisturbed tbl i m s s" using evolves_refl [OF ok(3,4)] by (simp add: undisturbed_def)
  have slot: "slot_inv tbl (s_world s) (s_threads s ! j)" if "j < length (s_threads s)" for j
    using that ok(1) by (simp add: system_ok_def)
  show ?thesis
  proof (cases l)
    case (Accept fd)
    obtain s' where s': "take_turn eng start l s = Some s'" "system_ok tbl s'" "length (s_threads s') = length (s_threads s) + accepts [l]"
      using turn_ok [OF sqlite_contract_axioms ok(1) assms(3,5)] by blast
    have "cstr (mac_address zeroed_client) = []" by (simp add: zeroed_client_def cstr_def size_defs)
    with s' Accept assms ok(2) stay show ?thesis
      by (auto simp: calm_def sole_def undisturbed_def nth_append thread_start_def less_Suc_eq split: if_splits)
  next
    case (Receive j r)
    obtain f where f: "r = Received f" "j \<noteq> i" "f = [] \<or> length f = 10 \<and> frame_mac f \<noteq> m"
      using assms(2) Receive by (cases r) auto
    show ?thesis
    proof (cases "j < length (s_threads s) \<and> fst (s_threads s ! j) = Receiving")
      case True
      let ?t = "snd (s_threads s ! j)"
      have inv: "thread_inv tbl ?t (s_world s)" using slot [of j] True by (simp add: slot_inv_def)
      obtain pc t w' where 1: "receive_section r ?t (s_world s) = Some (pc, t, w')" "evolves tbl (s_world s) w'"
        "thread_inv tbl t w'" using receive_section_ok [OF inv] by blast
      have "cstr (mac_address (t_client ?t)) \<noteq> m" using ok(2) True f(2) by (simp add: sole_def)
      moreover have "f = [] \<Longrightarrow> cstr (mac_address (t_client t)) = cstr (mac_address (t_client ?t))"
        using 1(1) f(1) by (auto simp: receive_section_def wait_for_data_from_client_def split: Option.bind_splits)
      ultimately have "cstr (mac_address (t_client t)) \<noteq> m"
        using receive_mac [OF _ inv, of f pc t w'] 1(1) f by auto
      from elsewhere_put [OF assms(1) f(2) same_db_spares [OF receive_frame [OF 1(1) inv]] 1(2) slot_inv_thread [OF 1(3)] this]
      show ?thesis using True Receive 1(1) by simp
    qed (use Receive assms(1) stay in auto)
  next
    case (Act j)
    have j: "j \<noteq> i" using assms(2) Act by simp
    show ?thesis
    proof (cases "j < length (s_threads s) \<and> fst (s_threads s ! j) \<notin> {Receiving, Done}")
      case True
      let ?t = "snd (s_threads s ! j)" and ?pc = "fst (s_threads s ! j)"
      have inv: "thread_inv tbl ?t (s_world s)" using slot [of j] True by (simp add: slot_inv_def)
      obtain pc t w' where 1: "act_section eng ?pc ?t (s_world s) = Some (pc, t, w')" "evolves tbl (s_world s) w'"
        "slot_inv tbl w' (pc, t)" using act_section_ok [OF inv] True by blast
      have "cstr (mac_address (t_client ?t)) \<noteq> m" using ok(2) True j by (simp add: sole_def)
      with act_section_frame [OF 1(1) inv, of m] have "spares tbl healthy m (s_world s) w'" "cstr (mac_address (t_client t)) \<noteq> m"
        by simp_all
      from elsewhere_put [OF assms(1) j this(1) 1(2,3) this(2)] show ?thesis using True Act 1(1) by simp
    qed (use Act assms(1) stay in auto)
  next
    case Backup
    obtain s' where s': "take_turn eng start Backup s = Some s'" "system_ok tbl s'" "evolves tbl (s_world s) (s_world s')"
      using turn_ok [OF sqlite_contract_axioms ok(1) assms(3,5)] Backup by blast
    then obtain q w' where b: "db_update_iteration eng start FALSE (client_array s) (s_quit s) (s_world s) = Some (q, w')"
      "s' = s\<lparr>s_quit := q, s_world := w'\<rparr>" by (auto simp: Option.bind_eq_Some_conv)
    have "\<forall>c\<in>set (client_array s). plain (cstr (mac_address c))"
      using client_array_inv(2) [OF ok(1)] client_inv_strings(5) by blast
    from backup_frame [OF b(1) this] have sp: "spares tbl healthy m (s_world s) w'" .
    have "calm tbl healthy prices ps i m s'" using s'(2) spares_fair [OF sp] assms(1) ok(2) b(2)
      by (simp add: calm_def sole_def)
    with s' sp b(2) Backup show ?thesis by (simp add: undisturbed_def spares_def)
  qed
qed

lemma elsewhere_run:
  assumes "calm tbl healthy prices ps i m s" and "list_all (elsewhere i m) ls" and "0 \<le> sint start" and "m \<noteq> []"
    and "length (s_threads s) + accepts ls \<le> SERVER_MAX_NUM_CLIENTS"
  shows "\<exists>s'. run_schedule eng start ls s = Some s' \<and> calm tbl healthy prices ps i m s' \<and> undisturbed tbl i m s s' \<and>
    length (s_threads s') = length (s_threads s) + accepts ls"
  using assms(1,2,5)
proof (induction ls arbitrary: s)
  case Nil
  then have "undisturbed tbl i m s s" using evolves_refl by (auto simp: undisturbed_def calm_def system_ok_def)
  with Nil show ?case by simp
next
  case (Cons l ls)
  have acc: "accepts (l # ls) = accepts [l] + accepts ls" by (cases l) auto
  obtain s1 where 1: "take_turn eng start l s = Some s1" "calm tbl healthy prices ps i m s1" "undisturbed tbl i m s s1"
    "length (s_threads s1) = length (s_threads s) + accepts [l]"
    using elsewhere_turn [OF Cons.prems(1) _ assms(3,4), of l] Cons.prems(2,3) acc by auto
  from Cons.IH [OF 1(2)] Cons.prems(2,3) 1(4) acc obtain s2 where
    "run_schedule eng start ls s1 = Some s2" "calm tbl healthy prices ps i m s2" "undisturbed tbl i m s1 s2"
    "length (s_threads s2) = length (s_threads s1) + accepts ls" by auto
  with 1 acc undisturbed_trans show ?case by auto
qed

end

section \<open>Turns of the thread itself\<close>

text \<open>A request arrives.\<close>

lemma receive_request_eq:
  assumes "thread_inv tbl t w" and "length f = 10" and "frame_ok f" and "t_status t \<noteq> CRC8_TEST_FAILED"
    and "f ! 0 \<in> {START_APP, CLOSE_APP}"
  shows "\<exists>m. receive_section (Received f) t w = Some (if f ! 0 = START_APP then Looking_up else Closing,
      t\<lparr>t_buff := f, t_status := f ! 0,
        t_client := (t_client t)\<lparr>mac_address := m, x_axis := f ! 7, y_axis := f ! 8\<rparr>\<rparr>, w) \<and>
    cstr m = frame_mac f"
proof -
  let ?t = "t\<lparr>t_buff := f\<rparr>"
  have inv: "thread_inv tbl ?t w" using assms(1,2) by (simp add: thread_inv_def size_defs)
  obtain m where "check_and_store ?t = Some (?t\<lparr>t_status := f ! 0,
      t_client := (t_client t)\<lparr>mac_address := m, x_axis := f ! 7, y_axis := f ! 8\<rparr>\<rparr>)" "cstr m = frame_mac f"
    using check_and_store_meter [OF inv] assms(3,4) by (auto simp: frame_mac_def)
  moreover have "length (t_buff t) = 10" "f \<noteq> []" using assms(1,2) by (auto simp: thread_inv_def size_defs)
  ultimately show ?thesis using assms(2,5)
    by (intro exI [of _ m])
       (auto simp: receive_section_def wait_for_data_from_client_def status_defs split: list.splits)
qed

lemma own_put:
  assumes "calm tbl healthy prices ps i m s" and "evolves tbl (s_world s) w'" and "slot_inv tbl w' (pc, t)"
    and "fair_world healthy prices ps w'"
  shows "calm tbl healthy prices ps i m (put_thread i (pc, t, w') s)"
  using assms put_thread_ok [of tbl s w' pc t i]
  by (auto simp: calm_def sole_def put_thread_def)

lemma calm_slot:
  assumes "calm tbl healthy prices ps i m s" and "s_threads s ! i = (pc, t)" and "pc \<noteq> Done"
  shows "thread_inv tbl t (s_world s)" and "i < length (s_threads s)" and "fair_world healthy prices ps (s_world s)"
proof -
  show i: "i < length (s_threads s)" and "fair_world healthy prices ps (s_world s)"
    using assms(1) by (simp_all add: calm_def sole_def)
  have "slot_inv tbl (s_world s) (s_threads s ! i)" using assms(1) i by (simp add: calm_def system_ok_def)
  with assms(2,3) show "thread_inv tbl t (s_world s)" by (simp add: slot_inv_def)
qed

lemma own_receive:
  assumes "calm tbl healthy prices ps i m s" and "s_threads s ! i = (Receiving, t)" and "t_status t \<noteq> CRC8_TEST_FAILED"
    and "length f = 10" and "frame_ok f" and "f ! 0 \<in> {START_APP, CLOSE_APP}"
  shows "\<exists>n s'. take_turn eng start (Receive i (Received f)) s = Some s' \<and> calm tbl healthy prices ps i m s' \<and>
    s_world s' = s_world s \<and> length (s_threads s') = length (s_threads s) \<and> cstr n = frame_mac f \<and>
    s_threads s' ! i = (if f ! 0 = START_APP then Looking_up else Closing, t\<lparr>t_buff := f, t_status := f ! 0,
        t_client := (t_client t)\<lparr>mac_address := n, x_axis := f ! 7, y_axis := f ! 8\<rparr>\<rparr>)"
proof -
  note sl = calm_slot [OF assms(1,2)]
  have inv: "thread_inv tbl t (s_world s)" using sl(1) by simp
  obtain n where r: "receive_section (Received f) t (s_world s) = Some (if f ! 0 = START_APP then Looking_up else Closing,
      t\<lparr>t_buff := f, t_status := f ! 0,
        t_client := (t_client t)\<lparr>mac_address := n, x_axis := f ! 7, y_axis := f ! 8\<rparr>\<rparr>, s_world s)"
    "cstr n = frame_mac f"
    using receive_request_eq [OF inv assms(4,5,3,6)] by blast
  let ?r = "(if f ! 0 = START_APP then Looking_up else Closing, t\<lparr>t_buff := f, t_status := f ! 0,
        t_client := (t_client t)\<lparr>mac_address := n, x_axis := f ! 7, y_axis := f ! 8\<rparr>\<rparr>, s_world s)"
  have "evolves tbl (s_world s) (s_world s)" "thread_inv tbl (fst (snd ?r)) (s_world s)"
    using receive_section_ok [OF inv, of "Received f"] r(1) by auto
  then have "calm tbl healthy prices ps i m (put_thread i ?r s)"
    using own_put [OF assms(1) _ slot_inv_thread sl(3)] by simp
  with r assms(2) sl(2) show ?thesis by (intro exI [of _ n] exI [of _ "put_thread i ?r s"]) simp
qed

context sqlite_contract
begin

text \<open>The common part: a section that is defined keeps the system calm if the databases stay fair.\<close>

lemma own_act:
  assumes "calm tbl healthy prices ps i m s" and "s_threads s ! i = (pc, t)" and "pc \<notin> {Receiving, Done}"
    and "act_section eng pc t (s_world s) = Some (pc', t', w')" and "fair_world healthy prices ps w'"
  shows "\<exists>s'. take_turn eng start (Act i) s = Some s' \<and> calm tbl healthy prices ps i m s' \<and> s_world s' = w' \<and>
    length (s_threads s') = length (s_threads s) \<and> s_threads s' ! i = (pc', t') \<and> evolves tbl (s_world s) w'"
proof -
  have inv: "thread_inv tbl t (s_world s)" and i: "i < length (s_threads s)" using calm_slot [OF assms(1,2)] assms(3) by auto
  have e: "evolves tbl (s_world s) w'" "slot_inv tbl w' (pc', t')"
    using act_section_ok [OF inv assms(3)] assms(4) by auto
  show ?thesis using own_put [OF assms(1) e assms(5)] assms(2-4) i e(1)
    by (intro exI [of _ "put_thread i (pc', t', w') s"]) simp
qed

lemma own_lookup:
  assumes "calm tbl healthy prices ps i m s" and "s_threads s ! i = (Looking_up, t)" and "t_checked t = FALSE"
  shows "\<exists>s'. take_turn eng start (Act i) s = Some s' \<and> calm tbl healthy prices ps i m s' \<and> s_world s' = s_world s \<and>
    length (s_threads s') = length (s_threads s) \<and>
    s_threads s' ! i = (if rows_of (cstr (mac_address (t_client t))) (tbl (db_client (s_world s))) = [] then Entering else Resuming, t)"
proof -
  have a: "client_inv (s_world s) (t_client t)" "fair_world healthy prices ps (s_world s)"
    using calm_slot [OF assms(1,2)] by (auto simp: thread_inv_def)
  then have "act_section eng Looking_up t (s_world s) =
      Some (if rows_of (cstr (mac_address (t_client t))) (tbl (db_client (s_world s))) = [] then Entering else Resuming, t, s_world s)"
    using lookup_eq [OF a(1), of "t_checked t"] assms(3) by (simp add: fair_world_def new_client_def flag_defs)
  from own_act [OF assms(1,2) _ this a(2)] show ?thesis by auto
qed

text \<open>A new client: the clock and the city, the row, the answer.\<close>

lemma own_enter:
  assumes "calm tbl healthy prices ps i m s" and "s_threads s ! i = (Entering, t)"
  defines "w \<equiv> s_world s"
  shows "\<exists>s' l. take_turn eng start (Act i) s = Some s' \<and> calm tbl healthy prices ps i m s' \<and>
    length (s_threads s') = length (s_threads s) \<and> evolves tbl w (s_world s') \<and> outbox (s_world s') = outbox w \<and>
    cstr l = location_name (x_axis (t_client t)) (y_axis (t_client t)) \<and>
    s_threads s' ! i = (Inserting, t\<lparr>t_client := (t_client t)\<lparr>time_start_parking := word_of_int (clock w (ticks w)), location := l\<rparr>\<rparr>)"
proof -
  have a: "client_inv w (t_client t)" "fair_world healthy prices ps w"
    using calm_slot [OF assms(1,2)] by (auto simp: thread_inv_def w_def)
  from start_time_eq [OF a(1)] obtain l where l: "initialize_and_get_start_time (t_client t) w = Some
      ((t_client t)\<lparr>time_start_parking := word_of_int (clock w (ticks w)), location := l\<rparr>, w\<lparr>ticks := ticks w + 1\<rparr>)"
    "cstr l = location_name (x_axis (t_client t)) (y_axis (t_client t))" by blast
  have "act_section eng Entering t (s_world s) = Some (Inserting, t\<lparr>t_client := (t_client t)\<lparr>time_start_parking :=
      word_of_int (clock w (ticks w)), location := l\<rparr>\<rparr>, w\<lparr>ticks := ticks w + 1\<rparr>)"
    using l(1) by (simp add: w_def [symmetric])
  moreover have "fair_world healthy prices ps (w\<lparr>ticks := ticks w + 1\<rparr>)" using a(2) by (simp add: fair_world_def)
  ultimately show ?thesis using own_act [OF assms(1,2)] l(2) by (fastforce simp: w_def [symmetric])
qed

lemma own_insert:
  assumes "calm tbl healthy prices ps i m s" and "s_threads s ! i = (Inserting, t)"
  defines "w \<equiv> s_world s"
  shows "\<exists>s'. take_turn eng start (Act i) s = Some s' \<and> calm tbl healthy prices ps i m s' \<and>
    length (s_threads s') = length (s_threads s) \<and> evolves tbl w (s_world s') \<and> outbox (s_world s') = outbox w \<and>
    s_threads s' ! i = (Announcing, t\<lparr>t_return_value := STAY,
      t_client := (t_client t)\<lparr>price := city_price ps (cstr (location (t_client t))) (price (t_client t))\<rparr>\<rparr>)"
proof -
  let ?c = "(t_client t)\<lparr>price := city_price ps (cstr (location (t_client t))) (price (t_client t))\<rparr>"
  have a: "client_inv w (t_client t)" "\<not> locked w" "fair_world healthy prices ps w"
    using calm_slot [OF assms(1,2)] by (auto simp: thread_inv_def w_def)
  from insert_new_eq [OF a, of "t_status t"] obtain db' where 1:
    "insert_new_client eng (t_client t) (t_status t) w = Some (STAY, ?c, t_status t, w\<lparr>db_client := db', locked := False\<rparr>)"
    "healthy db'" by blast
  have "act_section eng Inserting t (s_world s) = Some (Announcing, t\<lparr>t_return_value := STAY, t_client := ?c\<rparr>,
      w\<lparr>db_client := db', locked := False\<rparr>)"
    using 1(1) by (simp add: w_def [symmetric] flag_defs Let_def)
  moreover have "fair_world healthy prices ps (w\<lparr>db_client := db', locked := False\<rparr>)" using a(3) 1(2) by (simp add: fair_world_def)
  ultimately show ?thesis using own_act [OF assms(1,2)] by (fastforce simp: w_def [symmetric])
qed

lemma own_announce:
  assumes "calm tbl healthy prices ps i m s" and "s_threads s ! i = (Announcing, t)" and "t_return_value t = STAY"
  defines "w \<equiv> s_world s"
  shows "\<exists>s'. take_turn eng start (Act i) s = Some s' \<and> calm tbl healthy prices ps i m s' \<and>
    length (s_threads s') = length (s_threads s) \<and> evolves tbl w (s_world s') \<and>
    outbox (s_world s') = outbox w @ [(client_fd (t_client t), Chars (location (t_client t)))] \<and>
    s_threads s' ! i = (Receiving, t\<lparr>t_client := (t_client t)\<lparr>connected := TRUE\<rparr>\<rparr>)"
proof -
  let ?w' = "w\<lparr>sends := sends w + 1, outbox := outbox w @ [(client_fd (t_client t), Chars (location (t_client t)))]\<rparr>"
  have a: "fair_world healthy prices ps w" using calm_slot(3) [OF assms(1,2)] by (simp add: w_def)
  have "act_section eng Announcing t (s_world s) = Some (Receiving, t\<lparr>t_client := (t_client t)\<lparr>connected := TRUE\<rparr>\<rparr>, ?w')"
    using announce_eq [OF a, of "t_client t"] assms(3) by (simp add: w_def [symmetric] loop_pc_def flag_defs case_prod_beta Let_def)
  moreover have "fair_world healthy prices ps ?w'" using a by (simp add: fair_world_def)
  ultimately show ?thesis using own_act [OF assms(1,2)] by (fastforce simp: w_def [symmetric])
qed

lemma own_close:
  assumes "calm tbl healthy prices ps i m s" and "s_threads s ! i = (Closing, t)"
  defines "w \<equiv> s_world s"
  shows "\<exists>s'. take_turn eng start (Act i) s = Some s' \<and> calm tbl healthy prices ps i m s' \<and>
    length (s_threads s') = length (s_threads s) \<and> evolves tbl w (s_world s') \<and> outbox (s_world s') = outbox w \<and>
    s_threads s' ! i = (Leaving, t\<lparr>t_client := (t_client t)\<lparr>connected := FALSE\<rparr>,
      t_end_time := word_of_int (clock w (ticks w)), t_return_value := QUIT\<rparr>)"
proof -
  have a: "thread_inv tbl t w" "fair_world healthy prices ps w" "healthy (db_client w)"
    using calm_slot [OF assms(1,2)] by (auto simp: w_def fair_world_def)
  obtain db' where 1: "handle_close_app eng t w = Some
      (t\<lparr>t_client := (t_client t)\<lparr>connected := FALSE\<rparr>, t_end_time := word_of_int (clock w (ticks w)), t_return_value := QUIT\<rparr>,
       w\<lparr>ticks := ticks w + 1, db_client := db', locked := False\<rparr>)" "healthy db'"
    using close_eq [OF a(1,3)] by blast
  have "act_section eng Closing t (s_world s) = Some (Leaving, t\<lparr>t_client := (t_client t)\<lparr>connected := FALSE\<rparr>,
      t_end_time := word_of_int (clock w (ticks w)), t_return_value := QUIT\<rparr>,
      w\<lparr>ticks := ticks w + 1, db_client := db', locked := False\<rparr>)"
    using 1(1) by (simp add: w_def [symmetric] loop_pc_def)
  moreover have "fair_world healthy prices ps (w\<lparr>ticks := ticks w + 1, db_client := db', locked := False\<rparr>)"
    using a(2) 1(2) by (simp add: fair_world_def)
  ultimately show ?thesis using own_act [OF assms(1,2)] by (fastforce simp: w_def [symmetric])
qed

lemma own_bill:
  assumes "calm tbl healthy prices ps i m s" and "s_threads s ! i = (Leaving, t)" and "t_status t = CLOSE_APP"
  defines "w \<equiv> s_world s" and "used \<equiv> sint (t_end_time t) - sint (time_start_parking (t_client t))"
  shows "\<exists>s'. take_turn eng start (Act i) s = Some s' \<and> calm tbl healthy prices ps i m s' \<and>
    length (s_threads s') = length (s_threads s) \<and> evolves tbl w (s_world s') \<and> s_threads s' ! i = (Removing, t) \<and>
    outbox (s_world s') = outbox w @ [(client_fd (t_client t), Doubles [double_mult (price (t_client t)) (of_int used), of_int used])]"
proof -
  have a: "thread_inv tbl t w" "fair_world healthy prices ps w"
    using calm_slot [OF assms(1,2)] by (auto simp: w_def)
  then have i: "client_inv w (t_client t)" "0 \<le> sint (t_end_time t)" by (simp_all add: thread_inv_def)
  let ?w' = "w\<lparr>sends := sends w + 1, outbox := outbox w @ [(client_fd (t_client t),
      Doubles [double_mult (price (t_client t)) (of_int used), of_int used])]\<rparr>"
  have "act_section eng Leaving t (s_world s) = Some (Removing, t, ?w')"
    using payment_eq [OF i(1) a(2) i(2)] assms(3) by (simp add: w_def [symmetric] used_def)
  moreover have "fair_world healthy prices ps ?w'" using a(2) by (simp add: fair_world_def)
  ultimately show ?thesis using own_act [OF assms(1,2)] by (fastforce simp: w_def [symmetric])
qed

lemma own_remove:
  assumes "calm tbl healthy prices ps i m s" and "s_threads s ! i = (Removing, t)"
  defines "w \<equiv> s_world s"
  shows "\<exists>s'. take_turn eng start (Act i) s = Some s' \<and> calm tbl healthy prices ps i m s' \<and>
    evolves tbl w (s_world s') \<and> fst (s_threads s' ! i) = Done \<and> outbox (s_world s') = outbox w \<and>
    rows_of (cstr (mac_address (t_client t))) (tbl (db_client (s_world s'))) = []"
proof -
  let ?l = "w\<lparr>locked := True\<rparr>"
  have a: "client_inv ?l (t_client t)" "healthy (db_client ?l)" "\<not> locked w" "fair_world healthy prices ps w"
    using calm_slot [OF assms(1,2)] by (auto simp: w_def fair_world_def thread_inv_def)
  obtain db' where 1: "remove_client_data eng (mac_address (t_client t)) ?l = Some (?l\<lparr>db_client := db'\<rparr>)" "healthy db'"
    "tbl db' = filter (\<lambda>r. p_mac r \<noteq> cstr (mac_address (t_client t))) (tbl (db_client ?l))"
    using remove_eq [OF a(1,2)] by blast
  let ?w' = "close_fd (client_fd (t_client t)) (?l\<lparr>db_client := db', locked := False\<rparr>)"
  have "act_section eng Removing t (s_world s) = Some (Done, t, ?w')"
    using 1(1) a(3) by (simp add: w_def [symmetric] mutex_lock_def mutex_unlock_def)
  moreover have "fair_world healthy prices ps ?w'" using a(4) 1(2) by (simp add: fair_world_def close_fd_def)
  moreover have "rows_of (cstr (mac_address (t_client t))) (tbl db') = []" using 1(3) by (simp add: filter_empty_conv)
  ultimately show ?thesis using own_act [OF assms(1,2)] by (fastforce simp: w_def [symmetric] close_fd_def)
qed

end

end
