(* ===== verification/Server_Interleaved.thy ===== *)
theory Server_Interleaved
  imports Server_Isolation
begin

text \<open>
  Sessions among other threads: a parking whose turns are separated by arbitrary turns of the
  threads of other vehicles and of the backup thread.
\<close>

section \<open>A session in parts\<close>

lemma accepts_append [simp]: "accepts (ls @ ms) = accepts ls + accepts ms"
  by (induction ls rule: accepts.induct) auto

context sqlite_contract
begin

text \<open>
  A session of one vehicle in parts: the start request up to the turn that reads the clock,
  the turns that enter the vehicle, the close request up to the turn that handles it, and the rest.
\<close>

lemma outbox_more: "undisturbed tbl i m s s' \<Longrightarrow> \<exists>ms. outbox (s_world s') = outbox (s_world s) @ ms"
  by (auto simp: undisturbed_def evolves_def sent_more_def)

lemma session_start:
  assumes "calm tbl healthy prices ps i m s" and "0 \<le> sint start" and "m \<noteq> []"
    and "s_threads s ! i = (Receiving, t)" and "t_status t \<noteq> CRC8_TEST_FAILED" and "t_checked t = FALSE"
    and "length f = 10" and "frame_ok f" and "f ! 0 = START_APP" and "frame_mac f = m"
    and "rows_of m (tbl (db_client (s_world s))) = []"
    and "list_all (elsewhere i m) l1" and "list_all (elsewhere i m) l2"
    and "length (s_threads s) + accepts l1 + accepts l2 \<le> SERVER_MAX_NUM_CLIENTS"
  shows "\<exists>s1 n o1. run_schedule eng start (Receive i (Received f) # l1 @ Act i # l2) s = Some s1 \<and>
    calm tbl healthy prices ps i m s1 \<and> length (s_threads s1) = length (s_threads s) + accepts l1 + accepts l2 \<and>
    outbox (s_world s1) = outbox (s_world s) @ o1 \<and> clock (s_world s1) = clock (s_world s) \<and>
    rows_of m (tbl (db_client (s_world s1))) = [] \<and> cstr n = m \<and>
    s_threads s1 ! i = (Entering, t\<lparr>t_buff := f, t_status := START_APP,
      t_client := (t_client t)\<lparr>mac_address := n, x_axis := f ! 7, y_axis := f ! 8\<rparr>\<rparr>)"
proof -
  from own_receive [OF assms(1,4,5,7,8), where eng = eng and start = start] assms(9) obtain n sa where
    a: "take_turn eng start (Receive i (Received f)) s = Some sa" "calm tbl healthy prices ps i m sa" "s_world sa = s_world s"
      "length (s_threads sa) = length (s_threads s)" "cstr n = m"
      "s_threads sa ! i = (Looking_up, t\<lparr>t_buff := f, t_status := START_APP,
        t_client := (t_client t)\<lparr>mac_address := n, x_axis := f ! 7, y_axis := f ! 8\<rparr>\<rparr>)"
    by (auto simp: assms(10))
  let ?t = "t\<lparr>t_buff := f, t_status := START_APP,
    t_client := (t_client t)\<lparr>mac_address := n, x_axis := f ! 7, y_axis := f ! 8\<rparr>\<rparr>"
  from elsewhere_run [OF a(2) assms(12,2,3)] assms(14) a(4) obtain sb where
    b: "run_schedule eng start l1 sa = Some sb" "calm tbl healthy prices ps i m sb" "undisturbed tbl i m sa sb"
      "length (s_threads sb) = length (s_threads s) + accepts l1" by auto
  then have b': "s_threads sb ! i = (Looking_up, ?t)" "rows_of m (tbl (db_client (s_world sb))) = []"
    "clock (s_world sb) = clock (s_world s)"
    using a(3,6) assms(11) by (auto simp: undisturbed_def evolves_def)
  from own_lookup [OF b(2) b'(1), of start] a(5) assms(6) b'(2) obtain sc where
    c: "take_turn eng start (Act i) sb = Some sc" "calm tbl healthy prices ps i m sc" "s_world sc = s_world sb"
      "length (s_threads sc) = length (s_threads sb)" "s_threads sc ! i = (Entering, ?t)" by auto
  from elsewhere_run [OF c(2) assms(13,2,3)] assms(14) b(4) c(4) obtain s1 where
    d: "run_schedule eng start l2 sc = Some s1" "calm tbl healthy prices ps i m s1" "undisturbed tbl i m sc s1"
      "length (s_threads s1) = length (s_threads s) + accepts l1 + accepts l2" by auto
  then have d': "s_threads s1 ! i = (Entering, ?t)" "rows_of m (tbl (db_client (s_world s1))) = []"
    "clock (s_world s1) = clock (s_world s)"
    using c(3,5) b'(2,3) by (auto simp: undisturbed_def evolves_def)
  obtain o1 where "outbox (s_world s1) = outbox (s_world s) @ o1"
    using outbox_more [OF b(3)] outbox_more [OF d(3)] a(3) c(3) by auto
  with a(1,5) b(1) c(1) d(1,2,4) d' show ?thesis
    by (intro exI [of _ s1] exI [of _ n] exI [of _ o1]) (simp add: run_schedule_append del: take_turn.simps)
qed

text \<open>The turns that enter the vehicle: what others do in between changes none of it.\<close>

lemma session_enter:
  assumes "calm tbl healthy prices ps i m s" and "0 \<le> sint start" and "m \<noteq> []"
    and "s_threads s ! i = (Entering, t)" and "list_all (elsewhere i m) (l3 @ l4 @ l5)"
    and "length (s_threads s) + accepts (l3 @ l4 @ l5) \<le> SERVER_MAX_NUM_CLIENTS"
  defines "city \<equiv> location_name (x_axis (t_client t)) (y_axis (t_client t))"
  shows "\<exists>s2 l o1 o2. run_schedule eng start (Act i # l3 @ Act i # l4 @ Act i # l5) s = Some s2 \<and>
    calm tbl healthy prices ps i m s2 \<and> length (s_threads s2) = length (s_threads s) + accepts (l3 @ l4 @ l5) \<and>
    outbox (s_world s2) = outbox (s_world s) @ o1 @ [(client_fd (t_client t), Chars l)] @ o2 \<and> cstr l = city \<and>
    clock (s_world s2) = clock (s_world s) \<and>
    s_threads s2 ! i = (Receiving, t\<lparr>t_return_value := STAY, t_client := (t_client t)\<lparr>
      time_start_parking := word_of_int (clock (s_world s) (ticks (s_world s))), location := l,
      price := city_price ps city (price (t_client t)), connected := TRUE\<rparr>\<rparr>)"
proof -
  let ?w = "s_world s"
  have ls: "list_all (elsewhere i m) l3" "list_all (elsewhere i m) l4" "list_all (elsewhere i m) l5"
    using assms(5) by simp_all
  from own_enter [OF assms(1,4), of start] obtain sa l where
    a: "take_turn eng start (Act i) s = Some sa" "calm tbl healthy prices ps i m sa" "length (s_threads sa) = length (s_threads s)"
      "evolves tbl ?w (s_world sa)" "outbox (s_world sa) = outbox ?w" "cstr l = city"
      "s_threads sa ! i = (Inserting, t\<lparr>t_client := (t_client t)\<lparr>time_start_parking := word_of_int (clock ?w (ticks ?w)), location := l\<rparr>\<rparr>)"
    unfolding city_def by blast
  from elsewhere_run [OF a(2) ls(1) assms(2,3)] assms(6) a(3) obtain sb where
    b: "run_schedule eng start l3 sa = Some sb" "calm tbl healthy prices ps i m sb" "undisturbed tbl i m sa sb"
      "length (s_threads sb) = length (s_threads s) + accepts l3" by auto
  from b(3) a(7) have tb: "s_threads sb ! i = (Inserting, t\<lparr>t_client := (t_client t)\<lparr>time_start_parking :=
      word_of_int (clock ?w (ticks ?w)), location := l\<rparr>\<rparr>)" by (simp add: undisturbed_def)
  from own_insert [OF b(2) tb, of start] obtain sc where
    c: "take_turn eng start (Act i) sb = Some sc" "calm tbl healthy prices ps i m sc" "length (s_threads sc) = length (s_threads sb)"
      "evolves tbl (s_world sb) (s_world sc)" "outbox (s_world sc) = outbox (s_world sb)"
      "s_threads sc ! i = (Announcing, t\<lparr>t_return_value := STAY, t_client := (t_client t)\<lparr>time_start_parking :=
        word_of_int (clock ?w (ticks ?w)), location := l, price := city_price ps city (price (t_client t))\<rparr>\<rparr>)"
    by (auto simp: a(6))
  from elsewhere_run [OF c(2) ls(2) assms(2,3)] assms(6) b(4) c(3) obtain sd where
    d: "run_schedule eng start l4 sc = Some sd" "calm tbl healthy prices ps i m sd" "undisturbed tbl i m sc sd"
      "length (s_threads sd) = length (s_threads s) + accepts l3 + accepts l4" by auto
  from d(3) c(6) have td: "s_threads sd ! i = (Announcing, t\<lparr>t_return_value := STAY, t_client := (t_client t)\<lparr>time_start_parking :=
        word_of_int (clock ?w (ticks ?w)), location := l, price := city_price ps city (price (t_client t))\<rparr>\<rparr>)"
    by (simp add: undisturbed_def)
  from own_announce [OF d(2) td, of start] obtain se where
    e: "take_turn eng start (Act i) sd = Some se" "calm tbl healthy prices ps i m se" "length (s_threads se) = length (s_threads sd)"
      "evolves tbl (s_world sd) (s_world se)" "outbox (s_world se) = outbox (s_world sd) @ [(client_fd (t_client t), Chars l)]"
      "s_threads se ! i = (Receiving, t\<lparr>t_return_value := STAY, t_client := (t_client t)\<lparr>time_start_parking :=
        word_of_int (clock ?w (ticks ?w)), location := l, price := city_price ps city (price (t_client t)), connected := TRUE\<rparr>\<rparr>)"
    by auto
  from elsewhere_run [OF e(2) ls(3) assms(2,3)] assms(6) d(4) e(3) obtain s2 where
    f: "run_schedule eng start l5 se = Some s2" "calm tbl healthy prices ps i m s2" "undisturbed tbl i m se s2"
      "length (s_threads s2) = length (s_threads s) + accepts (l3 @ l4 @ l5)" by auto
  have "clock (s_world s2) = clock ?w" "s_threads s2 ! i = s_threads se ! i"
    using a(4) b(3) c(4) d(3) e(4) f(3) by (auto simp: undisturbed_def evolves_def)
  moreover obtain m1 m2 m3 where "outbox (s_world sb) = outbox (s_world sa) @ m1" "outbox (s_world sd) = outbox (s_world sc) @ m2"
    "outbox (s_world s2) = outbox (s_world se) @ m3"
    using outbox_more [OF b(3)] outbox_more [OF d(3)] outbox_more [OF f(3)] by blast
  ultimately show ?thesis using a(1,5,6) b(1) c(1,5) d(1) e(1,5,6) f(1,2,4)
    by (intro exI [of _ s2] exI [of _ l] exI [of _ "m1 @ m2"] exI [of _ m3]) (simp add: run_schedule_append del: take_turn.simps)
qed

lemma session_closing:
  assumes "calm tbl healthy prices ps i m s" and "0 \<le> sint start" and "m \<noteq> []"
    and "s_threads s ! i = (Receiving, t)" and "t_status t \<noteq> CRC8_TEST_FAILED"
    and "length g = 10" and "frame_ok g" and "g ! 0 = CLOSE_APP" and "frame_mac g = m"
    and "list_all (elsewhere i m) ls" and "length (s_threads s) + accepts ls \<le> SERVER_MAX_NUM_CLIENTS"
  shows "\<exists>s2 t2 o2. run_schedule eng start (Receive i (Received g) # ls) s = Some s2 \<and>
    calm tbl healthy prices ps i m s2 \<and> length (s_threads s2) = length (s_threads s) + accepts ls \<and>
    outbox (s_world s2) = outbox (s_world s) @ o2 \<and> clock (s_world s2) = clock (s_world s) \<and>
    s_threads s2 ! i = (Closing, t2) \<and> t_status t2 = CLOSE_APP \<and> cstr (mac_address (t_client t2)) = m \<and>
    client_fd (t_client t2) = client_fd (t_client t) \<and> price (t_client t2) = price (t_client t) \<and>
    time_start_parking (t_client t2) = time_start_parking (t_client t)"
proof -
  have ne: "CLOSE_APP \<noteq> START_APP" by (simp add: status_defs)
  from own_receive [OF assms(1,4,5,6,7), where eng = eng and start = start] assms(8) ne obtain sc t2 where
    c: "take_turn eng start (Receive i (Received g)) s = Some sc" "calm tbl healthy prices ps i m sc" "s_world sc = s_world s"
      "length (s_threads sc) = length (s_threads s)" "s_threads sc ! i = (Closing, t2)"
      "t_status t2 = CLOSE_APP" "cstr (mac_address (t_client t2)) = m"
      "client_fd (t_client t2) = client_fd (t_client t)" "price (t_client t2) = price (t_client t)"
      "time_start_parking (t_client t2) = time_start_parking (t_client t)"
    by (auto simp: assms(9))
  from elsewhere_run [OF c(2) assms(10,2,3)] assms(11) c(4) obtain s2 where
    d: "run_schedule eng start ls sc = Some s2" "calm tbl healthy prices ps i m s2" "undisturbed tbl i m sc s2"
      "length (s_threads s2) = length (s_threads s) + accepts ls" by auto
  have "clock (s_world s2) = clock (s_world s)" "s_threads s2 ! i = (Closing, t2)"
    using c(3,5) d(3) by (auto simp: undisturbed_def evolves_def)
  moreover obtain o2 where "outbox (s_world s2) = outbox (s_world s) @ o2" using outbox_more [OF d(3)] c(3) by auto
  ultimately show ?thesis using c d(1,2,4)
    by (intro exI [of _ s2] exI [of _ t2] exI [of _ o2]) (simp del: take_turn.simps)
qed

lemma session_close:
  assumes "calm tbl healthy prices ps i m s" and "0 \<le> sint start" and "m \<noteq> []"
    and "s_threads s ! i = (Closing, t)" and "cstr (mac_address (t_client t)) = m" and "t_status t = CLOSE_APP"
    and "list_all (elsewhere i m) l5" and "list_all (elsewhere i m) l6"
    and "length (s_threads s) + accepts l5 + accepts l6 \<le> SERVER_MAX_NUM_CLIENTS"
  defines "used \<equiv> clock (s_world s) (ticks (s_world s)) - sint (time_start_parking (t_client t))"
  shows "\<exists>s3 o2 o3. run_schedule eng start (Act i # l5 @ Act i # l6 @ [Act i]) s = Some s3 \<and>
    outbox (s_world s3) = outbox (s_world s) @ o2 @
      [(client_fd (t_client t), Doubles [double_mult (price (t_client t)) (of_int used), of_int used])] @ o3 \<and>
    rows_of m (tbl (db_client (s_world s3))) = [] \<and> fst (s_threads s3 ! i) = Done"
proof -
  let ?w = "s_world s"
  have now: "sint (word_of_int (clock ?w (ticks ?w)) :: int32) = clock ?w (ticks ?w)"
    using assms(1) clock_range(3) by (auto simp: calm_def system_ok_def world_ok_def)
  from own_close [OF assms(1,4), of start] obtain sa where
    a: "take_turn eng start (Act i) s = Some sa" "calm tbl healthy prices ps i m sa" "length (s_threads sa) = length (s_threads s)"
      "outbox (s_world sa) = outbox ?w"
    and ta: "s_threads sa ! i = (Leaving, t\<lparr>t_client := (t_client t)\<lparr>connected := FALSE\<rparr>,
      t_end_time := word_of_int (clock ?w (ticks ?w)), t_return_value := QUIT\<rparr>)" by auto
  let ?t = "t\<lparr>t_client := (t_client t)\<lparr>connected := FALSE\<rparr>,
      t_end_time := word_of_int (clock ?w (ticks ?w)), t_return_value := QUIT\<rparr>"
  from elsewhere_run [OF a(2) assms(7,2,3)] assms(9) a(3) obtain sb where
    b: "run_schedule eng start l5 sa = Some sb" "calm tbl healthy prices ps i m sb" "undisturbed tbl i m sa sb"
      "length (s_threads sb) = length (s_threads s) + accepts l5" by auto
  then have tb: "s_threads sb ! i = (Leaving, ?t)" using ta by (simp add: undisturbed_def)
  have st: "t_status ?t = CLOSE_APP" using assms(6) by simp
  have u: "sint (t_end_time ?t) - sint (time_start_parking (t_client ?t)) = used" using now by (simp add: used_def)
  from own_bill [OF b(2) tb st, of start, unfolded u] obtain sc where
    c: "take_turn eng start (Act i) sb = Some sc" "calm tbl healthy prices ps i m sc"
      "length (s_threads sc) = length (s_threads sb)" "s_threads sc ! i = (Removing, ?t)"
      "outbox (s_world sc) = outbox (s_world sb) @ [(client_fd (t_client t), Doubles [double_mult (price (t_client t)) (of_int used), of_int used])]"
    by auto
  from elsewhere_run [OF c(2) assms(8,2,3)] assms(9) b(4) c(3) obtain sd where
    d: "run_schedule eng start l6 sc = Some sd" "calm tbl healthy prices ps i m sd" "undisturbed tbl i m sc sd" by auto
  then have td: "s_threads sd ! i = (Removing, ?t)" using c(4) by (simp add: undisturbed_def)
  from own_remove [OF d(2) td, of start] assms(5) obtain s3 where
    e: "take_turn eng start (Act i) sd = Some s3" "fst (s_threads s3 ! i) = Done" "outbox (s_world s3) = outbox (s_world sd)"
      "rows_of m (tbl (db_client (s_world s3))) = []" by auto
  obtain o2 o3 where "outbox (s_world sb) = outbox ?w @ o2" "outbox (s_world sd) = outbox (s_world sc) @ o3"
    using outbox_more [OF b(3)] outbox_more [OF d(3)] a(4) by auto
  with a(1) b(1) c(1,5) d(1) e show ?thesis
    by (intro exI [of _ s3] exI [of _ o2] exI [of _ o3]) (simp add: run_schedule_append del: take_turn.simps)
qed

end

section \<open>Properties\<close>

lemma mac_text_nonempty: "length bs = 6 \<Longrightarrow> mac_text bs \<noteq> []"
  by (cases bs rule: mac_text.cases) simp_all

lemma frame_mac_nonempty: "length f = 10 \<Longrightarrow> frame_mac f \<noteq> []"
  unfolding frame_mac_def by (rule mac_text_nonempty) simp

lemma interleaved_parking:
  assumes "sqlite_contract eng tbl prices healthy" and "calm tbl healthy prices ps i (frame_mac f) s" and "0 \<le> sint start"
    and "s_threads s ! i = (Receiving, thread_start (zeroed_client\<lparr>client_fd := fd\<rparr>))"
    and "parking_frames f g (tbl (db_client (s_world s)))"
    and "list_all (elsewhere i (frame_mac f)) (l1 @ l2 @ l3 @ l4 @ l5 @ l6 @ l7 @ l8)"
    and "length (s_threads s) + accepts (l1 @ l2 @ l3 @ l4 @ l5 @ l6 @ l7 @ l8) \<le> SERVER_MAX_NUM_CLIENTS"
  shows "\<exists>s1 s2 s3 l o1 o2 o3 used.
    run_schedule eng start (Receive i (Received f) # l1 @ Act i # l2) s = Some s1 \<and>
    run_schedule eng start (Act i # l3 @ Act i # l4 @ Act i # l5 @ Receive i (Received g) # l6) s1 = Some s2 \<and>
    run_schedule eng start (Act i # l7 @ Act i # l8 @ [Act i]) s2 = Some s3 \<and>
    used = clock (s_world s) (ticks (s_world s2)) - clock (s_world s) (ticks (s_world s1)) \<and>
    outbox (s_world s3) = outbox (s_world s) @ o1 @ [(fd, Chars l)] @ o2 @
      [(fd, Doubles [double_mult (city_price ps (frame_city f) 0) (of_int used), of_int used])] @ o3 \<and>
    cstr l = frame_city f \<and> rows_of (frame_mac f) (tbl (db_client (s_world s3))) = [] \<and>
    fst (s_threads s3 ! i) = Done"
proof -
  let ?m = "frame_mac f" and ?t = "thread_start (zeroed_client\<lparr>client_fd := fd\<rparr>)"
  have f: "length f = 10" "frame_ok f" "f ! 0 = START_APP" "length g = 10" "frame_ok g" "g ! 0 = CLOSE_APP"
    "frame_mac g = ?m" using assms(5) by (simp_all add: parking_frames_def)
  have ne: "?m \<noteq> []" by (rule frame_mac_nonempty [OF f(1)])
  have t: "t_status ?t \<noteq> CRC8_TEST_FAILED" "t_checked ?t = FALSE" by (simp_all add: thread_start_def status_defs)
  have ls: "list_all (elsewhere i ?m) l" if "l \<in> {l1, l2, l3 @ l4 @ l5, l6, l7, l8}" for l using assms(6) that by auto
  have "rows_of ?m (tbl (db_client (s_world s))) = []" by (rule parking_events(3) [OF assms(5)])
  from sqlite_contract.session_start [OF assms(1-3) ne assms(4) t f(1-3) refl this ls ls, of l1 l2] assms(7)
  obtain s1 n o1 where 1: "run_schedule eng start (Receive i (Received f) # l1 @ Act i # l2) s = Some s1"
    "calm tbl healthy prices ps i ?m s1" "length (s_threads s1) = length (s_threads s) + accepts l1 + accepts l2"
    "outbox (s_world s1) = outbox (s_world s) @ o1" "clock (s_world s1) = clock (s_world s)" "cstr n = ?m"
    "s_threads s1 ! i = (Entering, ?t\<lparr>t_buff := f, t_status := START_APP,
      t_client := (t_client ?t)\<lparr>mac_address := n, x_axis := f ! 7, y_axis := f ! 8\<rparr>\<rparr>)" by auto
  have t1: "location_name (f ! 7) (f ! 8) = frame_city f" "client_fd (t_client ?t) = fd" "price (t_client ?t) = 0"
    by (simp_all add: thread_start_def frame_city_def zeroed_client_def)
  have now: "sint (word_of_int (clock (s_world s1) k) :: int32) = clock (s_world s1) k" for k
    using 1(2) clock_range(3) by (auto simp: calm_def system_ok_def world_ok_def)
  from sqlite_contract.session_enter [OF assms(1) 1(2) assms(3) ne 1(7) ls, of l3 l4 l5] assms(7) 1(3) t1
  obtain sr l o2 o3 where r: "run_schedule eng start (Act i # l3 @ Act i # l4 @ Act i # l5) s1 = Some sr"
    "calm tbl healthy prices ps i ?m sr" "length (s_threads sr) = length (s_threads s1) + accepts (l3 @ l4 @ l5)"
    "outbox (s_world sr) = outbox (s_world s1) @ o2 @ [(fd, Chars l)] @ o3" "cstr l = frame_city f"
    "clock (s_world sr) = clock (s_world s1)" and tr:
    "s_threads sr ! i = (Receiving, ?t\<lparr>t_buff := f, t_status := START_APP, t_return_value := STAY, t_client := (t_client ?t)\<lparr>
      mac_address := n, x_axis := f ! 7, y_axis := f ! 8,
      time_start_parking := word_of_int (clock (s_world s1) (ticks (s_world s1))), location := l,
      price := city_price ps (frame_city f) 0, connected := TRUE\<rparr>\<rparr>)" by auto
  have st: "START_APP \<noteq> CRC8_TEST_FAILED" by (simp add: status_defs)
  from sqlite_contract.session_closing [OF assms(1) r(2) assms(3) ne tr _ f(4-7) ls, of l6] assms(7) 1(3) r(3) st t1(2)
  obtain s2 t2 o4 where 2: "run_schedule eng start (Receive i (Received g) # l6) sr = Some s2"
    "calm tbl healthy prices ps i ?m s2" "length (s_threads s2) = length (s_threads sr) + accepts l6"
    "outbox (s_world s2) = outbox (s_world sr) @ o4" "clock (s_world s2) = clock (s_world sr)"
    "s_threads s2 ! i = (Closing, t2)" "t_status t2 = CLOSE_APP" "cstr (mac_address (t_client t2)) = ?m"
    "client_fd (t_client t2) = fd" "price (t_client t2) = city_price ps (frame_city f) 0"
    "time_start_parking (t_client t2) = word_of_int (clock (s_world s1) (ticks (s_world s1)))" by auto
  define used where "used = clock (s_world s) (ticks (s_world s2)) - clock (s_world s) (ticks (s_world s1))"
  have u: "clock (s_world s2) (ticks (s_world s2)) - sint (time_start_parking (t_client t2)) = used"
    using now 1(5) r(6) 2(5,11) by (simp add: used_def)
  have "length (s_threads s2) + accepts l7 + accepts l8 \<le> SERVER_MAX_NUM_CLIENTS" using assms(7) 1(3) r(3) 2(3) by simp
  from sqlite_contract.session_close [OF assms(1) 2(2) assms(3) ne 2(6,8,7) ls ls this, unfolded u 2(9,10)]
  obtain s3 o5 o6 where 3: "run_schedule eng start (Act i # l7 @ Act i # l8 @ [Act i]) s2 = Some s3"
    "outbox (s_world s3) = outbox (s_world s2) @ o5 @
      [(fd, Doubles [double_mult (city_price ps (frame_city f) 0) (of_int used), of_int used])] @ o6"
    "rows_of ?m (tbl (db_client (s_world s3))) = []" "fst (s_threads s3 ! i) = Done" by auto
  have "run_schedule eng start (Act i # l3 @ Act i # l4 @ Act i # l5 @ Receive i (Received g) # l6) s1 = Some s2"
    using r(1) 2(1) run_schedule_append [of eng start "Act i # l3 @ Act i # l4 @ Act i # l5" "Receive i (Received g) # l6" s1]
    by (simp del: run_schedule.simps)
  moreover have "outbox (s_world s3) = outbox (s_world s) @ (o1 @ o2) @ [(fd, Chars l)] @ (o3 @ o4 @ o5) @
      [(fd, Doubles [double_mult (city_price ps (frame_city f) 0) (of_int used), of_int used])] @ o6"
    using 3(2) 2(4) r(4) 1(4) by simp
  ultimately show ?thesis using 1(1) r(5) 3(1,3,4) unfolding used_def by blast
qed

text \<open>
  C5: a parking is billed as if its thread were alone. Whatever turns of other connections,
  other vehicles' frames and backups come between its own turns, a fresh thread whose
  vehicle is not parked answers the start request with its city and the close request with
  the seconds between the clock reading at which it entered the row and the one at which it
  handled the close request, and ends without a row of its vehicle in the table.
\<close>

theorem interleaved_parking_is_billed_alone:
  assumes "sqlite_contract eng tbl prices healthy" and "calm tbl healthy prices ps i (frame_mac f) s" and "0 \<le> sint start"
    and "s_threads s ! i = (Receiving, thread_start (zeroed_client\<lparr>client_fd := fd\<rparr>))"
    and "parking_frames f g (tbl (db_client (s_world s)))"
    and "list_all (elsewhere i (frame_mac f)) (l1 @ l2 @ l3 @ l4 @ l5 @ l6 @ l7 @ l8)"
    and "length (s_threads s) + accepts (l1 @ l2 @ l3 @ l4 @ l5 @ l6 @ l7 @ l8) \<le> SERVER_MAX_NUM_CLIENTS"
  shows "\<exists>s1 s2 s3 l o1 o2 o3 used.
    run_schedule eng start (Receive i (Received f) # l1 @ Act i # l2) s = Some s1 \<and>
    run_schedule eng start (Act i # l3 @ Act i # l4 @ Act i # l5 @ Receive i (Received g) # l6) s1 = Some s2 \<and>
    run_schedule eng start (Act i # l7 @ Act i # l8 @ [Act i]) s2 = Some s3 \<and>
    used = clock (s_world s) (ticks (s_world s2)) - clock (s_world s) (ticks (s_world s1)) \<and>
    outbox (s_world s3) = outbox (s_world s) @ o1 @ [(fd, Chars l)] @ o2 @
      [(fd, Doubles [double_mult (city_price ps (frame_city f) 0) (of_int used), of_int used])] @ o3 \<and>
    cstr l = frame_city f \<and> rows_of (frame_mac f) (tbl (db_client (s_world s3))) = [] \<and>
    fst (s_threads s3 ! i) = Done"
  by (rule interleaved_parking [OF assms])

text \<open>A server on which two vehicles have just connected.\<close>

definition fresh_slot :: "byte \<Rightarrow> pc \<times> thread" where
  "fresh_slot fd = (Receiving, thread_start (zeroed_client\<lparr>client_fd := fd\<rparr>))"

definition two_connected :: "byte \<Rightarrow> byte \<Rightarrow> 'db world \<Rightarrow> 'db system" where
  "two_connected a b w = \<lparr>s_world = w, s_threads = [fresh_slot a, fresh_slot b], s_quit = 0\<rparr>"

lemma two_connected_calm:
  assumes "session_world tbl healthy prices ps w" and "m \<noteq> []" and "i < 2"
  shows "calm tbl healthy prices ps i m (two_connected a b w)"
proof -
  have w: "world_ok tbl w" "\<not> locked w" "fair_world healthy prices ps w" "clock_ok w"
    using assms(1) by (simp_all add: session_world_def world_ok_def)
  have slot: "slot_inv tbl w (fresh_slot fd)" for fd
    unfolding fresh_slot_def by (intro slot_inv_thread thread_inv_start w client_inv_zeroed)
  have mac: "cstr (mac_address (t_client (snd (fresh_slot fd)))) = []" for fd
    by (simp add: fresh_slot_def thread_start_def zeroed_client_def cstr_def size_defs)
  have "\<forall>j<2. cstr (mac_address (t_client (snd ([fresh_slot a, fresh_slot b] ! j)))) \<noteq> m"
    using assms(2) mac by (simp add: less_2_cases_iff)
  with w slot assms(3) show ?thesis
    by (simp add: calm_def system_ok_def sole_def two_connected_def size_defs numeral_2_eq_2)
qed

definition demo_server :: "ref_db system" where
  "demo_server = two_connected 4 5 (demo_world demo_rows)"

definition demo_other :: "byte list" where
  "demo_other = seal [1, 9, 8, 7, 6, 5, 4, 100, 100]"

lemma demo_other_text: "frame_mac demo_other = ''9:8:7:6:5:4''"
  by code_simp

lemma demo_other_mac: "frame_mac demo_other \<noteq> frame_mac demo_start"
  unfolding demo_frame_mac demo_other_text by simp

theorem interleaved_parking_is_billed_alone_witness:
  "\<exists>s1 s2 s3 l o1 o2 o3 used.
    run_schedule ref_engine 900 (Receive 0 (Received demo_start) # [Receive 1 (Received demo_other)] @ Act 0 # [Act 1, Backup]) demo_server = Some s1 \<and>
    run_schedule ref_engine 900 (Act 0 # [Act 1] @ Act 0 # [Accept 6] @ Act 0 # [Backup] @ Receive 0 (Received demo_close) # [Backup]) s1 = Some s2 \<and>
    run_schedule ref_engine 900 (Act 0 # [] @ Act 0 # [Receive 1 (Received [])] @ [Act 0]) s2 = Some s3 \<and>
    used = clock (s_world demo_server) (ticks (s_world s2)) - clock (s_world demo_server) (ticks (s_world s1)) \<and>
    outbox (s_world s3) = outbox (s_world demo_server) @ o1 @ [(4, Chars l)] @ o2 @
      [(4, Doubles [double_mult (city_price demo_prices (frame_city demo_start) 0) (of_int used), of_int used])] @ o3 \<and>
    cstr l = frame_city demo_start \<and> rows_of (frame_mac demo_start) (rd_rows (db_client (s_world s3))) = [] \<and>
    fst (s_threads s3 ! 0) = Done"
proof -
  have "rd_rows (db_client (s_world demo_server)) = demo_rows"
    by (simp add: demo_server_def two_connected_def demo_world_def demo_db_def)
  moreover have "calm rd_rows ref_healthy rd_prices demo_prices 0 (frame_mac demo_start) demo_server"
    unfolding demo_server_def demo_frame_mac by (rule two_connected_calm [OF demo_session_world [OF demo_rows_ok]]) simp_all
  moreover have "length demo_other = 10" using seal_ok by (simp add: demo_other_def)
  ultimately show ?thesis using demo_parking_frames demo_other_mac
    by (intro interleaved_parking_is_billed_alone [OF ref.sqlite_contract_axioms])
       (simp_all add: demo_server_def two_connected_def fresh_slot_def size_defs)
qed

end
