(* ===== verification/Server_Progress.thy ===== *)
theory Server_Progress
  imports Server_Threads
begin

text \<open>
  No thread of the server stalls: a thread that has received a frame is back at \<open>recv\<close>, or has
  ended, after four turns of its own, whatever turns the others take in between and however
  the databases fail.
\<close>

section \<open>The rank of a section\<close>

text \<open>
  The number of turns that a thread needs before it waits in \<open>recv\<close> or has ended. On its way out
  it takes one turn, and two when it has a bill to send before it removes the row.
\<close>

fun rank :: "pc \<times> thread \<Rightarrow> nat" where
  "rank (Looking_up, t) = 4"
| "rank (Entering, t) = 3"
| "rank (Inserting, t) = 2"
| "rank (Announcing, t) = (if t_return_value t = QUIT then 3 else 1)"
| "rank (Resuming, t) = 2"
| "rank (Closing, t) = 3"
| "rank (Leaving, t) = (if t_status t = CLOSE_APP then 2 else 1)"
| "rank (Removing, t) = 1"
| "rank (_, t) = 0"

lemma rank_0 [simp]: "rank slot = 0 \<longleftrightarrow> fst slot \<in> {Receiving, Done}"
  by (cases slot rule: rank.cases) auto

lemma rank_loop: "rank (loop_pc t, t) \<le> (if t_status t = CLOSE_APP then 2 else 1)"
  by (simp add: loop_pc_def)

lemma retriev_status:
  assumes "retriev_client_data eng c st w = Some (r, c', st', w')"
  shows "r = QUIT \<longrightarrow> st' = ERROR_STATUS_IN_CLIENT_EXIST_SUBFUNCTIONS"
  using assms by (auto simp: retriev_client_data_def Option.bind_eq_Some_conv case_prod_beta flag_defs split: if_splits)

lemma act_section_rank:
  assumes "act_section eng pc t w = Some (pc', t', w')"
  shows "rank (pc', t') < rank (pc, t)"
proof (cases pc)
  case Looking_up
  have "rank (loop_pc t, t) < 4" using rank_loop [of t] by (simp split: if_splits)
  with Looking_up assms show ?thesis by (auto simp: Option.bind_eq_Some_conv split: if_splits)
next
  case Resuming
  have n: "new_client TRUE \<noteq> TRUE" by (simp add: new_client_def flag_defs)
  from Resuming assms obtain r c st where "retriev_client_data eng (t_client t) (t_status t) w = Some (r, c, st, w')"
    "pc' = loop_pc t'" "t_return_value t' = r" "t_status t' = st"
    using n by (auto simp: Option.bind_eq_Some_conv Let_def split: if_splits)
  with retriev_status Resuming show ?thesis by (fastforce simp: loop_pc_def status_defs flag_defs split: if_splits)
next
  case Inserting
  from Inserting assms obtain r c st where "insert_new_client eng (t_client t) (t_status t) w = Some (r, c, st, w')"
    "pc' = (if r = QUIT then loop_pc t' else Announcing)" "t_return_value t' = r" "t_status t' = st"
    by (auto simp: Option.bind_eq_Some_conv Let_def)
  with insert_new_status Inserting show ?thesis by (fastforce simp: loop_pc_def status_defs split: if_splits)
next
  case Closing
  with assms show ?thesis using rank_loop [of t'] by (auto simp: Option.bind_eq_Some_conv split: if_splits)
qed (use assms in \<open>auto simp: Option.bind_eq_Some_conv Let_def loop_pc_def flag_defs split: if_splits prod.splits\<close>)

text \<open>A turn of the thread lowers its rank, other turns leave it.\<close>

fun acts :: "nat \<Rightarrow> turn list \<Rightarrow> nat" where
  "acts i [] = 0"
| "acts i (Act j # ls) = (if j = i then Suc (acts i ls) else acts i ls)"
| "acts i (l # ls) = acts i ls"

definition no_receive :: "nat \<Rightarrow> turn list \<Rightarrow> bool" where
  "no_receive i ls \<longleftrightarrow> (\<forall>r. Receive i r \<notin> set ls)"

lemma turn_rank:
  assumes "take_turn eng start l s = Some s'" and "i < length (s_threads s)" and "\<forall>r. l \<noteq> Receive i r"
  shows "i < length (s_threads s') \<and> rank (s_threads s' ! i) \<le> rank (s_threads s ! i) - acts i [l]"
proof (cases l)
  case (Accept fd)
  with assms show ?thesis by (auto simp: nth_append split: if_splits)
next
  case (Receive j r)
  with assms(1,2) have "i < length (s_threads s')"
    by (auto simp: Option.bind_eq_Some_conv put_thread_def split: if_splits)
  with Receive assms take_turn_elsewhere(1) [of eng start j r s s' i] show ?thesis by auto
next
  case (Act j)
  show ?thesis
  proof (cases "j = i")
    case True
    show ?thesis
    proof (cases "fst (s_threads s ! i) \<in> {Receiving, Done}")
      case rest: True
      then have r: "rank (s_threads s ! i) = 0" by (simp only: rank_0)
      from rest assms(1) Act True have "s' = s" by auto
      with r assms(2) show ?thesis by (simp del: rank_0)
    next
      case False
      with assms(1,2) Act True obtain pc t w where
        a: "act_section eng (fst (s_threads s ! i)) (snd (s_threads s ! i)) (s_world s) = Some (pc, t, w)"
        "s' = put_thread i (pc, t, w) s" by (auto simp: Option.bind_eq_Some_conv)
      from act_section_rank [OF a(1)] a(2) assms(2) Act True show ?thesis by simp
    qed
  next
    case False
    with assms(1,2) Act have "i < length (s_threads s')"
      by (auto simp: Option.bind_eq_Some_conv put_thread_def split: if_splits)
    with Act False assms take_turn_elsewhere(2) [of eng start j s s' i] show ?thesis by auto
  qed
next
  case Backup
  with assms show ?thesis by (auto simp: Option.bind_eq_Some_conv)
qed

lemma schedule_rank:
  assumes "run_schedule eng start ls s = Some s'" and "i < length (s_threads s)" and "no_receive i ls"
  shows "rank (s_threads s' ! i) \<le> rank (s_threads s ! i) - acts i ls"
  using assms
proof (induction ls arbitrary: s)
  case (Cons l ls)
  obtain s1 where 1: "take_turn eng start l s = Some s1" "run_schedule eng start ls s1 = Some s'"
    using Cons.prems(1) by (auto simp: Option.bind_eq_Some_conv)
  have l: "\<forall>r. l \<noteq> Receive i r" and ls: "no_receive i ls" using Cons.prems(3) by (auto simp: no_receive_def)
  note t = turn_rank [OF 1(1) Cons.prems(2) l]
  have "acts i (l # ls) = acts i [l] + acts i ls" by (cases l) simp_all
  with Cons.IH [OF 1(2) _ ls] t show ?case by force
qed simp

text \<open>
  C22: no thread stalls. Whatever a thread of the server is doing, a schedule that gives it four
  turns brings it back to \<open>recv\<close> or to its end, whatever the main thread, the other client threads
  and the backup thread do in between and whatever the databases answer: it is never blocked
  on the mutex and never loops.
\<close>

theorem no_thread_stalls:
  assumes "sqlite_contract eng tbl prices healthy" and "system_ok tbl s" and "0 \<le> sint start"
    and "length (s_threads s) + accepts ls \<le> SERVER_MAX_NUM_CLIENTS"
    and "i < length (s_threads s)" and "no_receive i ls" and "4 \<le> acts i ls"
  shows "\<exists>s'. run_schedule eng start ls s = Some s' \<and> fst (s_threads s' ! i) \<in> {Receiving, Done}"
proof -
  obtain s' where s': "run_schedule eng start ls s = Some s'" using schedule_ok [OF assms(1-4)] by blast
  have "rank slot \<le> 4" for slot by (cases slot rule: rank.cases) auto
  with schedule_rank [OF s' assms(5,6)] assms(7) have "rank (s_threads s' ! i) = 0"
    by (metis diff_is_0_eq le_trans le_zero_eq)
  with s' show ?thesis by (simp only: rank_0) blast
qed

theorem no_thread_stalls_witness:
  "let s = \<lparr>s_world = demo_world demo_rows, s_threads = [(Looking_up, thread_start zeroed_client)], s_quit = 0\<rparr> in
   \<exists>s'. run_schedule ref_engine 900 [Act 0, Backup, Act 0, Accept 5, Act 0, Receive 1 (Received []), Act 0] s = Some s' \<and>
     fst (s_threads s' ! 0) \<in> {Receiving, Done}"
  unfolding Let_def
proof (rule no_thread_stalls [OF ref.sqlite_contract_axioms])
  show "system_ok rd_rows \<lparr>s_world = demo_world demo_rows, s_threads = [(Looking_up, thread_start zeroed_client)], s_quit = 0\<rparr>"
  proof -
    have "client_inv (demo_world demo_rows) zeroed_client"
      using client_inv_demo [of demo_rows 0] by (simp add: zeroed_client_def)
    then show ?thesis using demo_world_ok [OF demo_rows_ok]
      by (auto simp: system_ok_def size_defs intro!: slot_inv_thread thread_inv_start)
  qed
qed (simp_all add: size_defs no_receive_def)

end
