(* ===== verification/Car_Park.thy ===== *)
theory Car_Park
  imports Server_Threads
begin

text \<open>
  The server as a whole, without buffers, machine words, statement texts, locks or handles: a car
  park. It has the rows of the table, a clock, and one bay per connection with the parking meter
  of its vehicle and the section its thread is in. \<open>park_turn\<close> is what one turn of the server
  does to it. The theorem: on healthy databases, with every message delivered, every schedule
  of the server is a run of the car park, whatever arrives on the sockets, and however the
  connections, even several of one vehicle, are interleaved with each other and with the backups.
\<close>

section \<open>The specification\<close>

record bay =
  y_pc :: pc
  y_fd :: byte
  y_status :: byte
  y_frame :: "byte list"
  y_resumed :: bool
  y_mac :: string
  y_x :: byte
  y_y :: byte
  y_city :: string
  y_price :: rat
  y_start :: int
  y_end :: int
  y_on :: bool

record car_park =
  k_rows :: "parked list"
  k_tick :: nat
  k_bays :: "bay list"
  k_sent :: "(byte \<times> reply) list"
  k_closed :: "byte list"

text \<open>The vehicle's last ten bytes are judged: damaged, ignored by a deaf thread, or a request.\<close>

definition judge :: "bay \<Rightarrow> bay" where
  "judge b =
     (let f = y_frame b in
      if \<not> frame_ok f then b\<lparr>y_status := CRC8_TEST_FAILED, y_pc := Leaving\<rparr>
      else if y_status b = CRC8_TEST_FAILED then b
      else b\<lparr>y_status := f ! 0, y_mac := frame_mac f, y_x := f ! 7, y_y := f ! 8,
             y_pc := if f ! 0 = START_APP then Looking_up else if f ! 0 = CLOSE_APP then Closing else Receiving\<rparr>)"

text \<open>Bytes arrive; fewer than ten leave the rest of the bytes before them in place.\<close>

fun arrive :: "recv_result \<Rightarrow> bay \<Rightarrow> bay" where
  "arrive (Received []) b = b\<lparr>y_on := False, y_status := CONNECTION_LOST, y_pc := Leaving\<rparr>"
| "arrive (Received bs) b = judge (b\<lparr>y_frame := take 10 bs @ drop (length bs) (y_frame b)\<rparr>)"
| "arrive Recv_error b = judge b"

definition park_now :: "(nat \<Rightarrow> int) \<Rightarrow> car_park \<Rightarrow> int" where
  "park_now clk k = clk (k_tick k)"

definition tick :: "car_park \<Rightarrow> car_park" where
  "tick k = k\<lparr>k_tick := k_tick k + 1\<rparr>"

definition say :: "byte \<Rightarrow> reply \<Rightarrow> car_park \<Rightarrow> car_park" where
  "say fd r k = k\<lparr>k_sent := k_sent k @ [(fd, r)]\<rparr>"

definition hang_up :: "byte \<Rightarrow> car_park \<Rightarrow> car_park" where
  "hang_up fd k = k\<lparr>k_closed := k_closed k @ [fd]\<rparr>"

definition with_rows :: "(parked list \<Rightarrow> parked list) \<Rightarrow> car_park \<Rightarrow> car_park" where
  "with_rows f k = k\<lparr>k_rows := f (k_rows k)\<rparr>"

text \<open>A known vehicle goes on with the seconds and the city of its row.\<close>

definition resume_bay :: "(string \<times> rat) list \<Rightarrow> (nat \<Rightarrow> int) \<Rightarrow> bay \<Rightarrow> car_park \<Rightarrow> bay \<times> car_park" where
  "resume_bay ps clk b k =
     (let rows = rows_of (y_mac b) (k_rows k); city = city_before rows (y_city b) in
      (b\<lparr>y_start := park_now clk k - used_before rows (y_start b), y_city := city,
         y_price := city_price ps city (y_price b), y_on := True, y_resumed := True, y_pc := Receiving\<rparr>,
       tick (say (y_fd b) (Text city) k)))"

text \<open>
  An unknown vehicle is entered in three sections: it notes the second and its city, its row is
  added, and then it learns its city and its meter runs.
\<close>

definition enter_bay :: "(nat \<Rightarrow> int) \<Rightarrow> bay \<Rightarrow> car_park \<Rightarrow> bay \<times> car_park" where
  "enter_bay clk b k =
     (b\<lparr>y_start := park_now clk k, y_city := location_name (y_x b) (y_y b), y_pc := Inserting\<rparr>, tick k)"

definition insert_bay :: "(string \<times> rat) list \<Rightarrow> bay \<Rightarrow> car_park \<Rightarrow> bay \<times> car_park" where
  "insert_bay ps b k =
     (b\<lparr>y_price := city_price ps (y_city b) (y_price b), y_pc := Announcing\<rparr>,
      with_rows (\<lambda>rs. rs @ [\<lparr>p_mac = y_mac b, p_time = 0, p_loc = y_city b\<rparr>]) k)"

definition announce_bay :: "bay \<Rightarrow> car_park \<Rightarrow> bay \<times> car_park" where
  "announce_bay b k = (b\<lparr>y_on := True, y_pc := Receiving\<rparr>, say (y_fd b) (Text (y_city b)) k)"

text \<open>The seconds so far go into the row.\<close>

definition save_bay :: "(nat \<Rightarrow> int) \<Rightarrow> bay \<Rightarrow> car_park \<Rightarrow> bay \<times> car_park" where
  "save_bay clk b k =
     (b\<lparr>y_end := park_now clk k\<rparr>, tick (with_rows (set_time (park_now clk k - y_start b) (y_mac b)) k))"

definition bay_done :: "bay \<times> car_park \<Rightarrow> bay \<times> car_park" where
  "bay_done bk = (case bk of (b, k) \<Rightarrow> (b\<lparr>y_pc := Done\<rparr>, hang_up (y_fd b) k))"

fun bay_act :: "(string \<times> rat) list \<Rightarrow> (nat \<Rightarrow> int) \<Rightarrow> pc \<Rightarrow> bay \<Rightarrow> car_park \<Rightarrow> bay \<times> car_park" where
  "bay_act ps clk Looking_up b k =
     (b\<lparr>y_pc := if y_resumed b then Receiving else if rows_of (y_mac b) (k_rows k) = [] then Entering else Resuming\<rparr>, k)"
| "bay_act ps clk Resuming b k = resume_bay ps clk b k"
| "bay_act ps clk Entering b k = enter_bay clk b k"
| "bay_act ps clk Inserting b k = insert_bay ps b k"
| "bay_act ps clk Announcing b k = announce_bay b k"
| "bay_act ps clk Closing b k =
     (case save_bay clk b k of (b, k) \<Rightarrow> (b\<lparr>y_on := False, y_pc := Leaving\<rparr>, k))"
| "bay_act ps clk Leaving b k =
     (if y_status b = CLOSE_APP
      then let used = of_int (y_end b - y_start b) in
        (b\<lparr>y_pc := Removing\<rparr>, say (y_fd b) (Bill (double_mult (y_price b) used) used) k)
      else if y_status b = CONNECTION_LOST then bay_done (save_bay clk b k)
      else if y_status b \<in> {CRC8_TEST_FAILED, ERROR_STATUS_IN_CLIENT_EXIST_SUBFUNCTIONS,
          ERROR_STATUS_IN_NEW_CLIENT_SUBFUNCTIONS}
      then bay_done (b, say (y_fd b) (Text ''ERROR'') k)
      else bay_done (b, k))"
| "bay_act ps clk Removing b k = bay_done (b, with_rows (filter (\<lambda>r. p_mac r \<noteq> y_mac b)) k)"
| "bay_act ps clk _ b k = (b, k)"

text \<open>A backup saves the seconds of every vehicle whose meter runs, at each fifth second.\<close>

fun save_bays :: "(nat \<Rightarrow> int) \<Rightarrow> bay list \<Rightarrow> car_park \<Rightarrow> car_park" where
  "save_bays clk [] k = k"
| "save_bays clk (b # bs) k = save_bays clk bs (if y_on b then snd (save_bay clk b k) else k)"

definition backup_turn :: "(nat \<Rightarrow> int) \<Rightarrow> int \<Rightarrow> car_park \<Rightarrow> car_park" where
  "backup_turn clk start k =
     (if 5 dvd park_now clk k - start then save_bays clk (k_bays k) (tick k) else tick k)"

definition fresh_bay :: "byte \<Rightarrow> bay" where
  "fresh_bay fd =
     \<lparr>y_pc = Receiving, y_fd = fd, y_status = STATUS_INITIAL_VALUE, y_frame = replicate 10 0, y_resumed = False,
      y_mac = [], y_x = 0, y_y = 0, y_city = [], y_price = 0, y_start = 0, y_end = 0, y_on = False\<rparr>"

definition put_bay :: "nat \<Rightarrow> bay \<times> car_park \<Rightarrow> car_park" where
  "put_bay i bk = (case bk of (b, k) \<Rightarrow> k\<lparr>k_bays := (k_bays k)[i := b]\<rparr>)"

fun park_turn :: "(string \<times> rat) list \<Rightarrow> (nat \<Rightarrow> int) \<Rightarrow> int \<Rightarrow> turn \<Rightarrow> car_park \<Rightarrow> car_park" where
  "park_turn ps clk start (Accept fd) k = k\<lparr>k_bays := k_bays k @ [fresh_bay fd]\<rparr>"
| "park_turn ps clk start (Receive i r) k =
     (if i < length (k_bays k) \<and> y_pc (k_bays k ! i) = Receiving
      then put_bay i (arrive r (k_bays k ! i), k) else k)"
| "park_turn ps clk start (Act i) k =
     (if i < length (k_bays k) \<and> y_pc (k_bays k ! i) \<notin> {Receiving, Done}
      then put_bay i (bay_act ps clk (y_pc (k_bays k ! i)) (k_bays k ! i) k) else k)"
| "park_turn ps clk start Backup k = backup_turn clk start k"

definition park_run :: "(string \<times> rat) list \<Rightarrow> (nat \<Rightarrow> int) \<Rightarrow> int \<Rightarrow> turn list \<Rightarrow> car_park \<Rightarrow> car_park" where
  "park_run ps clk start ls k = fold (park_turn ps clk start) ls k"

section \<open>The abstraction\<close>

definition bay_of :: "pc \<times> thread \<Rightarrow> bay" where
  "bay_of slot = (case slot of (pc, t) \<Rightarrow> let c = t_client t in
     \<lparr>y_pc = pc, y_fd = client_fd c, y_status = t_status t, y_frame = t_buff t, y_resumed = (t_checked t \<noteq> FALSE),
      y_mac = cstr (mac_address c), y_x = x_axis c, y_y = y_axis c, y_city = cstr (location c), y_price = price c,
      y_start = sint (time_start_parking c), y_end = sint (t_end_time t), y_on = (connected c = TRUE)\<rparr>)"

definition park_of :: "('db \<Rightarrow> parked list) \<Rightarrow> 'db system \<Rightarrow> car_park" where
  "park_of tbl s =
     \<lparr>k_rows = tbl (db_client (s_world s)), k_tick = ticks (s_world s), k_bays = map bay_of (s_threads s),
      k_sent = map (\<lambda>(fd, m). (fd, view_msg m)) (outbox (s_world s)), k_closed = closed_fds (s_world s)\<rparr>"

lemma bay_of_fields [simp]:
  "y_pc (bay_of (pc, t)) = pc" "y_fd (bay_of (pc, t)) = client_fd (t_client t)"
  "y_status (bay_of (pc, t)) = t_status t" "y_frame (bay_of (pc, t)) = t_buff t"
  "y_resumed (bay_of (pc, t)) = (t_checked t \<noteq> FALSE)" "y_mac (bay_of (pc, t)) = cstr (mac_address (t_client t))"
  "y_x (bay_of (pc, t)) = x_axis (t_client t)" "y_y (bay_of (pc, t)) = y_axis (t_client t)"
  "y_city (bay_of (pc, t)) = cstr (location (t_client t))" "y_price (bay_of (pc, t)) = price (t_client t)"
  "y_start (bay_of (pc, t)) = sint (time_start_parking (t_client t))" "y_end (bay_of (pc, t)) = sint (t_end_time t)"
  "y_on (bay_of (pc, t)) = (connected (t_client t) = TRUE)"
  by (simp_all add: bay_of_def Let_def)

lemma y_pc_bay_of: "y_pc (bay_of slot) = fst slot"
  by (cases slot) simp

lemma park_of_fields [simp]:
  "k_rows (park_of tbl s) = tbl (db_client (s_world s))" "k_tick (park_of tbl s) = ticks (s_world s)"
  "k_bays (park_of tbl s) = map bay_of (s_threads s)" "k_closed (park_of tbl s) = closed_fds (s_world s)"
  "k_sent (park_of tbl s) = map (\<lambda>(fd, m). (fd, view_msg m)) (outbox (s_world s))"
  by (simp_all add: park_of_def)

end
