(* ===== verification/Server_Refinement.thy ===== *)
theory Server_Refinement
  imports Car_Park
begin

text \<open>
  The server refines the car park of \<open>Car_Park\<close>: the section lemmas relate one section of the
  code to one operation of a bay, and \<open>schedule_park\<close> puts them together over every schedule.
\<close>

section \<open>Receiving\<close>

text \<open>A thread in its loop has not decided to leave it.\<close>

definition steady :: "pc \<times> thread \<Rightarrow> bool" where
  "steady slot \<longleftrightarrow> fst slot \<notin> {Leaving, Removing, Done} \<longrightarrow> t_return_value (snd slot) = STAY"

lemma judge_park:
  assumes "thread_inv tbl t w" and "t_return_value t = STAY"
  shows "\<exists>pc' t'. do {
      t \<leftarrow> check_and_store t;
      Some (if t_status t = START_APP then Looking_up
            else if t_status t = CLOSE_APP then Closing else loop_pc t, t, w) } = Some (pc', t', w) \<and>
    steady (pc', t') \<and> bay_of (pc', t') = judge (bay_of (Receiving, t))"
proof -
  have len: "length (t_buff t) = 10" using assms(1) by (simp add: thread_inv_def size_defs)
  consider (bad) "\<not> frame_ok (t_buff t)" | (deaf) "frame_ok (t_buff t)" "t_status t = CRC8_TEST_FAILED"
    | (request) "frame_ok (t_buff t)" "t_status t \<noteq> CRC8_TEST_FAILED" by blast
  then show ?thesis
  proof cases
    case bad
    then have "check_and_store t = Some (t\<lparr>t_status := CRC8_TEST_FAILED, t_return_value := QUIT\<rparr>)"
      using CRC_8_check_iff [OF len] by (simp add: check_and_store_def flag_defs)
    with bad show ?thesis by (simp add: judge_def loop_pc_def steady_def status_defs bay_of_def Let_def)
  next
    case deaf
    then have "check_and_store t = Some t" using check_and_store_meter [OF assms(1)] by simp
    with deaf assms(2) show ?thesis
      by (simp add: judge_def loop_pc_def steady_def status_defs flag_defs)
  next
    case request
    then obtain m where "check_and_store t = Some (t\<lparr>t_status := t_buff t ! 0,
        t_client := (t_client t)\<lparr>mac_address := m, x_axis := t_buff t ! 7, y_axis := t_buff t ! 8\<rparr>\<rparr>)"
      "cstr m = frame_mac (t_buff t)" using check_and_store_meter [OF assms(1)] by (auto simp: frame_mac_def)
    with request assms(2) show ?thesis
      by (simp add: judge_def loop_pc_def steady_def status_defs flag_defs bay_of_def Let_def)
  qed
qed

lemma arrive_bytes:
  "bs \<noteq> [] \<Longrightarrow> arrive (Received bs) b = judge (b\<lparr>y_frame := take 10 bs @ drop (length bs) (y_frame b)\<rparr>)"
  by (cases bs) simp_all

lemma receive_park:
  assumes "thread_inv tbl t w" and "t_return_value t = STAY"
  shows "\<exists>pc' t'. receive_section r t w = Some (pc', t', w) \<and> steady (pc', t') \<and>
    bay_of (pc', t') = arrive r (bay_of (Receiving, t))"
proof (cases "r = Received []")
  case True
  with assms show ?thesis
    by (simp add: receive_section_def wait_for_data_from_client_def mutex_lock_def mutex_unlock_def thread_inv_def
        steady_def bay_of_def Let_def flag_defs)
next
  case False
  define buff where "buff = (case r of Received bs \<Rightarrow> take 10 bs @ drop (length (take 10 bs)) (t_buff t) | _ \<Rightarrow> t_buff t)"
  let ?t = "t\<lparr>t_buff := buff\<rparr>"
  have len: "length (t_buff t) = 10" using assms(1) by (simp add: thread_inv_def size_defs)
  then have bl: "length buff = 10" by (auto simp: buff_def min_def split: recv_result.splits)
  have inv: "thread_inv tbl ?t w" using assms(1) bl by (simp add: thread_inv_def size_defs)
  have drop: "drop (length (take 10 bs)) (t_buff t) = drop (length bs) (t_buff t)" for bs :: "byte list"
    using len by (simp add: min_def)
  have "receive_section r t w = do {
      t \<leftarrow> check_and_store ?t;
      Some (if t_status t = START_APP then Looking_up
            else if t_status t = CLOSE_APP then Closing else loop_pc t, t, w) }"
    using False len
    by (auto simp: receive_section_def wait_for_data_from_client_def buff_def status_defs
        split: recv_result.splits list.splits)
  moreover have "arrive r (bay_of (Receiving, t)) = judge (bay_of (Receiving, ?t))"
    using False drop by (cases r) (simp_all add: buff_def arrive_bytes bay_of_def Let_def del: length_take)
  ultimately show ?thesis using judge_park [OF inv] assms(2) by simp
qed

section \<open>The other sections\<close>

lemma now_range:
  assumes "thread_inv tbl t w"
  shows "sint (word_of_int (clock w n) :: int32) = clock w n"
  using assms clock_range(3) by (auto simp: thread_inv_def world_ok_def)

lemmas park_defs = park_of_def park_now_def tick_def say_def hang_up_def with_rows_def bay_done_def save_bay_def
  resume_bay_def enter_bay_def insert_bay_def announce_bay_def


text \<open>One section does what the bay does.\<close>

definition matches ::
    "('db, 'stmt) sqlite \<Rightarrow> ('db \<Rightarrow> parked list) \<Rightarrow> ('db \<Rightarrow> bool) \<Rightarrow> ('db \<Rightarrow> (string \<times> rat) list) \<Rightarrow>
     (string \<times> rat) list \<Rightarrow> pc \<Rightarrow> thread \<Rightarrow> 'db system \<Rightarrow> bool" where
  "matches eng tbl healthy prices ps pc t s \<longleftrightarrow> (\<exists>pc' t' w'.
     act_section eng pc t (s_world s) = Some (pc', t', w') \<and> fair_world healthy prices ps w' \<and> steady (pc', t') \<and>
     bay_act ps (clock (s_world s)) pc (bay_of (pc, t)) (park_of tbl s) = (bay_of (pc', t'), park_of tbl (s\<lparr>s_world := w'\<rparr>)))"

context sqlite_contract
begin

lemma looking_matches:
  assumes "thread_inv tbl t (s_world s)" and "fair_world healthy prices ps (s_world s)" and "t_return_value t = STAY"
  shows "matches eng tbl healthy prices ps Looking_up t s"
proof -
  have a: "client_inv (s_world s) (t_client t)" "healthy (db_client (s_world s))"
    using assms by (simp_all add: thread_inv_def fair_world_def)
  show ?thesis using assms(2,3) lookup_eq [OF a, of "t_checked t"]
    by (auto simp: matches_def steady_def loop_pc_def new_client_def flag_defs park_defs bay_of_def Let_def)
qed

lemma resuming_matches:
  assumes "thread_inv tbl t (s_world s)" and "fair_world healthy prices ps (s_world s)"
  shows "matches eng tbl healthy prices ps Resuming t s"
proof -
  let ?w = "s_world s" and ?c = "t_client t"
  let ?rows = "rows_of (cstr (mac_address ?c)) (tbl (db_client ?w))"
  have a: "client_inv ?w ?c" "world_ok tbl ?w" "\<not> locked ?w" using assms(1) by (simp_all add: thread_inv_def)
  note rng = used_before_range(4) [OF a(1,2)]
  obtain l where "retriev_client_data eng ?c (t_status t) ?w = Some (STAY,
      ?c\<lparr>time_start_parking := word_of_int (clock ?w (ticks ?w) - used_before ?rows (sint (time_start_parking ?c))),
        connected := TRUE, location := l, price := city_price ps (cstr l) (price ?c)\<rparr>, t_status t,
      ?w\<lparr>ticks := ticks ?w + 1, locked := False, sends := sends ?w + 1, outbox := outbox ?w @ [(client_fd ?c, Chars l)]\<rparr>)"
    "cstr l = city_before ?rows (cstr (location ?c))"
    using retriev_eq [OF a assms(2), of "t_status t"] by blast
  with assms(2) rng show ?thesis
    by (simp add: matches_def steady_def loop_pc_def new_client_def flag_defs park_defs bay_of_def Let_def fair_world_def)
qed

lemma entering_matches:
  assumes "thread_inv tbl t (s_world s)" and "fair_world healthy prices ps (s_world s)" and "t_return_value t = STAY"
  shows "matches eng tbl healthy prices ps Entering t s"
proof -
  have "client_inv (s_world s) (t_client t)" using assms(1) by (simp add: thread_inv_def)
  from start_time_eq [OF this] assms(2,3) now_range [OF assms(1)] show ?thesis
    by (auto simp: matches_def steady_def park_defs bay_of_def Let_def fair_world_def)
qed

lemma inserting_matches:
  assumes "thread_inv tbl t (s_world s)" and "fair_world healthy prices ps (s_world s)"
  shows "matches eng tbl healthy prices ps Inserting t s"
proof -
  let ?w = "s_world s" and ?c = "t_client t"
  have a: "client_inv ?w ?c" "\<not> locked ?w" using assms(1) by (simp_all add: thread_inv_def)
  from insert_new_eq [OF a assms(2), of "t_status t"] obtain db' where
    "insert_new_client eng ?c (t_status t) ?w = Some (STAY, ?c\<lparr>price := city_price ps (cstr (location ?c)) (price ?c)\<rparr>,
       t_status t, ?w\<lparr>db_client := db', locked := False\<rparr>)" "healthy db'"
    "tbl db' = tbl (db_client ?w) @ [\<lparr>p_mac = cstr (mac_address ?c), p_time = 0, p_loc = cstr (location ?c)\<rparr>]" by blast
  with assms(2) show ?thesis
    by (simp add: matches_def steady_def flag_defs park_defs bay_of_def Let_def fair_world_def)
qed

lemma announcing_matches:
  assumes "thread_inv tbl t (s_world s)" and "fair_world healthy prices ps (s_world s)" and "t_return_value t = STAY"
  shows "matches eng tbl healthy prices ps Announcing t s"
  using assms announce_eq [OF assms(2), of "t_client t"]
  by (auto simp: matches_def steady_def loop_pc_def flag_defs park_defs bay_of_def Let_def fair_world_def case_prod_beta)

lemma closing_matches:
  assumes "thread_inv tbl t (s_world s)" and "fair_world healthy prices ps (s_world s)"
  shows "matches eng tbl healthy prices ps Closing t s"
proof -
  let ?w = "s_world s" and ?c = "t_client t"
  obtain db' where "handle_close_app eng t ?w = Some
      (t\<lparr>t_client := ?c\<lparr>connected := FALSE\<rparr>, t_end_time := word_of_int (clock ?w (ticks ?w)), t_return_value := QUIT\<rparr>,
       ?w\<lparr>ticks := ticks ?w + 1, db_client := db', locked := False\<rparr>)"
    "healthy db'" "tbl db' = set_time (clock ?w (ticks ?w) - sint (time_start_parking ?c)) (cstr (mac_address ?c)) (tbl (db_client ?w))"
    using close_eq [OF assms(1)] assms(2) by (auto simp: fair_world_def)
  with assms(2) now_range [OF assms(1)] show ?thesis
    by (simp add: matches_def steady_def loop_pc_def flag_defs park_defs bay_of_def Let_def fair_world_def)
qed

lemma removing_matches:
  assumes "thread_inv tbl t (s_world s)" and "fair_world healthy prices ps (s_world s)"
  shows "matches eng tbl healthy prices ps Removing t s"
proof -
  let ?w = "s_world s" and ?c = "t_client t" and ?l = "s_world s\<lparr>locked := True\<rparr>"
  have a: "client_inv ?l ?c" "healthy (db_client ?l)" "\<not> locked ?w"
    using assms by (simp_all add: thread_inv_def fair_world_def)
  obtain db' where "remove_client_data eng (mac_address ?c) ?l = Some (?l\<lparr>db_client := db'\<rparr>)" "healthy db'"
    "tbl db' = filter (\<lambda>r. p_mac r \<noteq> cstr (mac_address ?c)) (tbl (db_client ?w))"
    using remove_eq [OF a(1,2)] by auto
  with assms(2) a(3) show ?thesis
    by (simp add: matches_def steady_def park_defs bay_of_def Let_def fair_world_def mutex_lock_def mutex_unlock_def close_fd_def)
qed

lemma leaving_matches:
  assumes "thread_inv tbl t (s_world s)" and "fair_world healthy prices ps (s_world s)"
  shows "matches eng tbl healthy prices ps Leaving t s"
proof -
  let ?w = "s_world s" and ?c = "t_client t" and ?l = "s_world s\<lparr>locked := True\<rparr>"
  have a: "client_inv ?w ?c" "world_ok tbl ?l" "client_inv ?l ?c" "healthy (db_client ?l)" "\<not> locked ?w" "0 \<le> sint (t_end_time t)"
    using assms by (simp_all add: thread_inv_def fair_world_def)
  consider (pay) "t_status t = CLOSE_APP" | (lost) "t_status t = CONNECTION_LOST"
    | (bad) "t_status t \<in> {CRC8_TEST_FAILED, ERROR_STATUS_IN_CLIENT_EXIST_SUBFUNCTIONS, ERROR_STATUS_IN_NEW_CLIENT_SUBFUNCTIONS}"
    | (other) "t_status t \<notin> {CLOSE_APP, CONNECTION_LOST, CRC8_TEST_FAILED, ERROR_STATUS_IN_CLIENT_EXIST_SUBFUNCTIONS,
        ERROR_STATUS_IN_NEW_CLIENT_SUBFUNCTIONS}" by blast
  then show ?thesis
  proof cases
    case pay
    with assms(2) payment_eq [OF a(1) assms(2) a(6)] show ?thesis
      by (simp add: matches_def steady_def park_defs bay_of_def Let_def fair_world_def)
  next
    case lost
    obtain db1 where "update_client_data eng ?c ?l = Some (0, word_of_int (clock ?w (ticks ?w)), ?l\<lparr>ticks := ticks ?w + 1, db_client := db1\<rparr>)"
      "healthy db1" "tbl db1 = set_time (clock ?w (ticks ?w) - sint (time_start_parking ?c)) (cstr (mac_address ?c)) (tbl (db_client ?w))"
      using update_eq [OF a(3,2,4)] by auto
    with lost assms(2) a(5) now_range [OF assms(1)] show ?thesis
      by (simp add: matches_def steady_def park_defs bay_of_def Let_def fair_world_def pango_exit_def status_defs
          mutex_lock_def mutex_unlock_def close_fd_def)
  next
    case bad
    with assms(2) send_msg_fair [OF assms(2)] show ?thesis
      by (auto simp: matches_def steady_def park_defs bay_of_def Let_def fair_world_def pango_exit_def err_msg_def
          status_defs close_fd_def cstr_def)
  next
    case other
    with assms(2) show ?thesis
      by (simp add: matches_def steady_def park_defs bay_of_def Let_def fair_world_def pango_exit_def close_fd_def)
  qed
qed

lemma section_matches:
  assumes "thread_inv tbl t (s_world s)" and "fair_world healthy prices ps (s_world s)" and "steady (pc, t)"
    and "pc \<notin> {Receiving, Done}"
  shows "matches eng tbl healthy prices ps pc t s"
  using assms looking_matches resuming_matches entering_matches inserting_matches announcing_matches
    closing_matches leaving_matches removing_matches
  by (cases pc) (simp_all add: steady_def)

end

section \<open>The backup\<close>

lemma update_loop_effect:
  "update_clients_loop eng cs i w = Some w' \<Longrightarrow> \<exists>n db. w' = w\<lparr>ticks := n, db_client := db\<rparr>"
proof (induction "10 - i" arbitrary: i w)
  case 0
  then have "w' = w" by (subst (asm) update_clients_loop.simps) (simp add: UPDATE_THREAD_MAX_NUM_CLIENTS_def)
  then have "w' = w\<lparr>ticks := ticks w, db_client := db_client w\<rparr>" by simp
  then show ?case by blast
next
  case (Suc n)
  have next_i: "\<exists>n db. w' = v\<lparr>ticks := n, db_client := db\<rparr>" if "update_clients_loop eng cs (Suc i) v = Some w'" for v
    using Suc.hyps(1) [of "Suc i" v] Suc.hyps(2) that by simp
  have i: "i < UPDATE_THREAD_MAX_NUM_CLIENTS" using Suc.hyps(2) by (simp add: UPDATE_THREAD_MAX_NUM_CLIENTS_def)
  from Suc.prems i show ?case
    by (subst (asm) update_clients_loop.simps)
       (auto split: if_splits Option.bind_splits prod.splits dest!: next_i simp: exec_client_def gettimeofday_def,
        auto intro!: exI)
qed

lemma save_bays_all:
  "save_all clk (k_tick k) (map (\<lambda>(pc, t). t_client t) slots @ replicate n zeroed_client) (k_rows k) = (rows, tick') \<Longrightarrow>
   save_bays clk (map bay_of slots) k = k\<lparr>k_rows := rows, k_tick := tick'\<rparr>"
proof (induction slots arbitrary: k)
  case Nil
  have "save_all clk i (replicate n zeroed_client) rs = (rs, i)" for i rs
    by (induction n) (simp_all add: zeroed_client_def flag_defs)
  with Nil show ?case by simp
next
  case (Cons slot slots)
  obtain pc t where slot: "slot = (pc, t)" by fastforce
  show ?case
  proof (cases "connected (t_client t) = TRUE")
    case True
    let ?k = "snd (save_bay clk (bay_of slot) k)"
    have "save_bays clk (map bay_of slots) ?k = ?k\<lparr>k_rows := rows, k_tick := tick'\<rparr>"
      using Cons True slot by (intro Cons.IH) (simp add: park_defs)
    with True slot show ?thesis by (simp add: park_defs)
  qed (use Cons slot in simp)
qed

lemma smod_zero: "(d::int) smod 5 = 0 \<longleftrightarrow> 5 dvd d"
proof -
  have "d smod 5 = 0 \<longleftrightarrow> d = 0 \<or> \<bar>d\<bar> mod 5 = 0" by (simp add: smod_int_alt_def) (simp add: sgn_if)
  also have "\<dots> \<longleftrightarrow> d = 0 \<or> 5 dvd \<bar>d\<bar>" by (simp only: dvd_eq_mod_eq_0)
  finally show ?thesis by auto
qed

text \<open>An iteration of the backup thread over any ten records that keep their invariant.\<close>

lemma backup_effect:
  assumes "sqlite_contract eng tbl prices healthy" and "world_ok tbl w" and "\<not> locked w" and "length cs = 10"
    and "\<forall>c\<in>set cs. client_inv w c" and "0 \<le> sint start" and "fair_world healthy prices ps w"
  shows "\<exists>n db. db_update_iteration eng start FALSE cs q w = Some (q, w\<lparr>ticks := n, db_client := db\<rparr>) \<and> healthy db \<and>
    (if 5 dvd clock w (ticks w) - sint start
     then save_all (clock w) (ticks w + 1) cs (tbl (db_client w)) = (tbl db, n)
     else n = ticks w + 1 \<and> db = db_client w)"
proof -
  let ?l = "w\<lparr>locked := True\<rparr>" and ?now = "clock w (ticks w)"
  let ?w1 = "?l\<lparr>ticks := ticks w + 1\<rparr>"
  have t: "gettimeofday ?l = (?now, ?w1)" by (simp add: gettimeofday_def)
  have k: "keeps tbl ?l ?w1" using gettimeofday_keeps [OF t] assms(2) by simp
  then have w1: "world_ok tbl ?w1" by (simp add: keeps_def)
  have now: "sint (word_of_int ?now :: int32) = ?now" "0 \<le> ?now"
    using clock_range [of w "ticks w"] assms(2) by (auto simp: world_ok_def)
  then have sub: "int_sub (word_of_int ?now) start = Some (word_of_int ?now - start)"
    using assms(6) by (intro int_sub_nonneg) simp_all
  then have d: "sint (word_of_int ?now - start) = ?now - sint start" using int_sub_Some now(1) by fastforce
  have tb: "time_to_backup start ?l = Some (if 5 dvd ?now - sint start then TRUE else FALSE, ?w1)"
    using t sub d by (simp add: time_to_backup_def NUMBER_OF_SECONDS_BETWEEN_BACKUPS_def smod_zero)
  have it: "db_update_iteration eng start FALSE cs q w = update_clients eng cs (if 5 dvd ?now - sint start then TRUE else FALSE) ?w1 \<bind>
      (\<lambda>w. mutex_unlock w \<bind> (\<lambda>w. Some (q, w)))"
    using assms(3) tb by (simp add: db_update_iteration_def mutex_lock_def return_database_update_thread_def flag_defs)
  show ?thesis
  proof (cases "5 dvd ?now - sint start")
    case False
    then have "db_update_iteration eng start FALSE cs q w = Some (q, w\<lparr>ticks := ticks w + 1, db_client := db_client w\<rparr>)"
      unfolding it using assms(3) by (simp add: update_clients_def flag_defs mutex_unlock_def)
    with False assms(7) show ?thesis by (auto simp: fair_world_def)
  next
    case True
    have i1: "\<forall>c\<in>set cs. client_inv ?w1 c" using keeps_client_inv [OF k] assms(2,5) by auto
    obtain w' where u: "update_clients_loop eng cs 0 ?w1 = Some w'" and e:
      "healthy (db_client ?w1) \<longrightarrow> healthy (db_client w') \<and>
        save_all (clock ?w1) (ticks ?w1) (drop 0 cs) (tbl (db_client ?w1)) = (tbl (db_client w'), ticks w')"
      using sqlite_contract.update_loop_ok [OF assms(1,4) i1 w1, of 0] by auto
    obtain n db where w': "w' = ?w1\<lparr>ticks := n, db_client := db\<rparr>" using update_loop_effect [OF u] by blast
    have "healthy db" "save_all (clock w) (ticks w + 1) cs (tbl (db_client w)) = (tbl db, n)"
      using e assms(7) w' by (simp_all add: fair_world_def)
    moreover have "db_update_iteration eng start FALSE cs q w = Some (q, w\<lparr>ticks := n, db_client := db\<rparr>)"
      unfolding it using True u w' assms(3) by (simp add: update_clients_def flag_defs mutex_unlock_def)
    ultimately show ?thesis using True by auto
  qed
qed

lemma backup_park:
  assumes "sqlite_contract eng tbl prices healthy" and "system_ok tbl s" and "0 \<le> sint start"
    and "fair_world healthy prices ps (s_world s)"
  shows "\<exists>w'. take_turn eng start Backup s = Some (s\<lparr>s_world := w'\<rparr>) \<and> fair_world healthy prices ps w' \<and>
    park_of tbl (s\<lparr>s_world := w'\<rparr>) = backup_turn (clock (s_world s)) (sint start) (park_of tbl s)"
proof -
  let ?w = "s_world s"
  have a: "world_ok tbl ?w" "\<not> locked ?w" using assms(2) by (simp_all add: system_ok_def)
  obtain n db where it: "db_update_iteration eng start FALSE (client_array s) (s_quit s) ?w =
      Some (s_quit s, ?w\<lparr>ticks := n, db_client := db\<rparr>)" "healthy db" and
    rows: "if 5 dvd clock ?w (ticks ?w) - sint start
      then save_all (clock ?w) (ticks ?w + 1) (client_array s) (tbl (db_client ?w)) = (tbl db, n)
      else n = ticks ?w + 1 \<and> db = db_client ?w"
    using backup_effect [OF assms(1) a client_array_inv [OF assms(2)] assms(3,4)] by blast
  have "backup_turn (clock ?w) (sint start) (park_of tbl s) = (park_of tbl s)\<lparr>k_rows := tbl db, k_tick := n\<rparr>"
    using rows save_bays_all [of "clock ?w" "tick (park_of tbl s)" "s_threads s"]
    by (auto simp: backup_turn_def client_array_def park_defs split: if_splits)
  with it assms(4) show ?thesis
    by (intro exI [of _ "?w\<lparr>ticks := n, db_client := db\<rparr>"]) (simp add: fair_world_def park_of_def)
qed

section \<open>Every schedule\<close>

lemma park_put:
  "park_of tbl (put_thread i (pc, t, w) s) = put_bay i (bay_of (pc, t), park_of tbl (s\<lparr>s_world := w\<rparr>))"
  by (simp add: put_thread_def put_bay_def park_of_def map_update)

text \<open>What holds between two turns: the invariant, healthy databases, and threads that have not left their loop.\<close>

definition in_step ::
    "('db \<Rightarrow> parked list) \<Rightarrow> ('db \<Rightarrow> bool) \<Rightarrow> ('db \<Rightarrow> (string \<times> rat) list) \<Rightarrow> (string \<times> rat) list \<Rightarrow> 'db system \<Rightarrow> bool" where
  "in_step tbl healthy prices ps s \<longleftrightarrow>
     system_ok tbl s \<and> fair_world healthy prices ps (s_world s) \<and> (\<forall>slot\<in>set (s_threads s). steady slot)"

lemma steady_put:
  assumes "\<forall>slot\<in>set (s_threads s). steady slot" and "steady (pc, t)"
  shows "\<forall>slot\<in>set (s_threads (put_thread i (pc, t, w) s)). steady slot"
  using assms set_update_subset_insert [of "s_threads s" i "(pc, t)"] by (auto simp: put_thread_def)

lemma turn_park:
  assumes "sqlite_contract eng tbl prices healthy" and "in_step tbl healthy prices ps s" and "0 \<le> sint start"
    and "length (s_threads s) + accepts [l] \<le> SERVER_MAX_NUM_CLIENTS"
  shows "\<exists>s'. take_turn eng start l s = Some s' \<and> fair_world healthy prices ps (s_world s') \<and>
    (\<forall>slot\<in>set (s_threads s'). steady slot) \<and>
    park_of tbl s' = park_turn ps (clock (s_world s)) (sint start) l (park_of tbl s)"
proof -
  have a: "system_ok tbl s" "fair_world healthy prices ps (s_world s)" "\<forall>slot\<in>set (s_threads s). steady slot"
    using assms(2) by (simp_all add: in_step_def)
  have slot: "slot_inv tbl (s_world s) (s_threads s ! i)" "steady (s_threads s ! i)" if "i < length (s_threads s)" for i
    using that a by (simp_all add: system_ok_def)
  show ?thesis
  proof (cases l)
    case (Accept fd)
    with a assms(4) show ?thesis
      by (auto simp: steady_def thread_start_def flag_defs park_of_def bay_of_def Let_def fresh_bay_def zeroed_client_def
          cstr_def size_defs status_defs)
  next
    case (Receive i r)
    show ?thesis
    proof (cases "i < length (s_threads s) \<and> fst (s_threads s ! i) = Receiving")
      case True
      then obtain t where t: "i < length (s_threads s)" "s_threads s ! i = (Receiving, t)" by (cases "s_threads s ! i") auto
      then have "thread_inv tbl t (s_world s)" "t_return_value t = STAY"
        using slot [OF t(1)] by (simp_all add: slot_inv_def steady_def)
      from receive_park [OF this, of r] obtain pc' t' where
        "receive_section r t (s_world s) = Some (pc', t', s_world s)" "steady (pc', t')"
        "bay_of (pc', t') = arrive r (bay_of (Receiving, t))" by blast
      with t Receive a(2) steady_put [OF a(3)] show ?thesis by (simp add: park_put)
    qed (use Receive a in \<open>auto simp: y_pc_bay_of\<close>)
  next
    case (Act i)
    show ?thesis
    proof (cases "i < length (s_threads s) \<and> fst (s_threads s ! i) \<notin> {Receiving, Done}")
      case True
      then obtain pc t where t: "i < length (s_threads s)" "s_threads s ! i = (pc, t)" "pc \<notin> {Receiving, Done}"
        by (cases "s_threads s ! i") auto
      then have "thread_inv tbl t (s_world s)" "steady (pc, t)" using slot [OF t(1)] by (auto simp: slot_inv_def)
      from sqlite_contract.section_matches [OF assms(1) this(1) a(2) this(2) t(3)] obtain pc' t' w' where
        "act_section eng pc t (s_world s) = Some (pc', t', w')" "fair_world healthy prices ps w'" "steady (pc', t')"
        "bay_act ps (clock (s_world s)) pc (bay_of (pc, t)) (park_of tbl s) = (bay_of (pc', t'), park_of tbl (s\<lparr>s_world := w'\<rparr>))"
        unfolding matches_def by blast
      with t Act steady_put [OF a(3)] show ?thesis by (simp add: park_put)
    qed (use Act a in \<open>auto simp: y_pc_bay_of\<close>)
  next
    case Backup
    with backup_park [OF assms(1) a(1) assms(3) a(2)] a(3) show ?thesis by auto
  qed
qed

lemma schedule_park:
  assumes "sqlite_contract eng tbl prices healthy" and "in_step tbl healthy prices ps s" and "0 \<le> sint start"
    and "length (s_threads s) + accepts ls \<le> SERVER_MAX_NUM_CLIENTS"
  shows "\<exists>s'. run_schedule eng start ls s = Some s' \<and> in_step tbl healthy prices ps s' \<and>
    park_of tbl s' = park_run ps (clock (s_world s)) (sint start) ls (park_of tbl s)"
  using assms(2,4)
proof (induction ls arbitrary: s)
  case (Cons l ls)
  have acc: "accepts (l # ls) = accepts [l] + accepts ls" by (cases l) auto
  have ok: "system_ok tbl s" "length (s_threads s) + accepts [l] \<le> SERVER_MAX_NUM_CLIENTS"
    using Cons.prems acc by (simp_all add: in_step_def)
  obtain s1 where 1: "take_turn eng start l s = Some s1" "system_ok tbl s1" "evolves tbl (s_world s) (s_world s1)"
    "length (s_threads s1) = length (s_threads s) + accepts [l]"
    using turn_ok [OF assms(1) ok(1) assms(3) ok(2)] by blast
  with turn_park [OF assms(1) Cons.prems(1) assms(3) ok(2)] have 2: "in_step tbl healthy prices ps s1"
    "park_of tbl s1 = park_turn ps (clock (s_world s)) (sint start) l (park_of tbl s)" by (auto simp: in_step_def)
  have "clock (s_world s1) = clock (s_world s)" using 1(3) by (simp add: evolves_def)
  with Cons.IH [OF 2(1)] Cons.prems(2) acc 1(1,4) 2(2) show ?case by (auto simp: park_run_def)
qed (simp add: park_run_def)

lemma server_park:
  assumes "sqlite_contract eng tbl prices healthy" and "session_world tbl healthy prices ps w" and "0 \<le> sint start"
    and "accepts ls \<le> SERVER_MAX_NUM_CLIENTS"
  shows "\<exists>s. run_schedule eng start ls (server_system w) = Some s \<and>
    park_of tbl s = park_run ps (clock w) (sint start) ls (park_of tbl (server_system w))"
proof -
  have "in_step tbl healthy prices ps (server_system w)"
    using assms(2) by (simp add: in_step_def server_system_def system_ok_def session_world_def)
  from schedule_park [OF assms(1) this assms(3)] assms(4) show ?thesis by (auto simp: server_system_def)
qed

text \<open>The car park of a server that has just started.\<close>

definition opened :: "parked list \<Rightarrow> nat \<Rightarrow> (byte \<times> reply) list \<Rightarrow> byte list \<Rightarrow> car_park" where
  "opened rows n sent shut = \<lparr>k_rows = rows, k_tick = n, k_bays = [], k_sent = sent, k_closed = shut\<rparr>"

definition views :: "(byte \<times> msg) list \<Rightarrow> (byte \<times> reply) list" where
  "views out = map (\<lambda>(fd, m). (fd, view_msg m)) out"

lemma server_runs_park:
  assumes "sqlite_contract eng tbl prices healthy" and "session_world tbl healthy prices ps w" and "0 \<le> sint start"
    and "accepts ls \<le> SERVER_MAX_NUM_CLIENTS"
    and "park_run ps (clock w) (sint start) ls (opened (tbl (db_client w)) (ticks w) (views (outbox w)) (closed_fds w)) = k"
  shows "\<exists>s. run_schedule eng start ls (server_system w) = Some s \<and> tbl (db_client (s_world s)) = k_rows k \<and>
    ticks (s_world s) = k_tick k \<and> views (outbox (s_world s)) = k_sent k \<and> closed_fds (s_world s) = k_closed k \<and>
    map bay_of (s_threads s) = k_bays k"
proof -
  have "park_of tbl (server_system w) = opened (tbl (db_client w)) (ticks w) (views (outbox w)) (closed_fds w)"
    by (simp add: park_of_def server_system_def opened_def views_def)
  with server_park [OF assms(1-4)] assms(5) obtain s where
    "run_schedule eng start ls (server_system w) = Some s" "park_of tbl s = k" by auto
  then show ?thesis by (auto simp: views_def)
qed

text \<open>
  With healthy databases and delivered messages, every schedule of the server is a run of the
  car park: for any connections (also several of one vehicle), any bytes and errors of \<open>recv\<close>, and
  any interleaving with the backups, the rows, the bills and locations sent on each socket, the
  closed sockets and the number of clock readings are those of the specification.
\<close>

theorem every_schedule_refines_the_car_park:
  assumes "sqlite_contract eng tbl prices healthy" and "session_world tbl healthy prices ps w" and "0 \<le> sint start"
    and "accepts ls \<le> SERVER_MAX_NUM_CLIENTS"
  shows "map_option (park_of tbl) (run_schedule eng start ls (server_system w)) =
    Some (park_run ps (clock w) (sint start) ls (park_of tbl (server_system w)))"
  using server_park [OF assms] by auto

theorem every_schedule_refines_the_car_park_witness:
  "map_option (park_of rd_rows) (run_schedule ref_engine 900
      [Accept 4, Receive 0 (Received demo_start), Accept 5, Act 0, Receive 1 (Received demo_start), Act 1, Act 0, Backup, Act 1, Act 0,
       Act 1, Act 0, Act 1, Receive 0 Recv_error, Receive 1 (Received demo_close), Act 1, Act 1, Act 1, Receive 0 (Received [])]
      (server_system (demo_world demo_rows))) =
    Some (park_run demo_prices (clock (demo_world demo_rows)) (sint (900 :: int32))
      [Accept 4, Receive 0 (Received demo_start), Accept 5, Act 0, Receive 1 (Received demo_start), Act 1, Act 0, Backup, Act 1, Act 0,
       Act 1, Act 0, Act 1, Receive 0 Recv_error, Receive 1 (Received demo_close), Act 1, Act 1, Act 1, Receive 0 (Received [])]
      (park_of rd_rows (server_system (demo_world demo_rows))))"
  by (rule every_schedule_refines_the_car_park [OF ref.sqlite_contract_axioms demo_session_world [OF demo_rows_ok]])
     (simp_all add: size_defs)

end
