(* ===== verification/Server_Loopholes.thy ===== *)
theory Server_Loopholes
  imports Server_Refinement
begin

text \<open>
  What the car park shows about the server: runs of the specification are computed, and
  \<open>server_runs_park\<close> carries their results over to the code's model.
\<close>

section \<open>Computing a run\<close>

lemma arrive_again:
  assumes "length (y_frame b) = 10"
  shows "arrive (Received (y_frame b)) b = arrive Recv_error b"
  using assms by (cases "y_frame b"; cases b) simp_all

lemma arrive_request:
  assumes "length f = 10" and "frame_ok f" and "y_status b \<noteq> CRC8_TEST_FAILED" and "length (y_frame b) \<le> 10"
  shows "arrive (Received f) b = b\<lparr>y_frame := f, y_status := f ! 0, y_mac := frame_mac f,
    y_x := f ! 7, y_y := f ! 8,
    y_pc := if f ! 0 = START_APP then Looking_up else if f ! 0 = CLOSE_APP then Closing else Receiving\<rparr>"
proof -
  have "f \<noteq> []" using assms(1) by auto
  with assms show ?thesis by (simp add: arrive_bytes judge_def)
qed

text \<open>The parts of the car park after its elementary changes.\<close>

lemma car_park_parts [simp]:
  "k_rows (with_rows f k) = f (k_rows k)" "k_tick (with_rows f k) = k_tick k" "k_sent (with_rows f k) = k_sent k"
  "k_closed (with_rows f k) = k_closed k" "k_bays (with_rows f k) = k_bays k"
  "k_rows (tick k) = k_rows k" "k_tick (tick k) = k_tick k + 1" "k_sent (tick k) = k_sent k"
  "k_closed (tick k) = k_closed k" "k_bays (tick k) = k_bays k"
  "k_rows (say fd r k) = k_rows k" "k_tick (say fd r k) = k_tick k" "k_sent (say fd r k) = k_sent k @ [(fd, r)]"
  "k_closed (say fd r k) = k_closed k" "k_bays (say fd r k) = k_bays k"
  "k_rows (hang_up fd k) = k_rows k" "k_tick (hang_up fd k) = k_tick k" "k_sent (hang_up fd k) = k_sent k"
  "k_closed (hang_up fd k) = k_closed k @ [fd]" "k_bays (hang_up fd k) = k_bays k"
  "k_rows (put_bay i (b, k)) = k_rows k" "k_tick (put_bay i (b, k)) = k_tick k" "k_sent (put_bay i (b, k)) = k_sent k"
  "k_closed (put_bay i (b, k)) = k_closed k" "k_bays (put_bay i (b, k)) = (k_bays k)[i := b]"
  by (simp_all add: with_rows_def tick_def say_def hang_up_def put_bay_def)

lemma put_bay_commutes [simp]:
  "with_rows f (put_bay i (b, k)) = put_bay i (b, with_rows f k)" "tick (put_bay i (b, k)) = put_bay i (b, tick k)"
  "say fd r (put_bay i (b, k)) = put_bay i (b, say fd r k)" "hang_up fd (put_bay i (b, k)) = put_bay i (b, hang_up fd k)"
  "put_bay i (b, put_bay i (c, k)) = put_bay i (b, k)" "park_now clk (put_bay i (b, k)) = park_now clk k"
  by (simp_all add: with_rows_def tick_def say_def hang_up_def put_bay_def park_now_def)

lemma act_put:
  assumes "i < length (k_bays k)" and "y_pc b \<notin> {Receiving, Done}"
  shows "park_turn ps clk st (Act i) (put_bay i (b, k)) = put_bay i (bay_act ps clk (y_pc b) b k)"
  using assms by (cases "y_pc b") (simp_all add: resume_bay_def enter_bay_def insert_bay_def announce_bay_def save_bay_def bay_done_def Let_def)

lemma receive_put:
  assumes "i < length (k_bays k)" and "y_pc b = Receiving"
  shows "park_turn ps clk st (Receive i r) (put_bay i (b, k)) = put_bay i (arrive r b, k)"
  using assms by simp

lemmas bay_compute = arrive_request receive_put act_put resume_bay_def enter_bay_def insert_bay_def
  announce_bay_def save_bay_def bay_done_def

text \<open>One connection to a server that has just started.\<close>

definition one_bay :: "parked list \<Rightarrow> nat \<Rightarrow> (byte \<times> reply) list \<Rightarrow> byte list \<Rightarrow> byte \<Rightarrow> car_park" where
  "one_bay rows n sent shut fd = (opened rows n sent shut)\<lparr>k_bays := [fresh_bay fd]\<rparr>"

lemma accept_opened:
  "park_turn ps clk st (Accept fd) (opened rows n sent shut) = put_bay 0 (fresh_bay fd, one_bay rows n sent shut fd)"
  by (simp add: one_bay_def opened_def put_bay_def)

lemma one_bay_parts [simp]:
  "k_rows (one_bay rows n sent shut fd) = rows" "k_tick (one_bay rows n sent shut fd) = n"
  "k_sent (one_bay rows n sent shut fd) = sent" "k_closed (one_bay rows n sent shut fd) = shut"
  "k_bays (one_bay rows n sent shut fd) = [fresh_bay fd]"
  by (simp_all add: one_bay_def opened_def)

lemma city_price_twice: "city_price ps city (city_price ps city p) = city_price ps city p"
  by (simp add: city_price_def split: list.splits)

section \<open>A close request nobody started\<close>

lemma close_run:
  assumes "length c = 10" and "frame_ok c" and "c ! 0 = CLOSE_APP"
  shows "\<exists>k. park_run ps clk st [Accept fd, Receive 0 (Received c), Act 0, Act 0, Act 0] (opened rows n sent shut) = k \<and>
    k_rows k = filter (\<lambda>r. p_mac r \<noteq> frame_mac c) rows \<and>
    k_sent k = sent @ [(fd, Bill (double_mult 0 (of_int (clk n))) (of_int (clk n)))]"
  using assms
  by (simp add: park_run_def accept_opened fresh_bay_def bay_compute status_defs Let_def park_now_def set_time_filter
      del: park_turn.simps)

text \<open>
  C18: a close request on a fresh connection, with no start request before it, deletes the
  vehicle's row, whatever time it holds, and is answered with a bill of nothing for all seconds
  since the epoch: a vehicle whose connection was lost and that closes before it starts again has
  parked for free.
\<close>

theorem close_without_start_is_free:
  assumes "sqlite_contract eng tbl prices healthy" and "session_world tbl healthy prices ps w" and "0 \<le> sint start"
    and "length c = 10" and "frame_ok c" and "c ! 0 = CLOSE_APP"
  shows "\<exists>s. run_schedule eng start [Accept fd, Receive 0 (Received c), Act 0, Act 0, Act 0] (server_system w) = Some s \<and>
    tbl (db_client (s_world s)) = filter (\<lambda>r. p_mac r \<noteq> frame_mac c) (tbl (db_client w)) \<and>
    views (outbox (s_world s)) = views (outbox w) @ [(fd, Bill 0 (of_int (clock w (ticks w))))]"
proof -
  from close_run [OF assms(4-6)] obtain k where
    "park_run ps (clock w) (sint start) [Accept fd, Receive 0 (Received c), Act 0, Act 0, Act 0]
      (opened (tbl (db_client w)) (ticks w) (views (outbox w)) (closed_fds w)) = k"
    "k_rows k = filter (\<lambda>r. p_mac r \<noteq> frame_mac c) (tbl (db_client w))"
    "k_sent k = views (outbox w) @ [(fd, Bill (double_mult 0 (of_int (clock w (ticks w)))) (of_int (clock w (ticks w))))]" by blast
  with server_runs_park [OF assms(1-3) _ this(1)] show ?thesis by (auto simp: size_defs double_mult_def round64_def simp del: take_turn.simps run_schedule.simps)
qed

theorem close_without_start_is_free_witness:
  "let w = demo_world [\<lparr>p_mac = frame_mac demo_close, p_time = 500, p_loc = ''Liman 1''\<rparr>] in
   \<exists>s. run_schedule ref_engine 900 [Accept 4, Receive 0 (Received demo_close), Act 0, Act 0, Act 0] (server_system w) = Some s \<and>
     rd_rows (db_client (s_world s)) = [] \<and> views (outbox (s_world s)) = [(4, Bill 0 1000)]"
proof -
  let ?rows = "[\<lparr>p_mac = frame_mac demo_close, p_time = 500, p_loc = ''Liman 1''\<rparr>]"
  have c: "length demo_close = 10" "frame_ok demo_close" "demo_close ! 0 = CLOSE_APP" "frame_mac demo_close = frame_mac demo_start"
    using demo_parking_frames by (simp_all add: parking_frames_def)
  then have "rows_ok 1000 ?rows" by (simp add: rows_ok_def demo_frame_mac plain_def size_defs)
  from close_without_start_is_free [OF ref.sqlite_contract_axioms demo_session_world [OF this] _ c(1-3), of 900 4]
  show ?thesis by (simp add: Let_def demo_world_def demo_db_def views_def)
qed

section \<open>A start request that is seen twice\<close>

lemma twice_run:
  assumes "parking_frames s c rows" and "x = Recv_error \<or> x = Received s"
  shows "\<exists>k. park_run ps clk st [Accept fd, Receive 0 (Received s), Act 0, Act 0, Act 0, Act 0, Receive 0 x, Act 0, Act 0,
      Receive 0 (Received c), Act 0, Act 0, Act 0] (opened rows n sent shut) = k \<and>
    k_rows k = rows \<and> k_tick k = n + 3 \<and>
    k_sent k = sent @ [(fd, Text (frame_city s)), (fd, Text (frame_city s)),
      (fd, Bill (double_mult (city_price ps (frame_city s) 0) (of_int (clk (n + 2) - clk (n + 1))))
        (of_int (clk (n + 2) - clk (n + 1))))]"
proof -
  have f: "length s = 10" "frame_ok s" "s ! 0 = START_APP" "length c = 10" "frame_ok c" "c ! 0 = CLOSE_APP"
    "frame_mac c = frame_mac s" "rows_of (frame_mac s) rows = []" "filter (\<lambda>r. p_mac r \<noteq> frame_mac s) rows = rows"
    using assms(1) by (auto simp: parking_frames_def filter_empty_conv)
  have x: "arrive x b = arrive (Received s) b" if "y_frame b = s" for b
    using assms(2) f(1) that arrive_again by auto
  show ?thesis using f
    by (simp add: park_run_def accept_opened fresh_bay_def x bay_compute status_defs Let_def park_now_def set_time_filter
        used_before_def city_before_def frame_city_def city_price_twice del: park_turn.simps)
qed

text \<open>
  C19: a start request that the thread sees twice restarts the meter. A new vehicle's thread does
  not remember that it has entered it; when the same request arrives again, or \<open>recv\<close> fails
  and the old bytes are taken once more, the vehicle is found in the table and continues with
  the time of the last backup (here none): the bill leaves out the seconds between the two.
\<close>

theorem second_start_restarts_the_meter:
  assumes "sqlite_contract eng tbl prices healthy" and "session_world tbl healthy prices ps w" and "0 \<le> sint start"
    and "parking_frames s c (tbl (db_client w))" and "x = Recv_error \<or> x = Received s"
  shows "\<exists>s'. run_schedule eng start [Accept fd, Receive 0 (Received s), Act 0, Act 0, Act 0, Act 0, Receive 0 x, Act 0, Act 0,
      Receive 0 (Received c), Act 0, Act 0, Act 0] (server_system w) = Some s' \<and>
    tbl (db_client (s_world s')) = tbl (db_client w) \<and>
    snd (last (views (outbox (s_world s')))) =
      (let used = of_int (clock w (ticks w + 2) - clock w (ticks w + 1))
       in Bill (double_mult (city_price ps (frame_city s) 0) used) used)"
proof -
  let ?n = "ticks w" and ?ls = "[Accept fd, Receive 0 (Received s), Act 0, Act 0, Act 0, Act 0, Receive 0 x, Act 0, Act 0,
    Receive 0 (Received c), Act 0, Act 0, Act 0]"
  obtain k where "park_run ps (clock w) (sint start) ?ls
      (opened (tbl (db_client w)) ?n (views (outbox w)) (closed_fds w)) = k" "k_rows k = tbl (db_client w)"
    "k_sent k = views (outbox w) @ [(fd, Text (frame_city s)), (fd, Text (frame_city s)),
      (fd, Bill (double_mult (city_price ps (frame_city s) 0) (of_int (clock w (?n + 2) - clock w (?n + 1))))
        (of_int (clock w (?n + 2) - clock w (?n + 1))))]"
    using twice_run [OF assms(4,5)] by blast
  with server_runs_park [OF assms(1-3) _ this(1)] show ?thesis
    by (auto simp: size_defs Let_def simp del: take_turn.simps run_schedule.simps)
qed

theorem second_start_restarts_the_meter_witness:
  "\<exists>s'. run_schedule ref_engine 900 [Accept 4, Receive 0 (Received demo_start), Act 0, Act 0, Act 0, Act 0, Receive 0 Recv_error, Act 0, Act 0,
      Receive 0 (Received demo_close), Act 0, Act 0, Act 0] (server_system (demo_world demo_rows)) = Some s' \<and>
    rd_rows (db_client (s_world s')) = rd_rows (db_client (demo_world demo_rows)) \<and>
    snd (last (views (outbox (s_world s')))) =
      (let used = of_int (clock (demo_world demo_rows) (ticks (demo_world demo_rows) + 2) -
         clock (demo_world demo_rows) (ticks (demo_world demo_rows) + 1))
       in Bill (double_mult (city_price demo_prices (frame_city demo_start) 0) used) used)"
proof -
  have "rd_rows (db_client (demo_world demo_rows)) = demo_rows" by (simp add: demo_world_def demo_db_def)
  then show ?thesis using demo_parking_frames
    by (intro second_start_restarts_the_meter [OF ref.sqlite_contract_axioms demo_session_world [OF demo_rows_ok]]) simp_all
qed

section \<open>A meter that is left running\<close>

text \<open>A vehicle's connection ends with a damaged frame, or is lost; then a backup is made.\<close>

lemma left_run:
  assumes "parking_frames s c rows" and "length bad = 10" and "\<not> frame_ok bad" and "5 dvd clk (n + 1) - st"
  shows "\<exists>k b. park_run ps clk st [Accept fd, Receive 0 (Received s), Act 0, Act 0, Act 0, Act 0, Receive 0 (Received bad), Act 0, Backup]
      (opened rows n sent shut) = k \<and>
    k_rows k = rows @ [\<lparr>p_mac = frame_mac s, p_time = clk (n + 2) - clk n, p_loc = frame_city s\<rparr>] \<and> k_tick k = n + 3 \<and>
    k_sent k = sent @ [(fd, Text (frame_city s)), (fd, Text ''ERROR'')] \<and> k_closed k = shut @ [fd] \<and> k_bays k = [b]"
proof -
  have f: "length s = 10" "frame_ok s" "s ! 0 = START_APP" "rows_of (frame_mac s) rows = []" "\<forall>r\<in>set rows. p_mac r \<noteq> frame_mac s"
    using assms(1) by (auto simp: parking_frames_def filter_empty_conv)
  have "bad \<noteq> []" using assms(2) by auto
  with assms(2,3) have b: "arrive (Received bad) b = b\<lparr>y_frame := bad, y_status := CRC8_TEST_FAILED, y_pc := Leaving\<rparr>"
    if "y_frame b = s" for b using that f(1) by (simp add: arrive_bytes judge_def)
  show ?thesis using f assms(4)
    by (simp add: park_run_def accept_opened fresh_bay_def b bay_compute status_defs Let_def park_now_def
        frame_city_def backup_turn_def set_time_append set_time_absent set_time_def [of _ _ "[_]"] del: park_turn.simps(1-3))
qed

text \<open>The vehicle comes back on a new connection and closes.\<close>

lemma back_run:
  assumes "parking_frames s c rows" and "k_bays k = [b]"
    and "k_rows k = rows @ [\<lparr>p_mac = frame_mac s, p_time = n, p_loc = frame_city s\<rparr>]"
  shows "\<exists>k'. park_run ps clk st [Accept fd, Receive 1 (Received s), Act 1, Act 1, Receive 1 (Received c), Act 1, Act 1, Act 1] k = k' \<and>
    k_rows k' = rows \<and>
    k_sent k' = k_sent k @ [(fd, Text (frame_city s)),
      (fd, Bill (double_mult (city_price ps (frame_city s) 0) (of_int (clk (k_tick k + 1) - (clk (k_tick k) - n))))
        (of_int (clk (k_tick k + 1) - (clk (k_tick k) - n))))]"
proof -
  have f: "length s = 10" "frame_ok s" "s ! 0 = START_APP" "length c = 10" "frame_ok c" "c ! 0 = CLOSE_APP"
    "frame_mac c = frame_mac s" "rows_of (frame_mac s) rows = []" "filter (\<lambda>r. p_mac r \<noteq> frame_mac s) rows = rows"
    using assms(1) by (auto simp: parking_frames_def filter_empty_conv)
  have "park_turn ps clk st (Accept fd) k = put_bay 1 (fresh_bay fd, k\<lparr>k_bays := [b, fresh_bay fd]\<rparr>)"
    using assms(2) by (simp add: put_bay_def)
  with f assms(3) show ?thesis
    by (simp add: park_run_def fresh_bay_def bay_compute status_defs Let_def park_now_def set_time_filter
        used_before_def city_before_def frame_city_def del: park_turn.simps)
qed

text \<open>
  C20: a damaged frame ends the thread and closes its socket, but leaves the record marked as
  connected: the next backup writes the seconds since the start into the row of a vehicle
  that is gone, and when it returns it is billed for the time without a connection up to that
  backup as well, which a lost connection does not count.
\<close>

theorem corrupt_frame_leaves_meter_running:
  assumes "sqlite_contract eng tbl prices healthy" and "session_world tbl healthy prices ps w" and "0 \<le> sint start"
    and "parking_frames s c (tbl (db_client w))" and "length bad = 10" and "\<not> frame_ok bad"
    and "5 dvd clock w (ticks w + 1) - sint start"
  shows "\<exists>s'. run_schedule eng start ([Accept fd, Receive 0 (Received s), Act 0, Act 0, Act 0, Act 0, Receive 0 (Received bad), Act 0, Backup] @
      [Accept fd', Receive 1 (Received s), Act 1, Act 1, Receive 1 (Received c), Act 1, Act 1, Act 1]) (server_system w) = Some s' \<and>
    tbl (db_client (s_world s')) = tbl (db_client w) \<and>
    snd (last (views (outbox (s_world s')))) =
      (let used = of_int ((clock w (ticks w + 2) - clock w (ticks w)) + (clock w (ticks w + 4) - clock w (ticks w + 3)))
       in Bill (double_mult (city_price ps (frame_city s) 0) used) used)"
proof -
  let ?n = "ticks w" and ?l1 = "[Accept fd, Receive 0 (Received s), Act 0, Act 0, Act 0, Act 0, Receive 0 (Received bad), Act 0, Backup]"
  let ?l2 = "[Accept fd', Receive 1 (Received s), Act 1, Act 1, Receive 1 (Received c), Act 1, Act 1, Act 1]"
  let ?k0 = "opened (tbl (db_client w)) ?n (views (outbox w)) (closed_fds w)"
  let ?d = "clock w (?n + 2) - clock w ?n"
  obtain k b where k: "park_run ps (clock w) (sint start) ?l1 ?k0 = k"
    "k_rows k = tbl (db_client w) @ [\<lparr>p_mac = frame_mac s, p_time = ?d, p_loc = frame_city s\<rparr>]" "k_tick k = ?n + 3" "k_bays k = [b]"
    using left_run [where clk = "clock w" and n = "ticks w", OF assms(4-7)] by blast
  from back_run [OF assms(4) k(4,2)] obtain k' where k': "park_run ps (clock w) (sint start) ?l2 k = k'" "k_rows k' = tbl (db_client w)"
    "k_sent k' = k_sent k @ [(fd', Text (frame_city s)),
      (fd', Bill (double_mult (city_price ps (frame_city s) 0) (of_int (clock w (?n + 4) - (clock w (?n + 3) - ?d))))
        (of_int (clock w (?n + 4) - (clock w (?n + 3) - ?d))))]"
    unfolding k(3) by (auto simp: numeral_eq_Suc)
  have "park_run ps (clock w) (sint start) (?l1 @ ?l2) ?k0 = k'"
    using k(1) k'(1) by (simp only: park_run_def fold_append comp_apply)
  from server_runs_park [OF assms(1-3) _ this] obtain s' where "run_schedule eng start (?l1 @ ?l2) (server_system w) = Some s'"
    "tbl (db_client (s_world s')) = k_rows k'" "views (outbox (s_world s')) = k_sent k'" by (auto simp: size_defs)
  moreover have u: "clock w (?n + 4) - (clock w (?n + 3) - ?d) = ?d + (clock w (?n + 4) - clock w (?n + 3))" by simp
  ultimately show ?thesis using k'(2) k'(3) [unfolded u] by (simp add: Let_def del: take_turn.simps run_schedule.simps append.simps)
qed

theorem corrupt_frame_leaves_meter_running_witness:
  "\<exists>s'. run_schedule ref_engine 900 ([Accept 4, Receive 0 (Received demo_start), Act 0, Act 0, Act 0, Act 0,
        Receive 0 (Received (flip_bits [3] demo_start)), Act 0, Backup] @
      [Accept 5, Receive 1 (Received demo_start), Act 1, Act 1, Receive 1 (Received demo_close), Act 1, Act 1, Act 1])
      (server_system (demo_world demo_rows)) = Some s' \<and>
    rd_rows (db_client (s_world s')) = rd_rows (db_client (demo_world demo_rows)) \<and>
    snd (last (views (outbox (s_world s')))) =
      (let w = demo_world demo_rows; used = of_int ((clock w (ticks w + 2) - clock w (ticks w)) + (clock w (ticks w + 4) - clock w (ticks w + 3)))
       in Bill (double_mult (city_price demo_prices (frame_city demo_start) 0) used) used)"
proof -
  let ?w = "demo_world demo_rows"
  have rows: "rd_rows (db_client ?w) = demo_rows" by (simp add: demo_world_def demo_db_def)
  have "length demo_start = 10" "frame_ok demo_start" using demo_parking_frames by (simp_all add: parking_frames_def)
  then have bad: "\<not> frame_ok (flip_bits [3] demo_start)" "length (flip_bits [3] demo_start) = 10"
    using srv_crc.detects [of demo_start "[3]"] by (simp_all add: detectable_def)
  have "5 dvd clock ?w (ticks ?w + 1) - sint (900 :: int32)" by (simp add: demo_world_def)
  with bad demo_parking_frames show ?thesis unfolding Let_def [of ?w]
    by (intro corrupt_frame_leaves_meter_running [OF ref.sqlite_contract_axioms demo_session_world [OF demo_rows_ok]])
       (simp_all add: rows)
qed

section \<open>A frame of another vehicle\<close>

lemma other_run:
  assumes "length f = 10" and "frame_ok f" and "f ! 0 = START_APP" and "rows_of (frame_mac f) rows = []"
    and "length g = 10" and "frame_ok g" and "g ! 0 \<notin> {START_APP, CLOSE_APP}" and "frame_mac g \<noteq> frame_mac f"
  shows "\<exists>k. park_run ps clk st [Accept fd, Receive 0 (Received f), Act 0, Act 0, Act 0, Act 0,
      Receive 0 (Received g), Receive 0 (Received []), Act 0] (opened rows n sent shut) = k \<and>
    k_rows k = set_time (clk (n + 1) - clk n) (frame_mac g) rows @ [\<lparr>p_mac = frame_mac f, p_time = 0, p_loc = frame_city f\<rparr>]"
  using assms
  by (simp add: park_run_def accept_opened fresh_bay_def bay_compute status_defs Let_def park_now_def frame_city_def
      set_time_append set_time_def [of _ _ "[_]"] del: park_turn.simps)

text \<open>
  C21: the address of a connection is that of its last frame, also when this frame asks for nothing:
  if a vehicle that has started sends one valid frame with another vehicle's address, whose status is
  neither start nor close, and then loses its connection, its own row is left at 0 seconds, and
  its seconds replace the time of the other vehicle, if that one is parked. No row is added or
  removed apart from its own.
\<close>

theorem frame_of_another_vehicle_takes_its_row:
  assumes "sqlite_contract eng tbl prices healthy" and "session_world tbl healthy prices ps w" and "0 \<le> sint start"
    and "length f = 10" and "frame_ok f" and "f ! 0 = START_APP" and "rows_of (frame_mac f) (tbl (db_client w)) = []"
    and "length g = 10" and "frame_ok g" and "g ! 0 \<notin> {START_APP, CLOSE_APP}" and "frame_mac g \<noteq> frame_mac f"
  shows "\<exists>s. run_schedule eng start [Accept fd, Receive 0 (Received f), Act 0, Act 0, Act 0, Act 0,
      Receive 0 (Received g), Receive 0 (Received []), Act 0] (server_system w) = Some s \<and>
    tbl (db_client (s_world s)) = set_time (clock w (ticks w + 1) - clock w (ticks w)) (frame_mac g) (tbl (db_client w)) @
      [\<lparr>p_mac = frame_mac f, p_time = 0, p_loc = frame_city f\<rparr>]"
proof -
  let ?ls = "[Accept fd, Receive 0 (Received f), Act 0, Act 0, Act 0, Act 0, Receive 0 (Received g), Receive 0 (Received []), Act 0]"
  obtain k where "park_run ps (clock w) (sint start) ?ls
      (opened (tbl (db_client w)) (ticks w) (views (outbox w)) (closed_fds w)) = k"
    "k_rows k = set_time (clock w (ticks w + 1) - clock w (ticks w)) (frame_mac g) (tbl (db_client w)) @
      [\<lparr>p_mac = frame_mac f, p_time = 0, p_loc = frame_city f\<rparr>]"
    using other_run [OF assms(4-11), where clk = "clock w" and n = "ticks w"] by blast
  with server_runs_park [OF assms(1-3) _ this(1)] show ?thesis
    by (auto simp: size_defs simp del: take_turn.simps run_schedule.simps)
qed

definition demo_intruder :: "byte list" where
  "demo_intruder = seal [9, 0xAA, 0xBB, 0xCC, 0xDD, 0xEE, 0xFF, 0, 0]"

lemma demo_intruder_text: "frame_mac demo_intruder = ''aa:bb:cc:dd:ee:ff''"
  by code_simp

theorem frame_of_another_vehicle_takes_its_row_witness:
  "\<exists>s. run_schedule ref_engine 900 [Accept 4, Receive 0 (Received demo_start), Act 0, Act 0, Act 0, Act 0,
      Receive 0 (Received demo_intruder), Receive 0 (Received []), Act 0] (server_system (demo_world demo_rows)) = Some s \<and>
    rd_rows (db_client (s_world s)) =
      [\<lparr>p_mac = ''aa:bb:cc:dd:ee:ff'', p_time = 10, p_loc = ''Herzliya''\<rparr>,
       \<lparr>p_mac = frame_mac demo_start, p_time = 0, p_loc = frame_city demo_start\<rparr>]"
proof -
  have w: "rd_rows (db_client (demo_world demo_rows)) = demo_rows" by (simp add: demo_world_def demo_db_def)
  have f: "length demo_start = 10" "frame_ok demo_start" "demo_start ! 0 = START_APP"
    "rows_of (frame_mac demo_start) (rd_rows (db_client (demo_world demo_rows))) = []"
    using demo_parking_frames parking_events(3) [OF demo_parking_frames] by (simp_all add: parking_frames_def w)
  have g: "length demo_intruder = 10" "frame_ok demo_intruder" using seal_ok by (simp_all add: demo_intruder_def)
  have s: "demo_intruder ! 0 \<notin> {START_APP, CLOSE_APP}" by (simp add: demo_intruder_def seal_def status_defs)
  have ne: "frame_mac demo_intruder \<noteq> frame_mac demo_start" unfolding demo_intruder_text demo_frame_mac by simp
  have "clock (demo_world demo_rows) (ticks (demo_world demo_rows) + 1) - clock (demo_world demo_rows) (ticks (demo_world demo_rows)) = 10"
    by (simp add: demo_world_def)
  with frame_of_another_vehicle_takes_its_row [OF ref.sqlite_contract_axioms demo_session_world [OF demo_rows_ok] _ f g s ne, of 900 4]
  show ?thesis unfolding w demo_intruder_text by (simp add: demo_rows_def set_time_def del: take_turn.simps run_schedule.simps)
qed

section \<open>The race of two connections\<close>

definition two_bays :: "parked list \<Rightarrow> nat \<Rightarrow> (byte \<times> reply) list \<Rightarrow> byte list \<Rightarrow> byte \<Rightarrow> byte \<Rightarrow> car_park" where
  "two_bays rows n sent shut a b = (opened rows n sent shut)\<lparr>k_bays := [fresh_bay a, fresh_bay b]\<rparr>"

lemma accept_both:
  "park_turn ps clk st (Accept b) (park_turn ps clk st (Accept a) (opened rows n sent shut)) = two_bays rows n sent shut a b"
  by (simp add: two_bays_def opened_def)

lemma two_bays_parts [simp]:
  "k_rows (two_bays rows n sent shut a b) = rows" "k_bays (two_bays rows n sent shut a b) = [fresh_bay a, fresh_bay b]"
  by (simp_all add: two_bays_def opened_def)

lemma run_without_backup: "Backup \<notin> set ls \<Longrightarrow> run_schedule eng start ls s = run_schedule eng 0 ls s"
proof (induction ls arbitrary: s)
  case (Cons l ls)
  then have "take_turn eng start l = take_turn eng 0 l" by (cases l) (auto simp: fun_eq_iff)
  with Cons show ?case by (simp cong: bind_option_cong)
qed simp

lemma race_run:
  assumes "length f = 10" and "frame_ok f" and "f ! 0 = START_APP"
    and "length g = 10" and "frame_ok g" and "g ! 0 = START_APP" and "frame_mac g = frame_mac f"
    and "rows_of (frame_mac f) rows = []"
  defines "row \<equiv> \<lambda>f. \<lparr>p_mac = frame_mac f, p_time = 0, p_loc = frame_city f\<rparr>"
  shows "k_rows (park_run ps clk st [Accept a, Accept b, Receive 0 (Received f), Act 0, Act 0, Act 0, Act 0,
      Receive 1 (Received g), Act 1, Act 1]
      (opened rows n sent shut)) = rows @ [row f]"
    and "k_rows (park_run ps clk st [Accept a, Accept b, Receive 0 (Received f), Receive 1 (Received g), Act 0, Act 1,
      Act 0, Act 1, Act 0, Act 1, Act 0, Act 1]
      (opened rows n sent shut)) = rows @ [row f, row g]"
  using assms
  by (simp_all add: park_run_def accept_both fresh_bay_def arrive_request resume_bay_def enter_bay_def insert_bay_def announce_bay_def
      status_defs Let_def frame_city_def del: park_turn.simps(1))

text \<open>
  C17: the lookup is outside of the mutex. When a vehicle that is not parked starts on two
  connections, one after the other, the table gets one row for it; when both threads look up
  before either enters its row, it gets two rows with the same MAC address.
\<close>

theorem racing_starts_insert_twice:
  assumes "sqlite_contract eng tbl prices healthy" and "session_world tbl healthy prices ps w"
    and "length f = 10" and "frame_ok f" and "f ! 0 = START_APP"
    and "length g = 10" and "frame_ok g" and "g ! 0 = START_APP" and "frame_mac g = frame_mac f"
    and "rows_of (frame_mac f) (tbl (db_client w)) = []"
  defines "row \<equiv> \<lambda>f. \<lparr>p_mac = frame_mac f, p_time = 0, p_loc = frame_city f\<rparr>"
  shows "\<exists>one two.
    run_schedule eng start [Accept a, Accept b, Receive 0 (Received f), Act 0, Act 0, Act 0, Act 0,
      Receive 1 (Received g), Act 1, Act 1]
      (server_system w) = Some one \<and> tbl (db_client (s_world one)) = tbl (db_client w) @ [row f] \<and>
    run_schedule eng start [Accept a, Accept b, Receive 0 (Received f), Receive 1 (Received g), Act 0, Act 1,
      Act 0, Act 1, Act 0, Act 1, Act 0, Act 1]
      (server_system w) = Some two \<and> tbl (db_client (s_world two)) = tbl (db_client w) @ [row f, row g]"
proof -
  let ?one = "[Accept a, Accept b, Receive 0 (Received f), Act 0, Act 0, Act 0, Act 0,
      Receive 1 (Received g), Act 1, Act 1]"
    and ?two = "[Accept a, Accept b, Receive 0 (Received f), Receive 1 (Received g), Act 0, Act 1,
      Act 0, Act 1, Act 0, Act 1, Act 0, Act 1]"
  have start: "0 \<le> sint (0 :: int32)" by simp
  note run = race_run [OF assms(3-10), of ps "clock w" "sint (0 :: int32)" a b "ticks w" "views (outbox w)" "closed_fds w"]
  have acc: "accepts ?one \<le> SERVER_MAX_NUM_CLIENTS" "accepts ?two \<le> SERVER_MAX_NUM_CLIENTS" by (simp_all add: size_defs)
  have "run_schedule eng start ?one = run_schedule eng 0 ?one" "run_schedule eng start ?two = run_schedule eng 0 ?two"
    using run_without_backup [of ?one eng start] run_without_backup [of ?two eng start] by auto
  with server_runs_park [OF assms(1,2) start acc(1) refl] server_runs_park [OF assms(1,2) start acc(2) refl]
  show ?thesis unfolding row_def run by metis
qed

theorem racing_starts_insert_twice_witness:
  "\<exists>one two.
    run_schedule ref_engine 900 [Accept 4, Accept 5, Receive 0 (Received demo_start), Act 0, Act 0, Act 0, Act 0,
        Receive 1 (Received demo_start), Act 1, Act 1] (server_system (demo_world demo_rows)) = Some one \<and>
    rd_rows (db_client (s_world one)) = rd_rows (db_client (demo_world demo_rows)) @
      [\<lparr>p_mac = frame_mac demo_start, p_time = 0, p_loc = frame_city demo_start\<rparr>] \<and>
    run_schedule ref_engine 900 [Accept 4, Accept 5, Receive 0 (Received demo_start),
        Receive 1 (Received demo_start), Act 0, Act 1, Act 0, Act 1, Act 0, Act 1, Act 0, Act 1] (server_system (demo_world demo_rows)) = Some two \<and>
    rd_rows (db_client (s_world two)) = rd_rows (db_client (demo_world demo_rows)) @
      [\<lparr>p_mac = frame_mac demo_start, p_time = 0, p_loc = frame_city demo_start\<rparr>,
       \<lparr>p_mac = frame_mac demo_start, p_time = 0, p_loc = frame_city demo_start\<rparr>]"
proof -
  have "rows_of (frame_mac demo_start) (rd_rows (db_client (demo_world demo_rows))) = []"
    using parking_events(3) [OF demo_parking_frames] by (simp add: demo_world_def demo_db_def)
  then show ?thesis using demo_parking_frames
    by (intro racing_starts_insert_twice [OF ref.sqlite_contract_axioms demo_session_world [OF demo_rows_ok]])
       (simp_all add: parking_frames_def)
qed

end
