(* ===== verification/Server_Bills.thy ===== *)
theory Server_Bills
  imports Server_Loopholes
begin

text \<open>
  An invariant of the car park, and with the refinement of the server: no schedule sends a bill
  that is not a price of the price list times a number of seconds the clock has seen.
\<close>

section \<open>The invariant\<close>

definition bay_fine :: "(string \<times> rat) list \<Rightarrow> int \<Rightarrow> bay \<Rightarrow> bool" where
  "bay_fine ps t b \<longleftrightarrow>
     (y_price b = 0 \<or> y_price b \<in> snd ` set ps) \<and> 0 \<le> y_start b \<and> y_start b \<le> t \<and> 0 \<le> y_end b \<and> y_end b \<le> t \<and>
     (y_pc b = Leaving \<and> y_status b = CLOSE_APP \<longrightarrow> y_start b \<le> y_end b)"

definition times_fine :: "int \<Rightarrow> parked list \<Rightarrow> bool" where
  "times_fine t rows \<longleftrightarrow> (\<forall>r\<in>set rows. 0 \<le> p_time r \<and> p_time r \<le> t)"

fun bill_fine :: "(string \<times> rat) list \<Rightarrow> int \<Rightarrow> reply \<Rightarrow> bool" where
  "bill_fine ps t (Text s) = True"
| "bill_fine ps t (Bill p u) \<longleftrightarrow>
     (\<exists>q n. (q = 0 \<or> q \<in> snd ` set ps) \<and> 0 \<le> n \<and> n \<le> t \<and> u = of_int n \<and> p = double_mult q u)"

definition park_fine :: "(string \<times> rat) list \<Rightarrow> (nat \<Rightarrow> int) \<Rightarrow> nat \<Rightarrow> car_park \<Rightarrow> bool" where
  "park_fine ps clk old k \<longleftrightarrow>
     times_fine (park_now clk k) (k_rows k) \<and> (\<forall>b\<in>set (k_bays k). bay_fine ps (park_now clk k) b) \<and>
     old \<le> length (k_sent k) \<and> (\<forall>fr\<in>set (drop old (k_sent k)). bill_fine ps (park_now clk k) (snd fr))"

lemma later_fine:
  "bay_fine ps t b \<Longrightarrow> t \<le> t' \<Longrightarrow> bay_fine ps t' b"
  "times_fine t rows \<Longrightarrow> t \<le> t' \<Longrightarrow> times_fine t' rows"
  by (auto simp: bay_fine_def times_fine_def)

lemma bill_fine_later: "bill_fine ps t r \<Longrightarrow> t \<le> t' \<Longrightarrow> bill_fine ps t' r"
  by (cases r) (auto intro: order_trans)

lemma bill_fineI: "q = 0 \<or> q \<in> snd ` set ps \<Longrightarrow> 0 \<le> n \<Longrightarrow> n \<le> t \<Longrightarrow> bill_fine ps t (Bill (double_mult q (of_int n)) (of_int n))"
  by auto

lemma times_fine_rows:
  "times_fine t rows \<Longrightarrow> 0 \<le> n \<Longrightarrow> n \<le> t \<Longrightarrow> times_fine t (set_time n mac rows)"
  "times_fine t rows \<Longrightarrow> times_fine t (filter P rows)"
  "times_fine t (rows @ [r]) \<longleftrightarrow> times_fine t rows \<and> 0 \<le> p_time r \<and> p_time r \<le> t"
  by (auto simp: times_fine_def set_time_def)

lemma city_price_fine:
  assumes "p = 0 \<or> p \<in> snd ` set ps"
  shows "city_price ps city p = 0 \<or> city_price ps city p \<in> snd ` set ps"
proof (cases "filter (\<lambda>cp. fst cp = city) ps")
  case (Cons cp cps)
  moreover have "set (filter (\<lambda>cp. fst cp = city) ps) \<subseteq> set ps" by auto
  ultimately have "cp \<in> set ps" by auto
  then show ?thesis using Cons by (simp add: city_price_def)
qed (use assms in \<open>simp add: city_price_def\<close>)

lemma used_before_fine:
  assumes "times_fine t rows" and "0 \<le> old" and "old \<le> t"
  shows "0 \<le> used_before (rows_of mac rows) old" and "used_before (rows_of mac rows) old \<le> t"
proof -
  have "\<forall>r\<in>set (rows_of mac rows). 0 \<le> p_time r \<and> p_time r \<le> t" using assms(1) by (simp add: times_fine_def)
  with assms(2,3) show "0 \<le> used_before (rows_of mac rows) old" "used_before (rows_of mac rows) old \<le> t"
    by (cases "rows_of mac rows"; simp add: used_before_def)+
qed

section \<open>Every turn keeps it\<close>

lemma judge_fine: "bay_fine ps t b \<Longrightarrow> y_pc b = Receiving \<Longrightarrow> bay_fine ps t (judge b)"
  by (auto simp: bay_fine_def judge_def Let_def status_defs)

lemma arrive_fine:
  assumes "bay_fine ps t b" and "y_pc b = Receiving"
  shows "bay_fine ps t (arrive r b)"
proof -
  have f: "bay_fine ps t (b\<lparr>y_frame := f\<rparr>)" for f using assms(1) by (simp add: bay_fine_def)
  show ?thesis
  proof (cases r)
    case (Received bs)
    then show ?thesis using assms judge_fine [OF f] by (cases bs) (auto simp: bay_fine_def status_defs)
  qed (use assms judge_fine in auto)
qed

text \<open>A section of a bay: the bay stays fine, and the rows and the new messages too.\<close>

definition still_fine :: "(string \<times> rat) list \<Rightarrow> (nat \<Rightarrow> int) \<Rightarrow> car_park \<Rightarrow> bay \<times> car_park \<Rightarrow> bool" where
  "still_fine ps clk k bk \<longleftrightarrow> (case bk of (b, k') \<Rightarrow>
     park_now clk k \<le> park_now clk k' \<and> bay_fine ps (park_now clk k') b \<and> times_fine (park_now clk k') (k_rows k') \<and>
     k_bays k' = k_bays k \<and> (\<exists>rs. k_sent k' = k_sent k @ rs \<and> (\<forall>fr\<in>set rs. bill_fine ps (park_now clk k') (snd fr))))"

lemma bay_act_fine:
  assumes "mono clk" and "\<forall>n. 0 \<le> clk n" and "bay_fine ps (park_now clk k) b" and "times_fine (park_now clk k) (k_rows k)"
    and "y_pc b = pc"
  shows "still_fine ps clk k (bay_act ps clk pc b k)"
proof -
  let ?t = "park_now clk k" and ?t' = "clk (Suc (k_tick k))"
  have t: "0 \<le> ?t" "?t \<le> ?t'" using assms(1,2) using monoD [OF assms(1), of "k_tick k" "Suc (k_tick k)"] by (auto simp: park_now_def)
  have later: "park_now clk (tick k) = ?t'" by (simp add: park_now_def)
  note p = city_price_fine [of "y_price b" ps]
  show ?thesis
  proof (cases pc)
    case Resuming
    note u = used_before_fine [OF assms(4), of "y_start b" "y_mac b"]
    show ?thesis using Resuming assms(3,4) t p u later_fine(2) [OF assms(4) t(2)]
      by (auto simp: still_fine_def resume_bay_def Let_def bay_fine_def park_now_def)
  next
    case Entering
    show ?thesis using Entering assms(3,4) t p later_fine(2) [OF assms(4) t(2)]
      by (auto simp: still_fine_def enter_bay_def Let_def bay_fine_def park_now_def times_fine_rows)
  next
    case Inserting
    show ?thesis using Inserting assms(3,4) t p
      by (auto simp: still_fine_def insert_bay_def bay_fine_def park_now_def times_fine_rows)
  next
    case Closing
    show ?thesis using Closing assms(3,4) t later_fine(2) [OF assms(4) t(2)]
      by (auto simp: still_fine_def save_bay_def bay_fine_def park_now_def times_fine_rows)
  next
    case Leaving
    show ?thesis
    proof (cases "y_status b = CLOSE_APP")
      case True
      have "bill_fine ps ?t (Bill (double_mult (y_price b) (of_int (y_end b - y_start b))) (of_int (y_end b - y_start b)))"
        using True Leaving assms(3,5) by (intro bill_fineI) (auto simp: bay_fine_def)
      then show ?thesis using True Leaving assms(3,4)
        by (simp add: still_fine_def bay_fine_def park_now_def Let_def del: bill_fine.simps)
    next
      case False
      then show ?thesis using Leaving assms(3,4) t later_fine(2) [OF assms(4) t(2)]
        by (auto simp: still_fine_def save_bay_def bay_done_def bay_fine_def park_now_def times_fine_rows status_defs)
    qed
  qed (use assms(3,4) in \<open>auto simp: still_fine_def announce_bay_def bay_done_def bay_fine_def park_now_def times_fine_rows\<close>)
qed

lemma put_fine:
  assumes "park_fine ps clk old k" and "still_fine ps clk k bk"
  shows "park_fine ps clk old (put_bay i bk)"
proof -
  obtain b k' where bk: "bk = (b, k')" by fastforce
  obtain rs where k': "park_now clk k \<le> park_now clk k'" "bay_fine ps (park_now clk k') b"
    "times_fine (park_now clk k') (k_rows k')" "k_bays k' = k_bays k" "k_sent k' = k_sent k @ rs"
    "\<forall>fr\<in>set rs. bill_fine ps (park_now clk k') (snd fr)"
    using assms(2) by (auto simp: still_fine_def bk)
  have "\<forall>c\<in>set (k_bays k). bay_fine ps (park_now clk k') c"
    using assms(1) later_fine(1) [OF _ k'(1)] by (simp add: park_fine_def)
  with k'(2) have "\<forall>c\<in>set ((k_bays k)[i := b]). bay_fine ps (park_now clk k') c"
    using set_update_subset_insert [of "k_bays k" i b] by blast
  with assms(1) k' bill_fine_later [OF _ k'(1)] show ?thesis
    by (auto simp: park_fine_def bk park_now_def)
qed

lemma save_bays_fine:
  assumes "mono clk" and "times_fine (park_now clk k) (k_rows k)" and "\<forall>b\<in>set bs. bay_fine ps (park_now clk k) b"
  defines "k' \<equiv> save_bays clk bs k"
  shows "park_now clk k \<le> park_now clk k' \<and> times_fine (park_now clk k') (k_rows k') \<and> k_bays k' = k_bays k \<and> k_sent k' = k_sent k"
  using assms(2,3) unfolding k'_def
proof (induction bs arbitrary: k)
  case (Cons b bs)
  show ?case
  proof (cases "y_on b")
    case True
    let ?k = "snd (save_bay clk b k)"
    have t: "park_now clk k \<le> park_now clk ?k"
      using monoD [OF assms(1), of "k_tick k" "Suc (k_tick k)"] by (simp add: save_bay_def park_now_def)
    have "times_fine (park_now clk k) (k_rows ?k)"
      using Cons.prems by (simp add: save_bay_def bay_fine_def times_fine_rows)
    then have "times_fine (park_now clk ?k) (k_rows ?k)" using later_fine(2) t by blast
    moreover have "\<forall>b\<in>set bs. bay_fine ps (park_now clk ?k) b" using Cons.prems(2) later_fine(1) t by auto
    ultimately show ?thesis using Cons.IH [of ?k] True t by (simp add: save_bay_def)
  qed (use Cons in simp)
qed simp

lemma park_turn_fine:
  assumes "mono clk" and "\<forall>n. 0 \<le> clk n" and "park_fine ps clk old k"
  shows "park_fine ps clk old (park_turn ps clk st l k)"
proof -
  have t: "0 \<le> park_now clk k" using assms(2) by (simp add: park_now_def)
  have bay: "bay_fine ps (park_now clk k) (k_bays k ! i)" if "i < length (k_bays k)" for i
    using that assms(3) by (simp add: park_fine_def)
  show ?thesis
  proof (cases l)
    case (Accept fd)
    with assms(3) t show ?thesis by (simp add: park_fine_def park_now_def bay_fine_def fresh_bay_def)
  next
    case (Receive i r)
    show ?thesis
    proof (cases "i < length (k_bays k) \<and> y_pc (k_bays k ! i) = Receiving")
      case True
      then have "still_fine ps clk k (arrive r (k_bays k ! i), k)"
        using arrive_fine [OF bay] assms(3) by (simp add: still_fine_def park_fine_def)
      with put_fine [OF assms(3)] Receive True show ?thesis by simp
    qed (use Receive assms(3) in auto)
  next
    case (Act i)
    show ?thesis
    proof (cases "i < length (k_bays k) \<and> y_pc (k_bays k ! i) \<notin> {Receiving, Done}")
      case True
      then have "still_fine ps clk k (bay_act ps clk (y_pc (k_bays k ! i)) (k_bays k ! i) k)"
        using bay_act_fine [OF assms(1,2) bay] assms(3) by (simp add: park_fine_def)
      with put_fine [OF assms(3)] Act True show ?thesis by simp
    qed (use Act assms(3) in auto)
  next
    case Backup
    let ?k = "tick k"
    have le: "park_now clk k \<le> park_now clk ?k"
      using monoD [OF assms(1), of "k_tick k" "Suc (k_tick k)"] by (simp add: park_now_def)
    then have f: "park_fine ps clk old ?k"
      using assms(3) later_fine [OF _ le] bill_fine_later [OF _ le] by (auto simp: park_fine_def)
    have "park_fine ps clk old (save_bays clk (k_bays k) ?k)"
      using save_bays_fine [OF assms(1), of ?k "k_bays k" ps] f later_fine(1) bill_fine_later
      by (auto simp: park_fine_def)
    with f Backup show ?thesis by (simp add: backup_turn_def)
  qed
qed

lemma park_run_fine:
  assumes "mono clk" and "\<forall>n. 0 \<le> clk n" and "park_fine ps clk old k"
  shows "park_fine ps clk old (park_run ps clk st ls k)"
  using assms(3) unfolding park_run_def
  by (induction ls arbitrary: k) (simp_all add: park_turn_fine [OF assms(1,2)])

section \<open>The bills of the server\<close>

text \<open>
  C7: in every schedule with healthy databases, every bill sent on any socket is a price
  (0 for a vehicle that never started, or the price of a city in the price list) times a number
  of seconds that is not negative and not more than the clock shows: no interleaving of
  connections and backups bills a negative or a future time, or a price that is not in the list.
\<close>

theorem every_bill_is_price_times_seconds:
  assumes "sqlite_contract eng tbl prices healthy" and "session_world tbl healthy prices ps w" and "0 \<le> sint start"
    and "accepts ls \<le> SERVER_MAX_NUM_CLIENTS" and "run_schedule eng start ls (server_system w) = Some s"
    and "(fd, Bill payment used) \<in> set (drop (length (outbox w)) (views (outbox (s_world s))))"
  shows "\<exists>q n. (q = 0 \<or> q \<in> snd ` set ps) \<and> 0 \<le> n \<and> n \<le> clock w (ticks (s_world s)) \<and>
    used = of_int n \<and> payment = double_mult q used"
proof -
  let ?k = "opened (tbl (db_client w)) (ticks w) (views (outbox w)) (closed_fds w)"
  have w: "mono (clock w)" "\<forall>n. 0 \<le> clock w n" "rows_ok (clock w (ticks w)) (tbl (db_client w))"
    using assms(2) clock_range(1) by (auto simp: session_world_def world_ok_def clock_ok_def)
  have "park_fine ps (clock w) (length (outbox w)) ?k"
    using w(3) by (auto simp: park_fine_def times_fine_def opened_def views_def park_now_def rows_ok_def)
  from park_run_fine [OF w(1,2) this, of "sint start" ls]
  have "park_fine ps (clock w) (length (outbox w)) (park_run ps (clock w) (sint start) ls ?k)" .
  moreover obtain s' where "run_schedule eng start ls (server_system w) = Some s'"
    "ticks (s_world s') = k_tick (park_run ps (clock w) (sint start) ls ?k)"
    "views (outbox (s_world s')) = k_sent (park_run ps (clock w) (sint start) ls ?k)"
    using server_runs_park [OF assms(1-4) refl] by blast
  ultimately show ?thesis using assms(5,6) by (force simp: park_fine_def park_now_def)
qed

theorem every_bill_is_price_times_seconds_witness:
  "\<exists>s. run_schedule ref_engine 900 [Accept 4, Receive 0 (Received demo_start), Act 0, Act 0, Act 0, Act 0, Receive 0 Recv_error, Act 0, Act 0,
      Receive 0 (Received demo_close), Act 0, Act 0, Act 0] (server_system (demo_world demo_rows)) = Some s \<and>
    (\<exists>q n. (q = 0 \<or> q \<in> snd ` set demo_prices) \<and> 0 \<le> n \<and> n \<le> clock (demo_world demo_rows) (ticks (s_world s)) \<and>
      (10 :: rat) = of_int n \<and> double_mult (city_price demo_prices (frame_city demo_start) 0) 10 = double_mult q 10)"
proof -
  let ?w = "demo_world demo_rows" and ?ls = "[Accept 4, Receive 0 (Received demo_start), Act 0, Act 0, Act 0, Act 0, Receive 0 Recv_error, Act 0, Act 0,
    Receive 0 (Received demo_close), Act 0, Act 0, Act 0]"
  have w: "opened demo_rows 0 [] [] = opened (rd_rows (db_client ?w)) (ticks ?w) (views (outbox ?w)) (closed_fds ?w)" "outbox ?w = []"
    and c: "clock ?w (0 + 2) - clock ?w (0 + 1) = 10" by (simp_all add: demo_world_def demo_db_def views_def)
  have acc: "accepts ?ls \<le> SERVER_MAX_NUM_CLIENTS" "0 \<le> sint (900 :: int32)" by (simp_all add: size_defs)
  let ?bill = "(4, Bill (double_mult (city_price demo_prices (frame_city demo_start) 0) (of_int 10)) (of_int 10))"
  obtain k where k: "park_run demo_prices (clock ?w) (sint (900 :: int32)) ?ls (opened demo_rows 0 [] []) = k"
    "k_sent k = [] @ [(4, Text (frame_city demo_start)), (4, Text (frame_city demo_start)), ?bill]"
    using twice_run [OF demo_parking_frames, of Recv_error demo_prices "clock ?w" "sint (900 :: int32)" 4 0 "[]" "[]"]
    unfolding c by blast
  note k(1) [unfolded w(1)]
  from server_runs_park [OF ref.sqlite_contract_axioms demo_session_world [OF demo_rows_ok] acc(2,1) this] obtain s where
    s: "run_schedule ref_engine 900 ?ls (server_system ?w) = Some s" "views (outbox (s_world s)) = k_sent k" by blast
  from every_bill_is_price_times_seconds [OF ref.sqlite_contract_axioms demo_session_world [OF demo_rows_ok] acc(2,1) s(1), of 4] k(2) s(1,2)
  show ?thesis by (auto simp: w(2) simp del: run_schedule.simps take_turn.simps)
qed

end
