(* ===== verification/Server_Passes.thy ===== *)
theory Server_Passes
  imports Server_Threads
begin

text \<open>
  A backup in the middle of a stored frame. \<open>store_client_data_in_struct\<close> prints the MAC address
  into the record piece by piece and without the mutex, while the record may be marked as
  connected; the backup thread may read it after any of these pieces. A pass is one piece; the
  lemmas show what the record holds after each, and that a backup before the first or after
  the last piece of the address is a turn of its own.
\<close>

section \<open>The passes of the loop\<close>

text \<open>One pass of the loop of \<open>store_client_data_in_struct\<close>, and the first \<open>n\<close> passes.\<close>

definition store_pass :: "byte list \<Rightarrow> nat \<Rightarrow> nat \<times> byte \<times> pango_data \<Rightarrow> (nat \<times> byte \<times> pango_data) option" where
  "store_pass client_buff i r = (case r of (offset, status, client) \<Rightarrow> do {
     status \<leftarrow> (if i = 0 then byte_at client_buff 0 else Some status);
     if 0 < i \<and> i < 7
     then do {
       b \<leftarrow> byte_at client_buff i;
       let s = (if i = 6 then fmt_x (unat b) else fmt_x (unat b) @ '':'');
       m \<leftarrow> c_write (mac_address client) offset s;
       Some (offset + length s, status, client\<lparr>mac_address := m\<rparr>) }
     else do {
       x \<leftarrow> byte_at client_buff i;
       y \<leftarrow> byte_at client_buff (i + 1);
       Some (offset, status, client\<lparr>x_axis := x, y_axis := y\<rparr>) } })"

fun store_upto :: "nat \<Rightarrow> byte list \<Rightarrow> byte \<Rightarrow> pango_data \<Rightarrow> (nat \<times> byte \<times> pango_data) option" where
  "store_upto 0 client_buff status client = Some (0, status, client)"
| "store_upto (Suc n) client_buff status client = store_upto n client_buff status client \<bind> store_pass client_buff n"

lemma store_loop_pass:
  "store_loop buff i offset status client =
     (if i < 8 then store_pass buff i (offset, status, client) \<bind> (\<lambda>(offset, status, client). store_loop buff (i + 1) offset status client)
      else Some (status, client))"
  by (subst store_loop.simps) (auto simp: store_pass_def Let_def split: Option.bind_split)

text \<open>The loop is its first passes and then the rest.\<close>

lemma store_loop_upto:
  "n \<le> 8 \<Longrightarrow> store_loop buff 0 0 status client =
     store_upto n buff status client \<bind> (\<lambda>(offset, status, client). store_loop buff n offset status client)"
proof (induction n)
  case (Suc n)
  then have "store_loop buff 0 0 status client =
      store_upto n buff status client \<bind> (\<lambda>(offset, status, client). store_loop buff n offset status client)" by simp
  also have "\<dots> = store_upto n buff status client \<bind>
      (\<lambda>r. store_pass buff n r \<bind> (\<lambda>(offset, status, client). store_loop buff (Suc n) offset status client))"
    using Suc.prems by (intro bind_option_cong) (auto simp: store_loop_pass [of buff n])
  finally show ?case by simp
qed simp

text \<open>Only the MAC address and the coordinates change; the address only in the passes 1 to 6.\<close>

definition blank :: "pango_data \<Rightarrow> pango_data" where
  "blank c = c\<lparr>mac_address := [], x_axis := 0, y_axis := 0\<rparr>"

lemma blank_fields:
  assumes "blank c = blank d"
  shows "connected c = connected d" "time_start_parking c = time_start_parking d" "location c = location d"
    "price c = price d" "client_fd c = client_fd d" "pd_status c = pd_status d"
  using assms by (cases c; cases d; simp add: blank_def)+

lemma store_pass_fields:
  assumes "store_pass buff i (off, st, c) = Some (off', st', c')"
  shows "blank c' = blank c" and "\<not> (0 < i \<and> i < 7) \<Longrightarrow> mac_address c' = mac_address c" and "0 < i \<Longrightarrow> st' = st"
  using assms by (auto simp: store_pass_def Let_def Option.bind_eq_Some_conv blank_def split: if_splits)

lemma store_upto_blank:
  "store_upto n buff st c = Some (off, st', c') \<Longrightarrow> blank c' = blank c"
  by (induction n arbitrary: off st' c') (auto simp: Option.bind_eq_Some_conv dest: store_pass_fields(1))

text \<open>
  The text of an address that is cut after \<open>n\<close> of its bytes, and what is in the record then.
  A cut address ends with a colon.
\<close>

definition cut_text :: "byte list \<Rightarrow> string" where
  "cut_text bs = concat (map (\<lambda>b. fmt_x (unat b) @ '':'') bs)"

definition holds_text :: "nat \<Rightarrow> string \<Rightarrow> char list \<Rightarrow> bool" where
  "holds_text off p m \<longleftrightarrow> length m = MAC_ADDRESS_SIZE \<and> off = length p \<and> take (length p) m = p \<and> (p \<noteq> [] \<longrightarrow> m ! length p = nul)"

lemma cut_text_snoc: "cut_text (bs @ [b]) = cut_text bs @ fmt_x (unat b) @ '':''"
  by (simp add: cut_text_def)

lemma set_cut_text: "set (cut_text bs) \<subseteq> insert (CHR '':'') digit_chars"
proof (induction bs)
  case (Cons b bs)
  then show ?case using set_fmt_x [of "unat b"] by (auto simp: cut_text_def)
qed (simp add: cut_text_def)

lemma length_cut_text: "length (cut_text bs) \<le> 3 * length bs"
proof (induction bs)
  case (Cons b bs)
  then show ?case using length_fmt_x_byte [of b] by (simp add: cut_text_def)
qed (simp add: cut_text_def)

lemma cut_text_last: "bs \<noteq> [] \<Longrightarrow> cut_text bs \<noteq> [] \<and> last (cut_text bs) = CHR '':''"
  by (cases bs rule: rev_cases) (simp_all add: cut_text_snoc)

lemma holds_text_cstr:
  assumes "holds_text off p m" and "p \<noteq> []" and "nul \<notin> set p" and "off < MAC_ADDRESS_SIZE"
  shows "cstr m = p" and "nul \<in> set m"
proof -
  have "m = take off m @ m ! off # drop (Suc off) m"
    using assms(1,4) by (intro id_take_nth_drop) (simp add: holds_text_def)
  moreover have "take off m = p" "m ! off = nul" using assms(1,2) by (auto simp: holds_text_def)
  ultimately have "m = p @ nul # drop (Suc off) m" by simp
  then show "cstr m = p" "nul \<in> set m" using cstr_append_nul [OF assms(3)] by (metis, metis in_set_conv_decomp)
qed

lemma store_cut:
  assumes "length buff = 10" and "length (mac_address c) = MAC_ADDRESS_SIZE" and "1 \<le> n" and "n \<le> 6"
  shows "\<exists>off c'. store_upto n buff st c = Some (off, buff ! 0, c') \<and>
    holds_text off (cut_text (take (n - 1) (drop 1 buff))) (mac_address c') \<and> (n = 1 \<longrightarrow> mac_address c' = mac_address c)"
  using assms(3,4)
proof (induction n rule: nat_induct_at_least)
  case base
  with assms show ?case by (simp add: store_pass_def byte_at_def holds_text_def cut_text_def)
next
  case (Suc n)
  then obtain off c' where c': "store_upto n buff st c = Some (off, buff ! 0, c')"
    "holds_text off (cut_text (take (n - 1) (drop 1 buff))) (mac_address c')" by auto
  let ?p = "cut_text (take (n - 1) (drop 1 buff))" and ?s = "fmt_x (unat (buff ! n)) @ '':''"
  have t: "take n (drop 1 buff) = take (n - 1) (drop 1 buff) @ [buff ! n]"
    using take_Suc_conv_app_nth [of "n - 1" "drop 1 buff"] Suc assms(1) by simp
  have "length ?p \<le> 3 * (n - 1)" using length_cut_text [of "take (n - 1) (drop 1 buff)"] by simp
  moreover have h: "length (mac_address c') = MAC_ADDRESS_SIZE" "off = length ?p" "take (length ?p) (mac_address c') = ?p"
    using c'(2) unfolding holds_text_def by blast+
  ultimately have fit: "length ?p + length ?s < length (mac_address c')"
    using Suc.prems length_fmt_x_byte [of "buff ! n"] by (simp add: size_defs)
  let ?m = "?p @ ?s @ [nul] @ drop (length ?p + length ?s + 1) (mac_address c')"
  have "c_write (mac_address c') off ?s = Some ?m" unfolding h(2) using c_write_Some [OF fit] h(3) by simp
  then have "store_pass buff n (off, buff ! 0, c') = Some (off + length ?s, buff ! 0, c'\<lparr>mac_address := ?m\<rparr>)"
    using Suc.hyps Suc.prems assms(1) by (simp add: store_pass_def byte_at_def)
  moreover have "holds_text (off + length ?s) (cut_text (take n (drop 1 buff))) ?m"
    unfolding t cut_text_snoc holds_text_def using h fit by (simp add: nth_append)
  ultimately show ?case using c'(1) Suc.hyps by (simp del: append.simps append_Cons)
qed

section \<open>A backup between two passes\<close>

text \<open>
  One turn: a thread receives a frame, and the backup thread goes round its loop when \<open>n\<close> passes
  over the frame are done; it reads the record as it is then. The turn passes when the thread
  waits for something else or stores nothing.
\<close>

definition torn_turn :: "('db, 'stmt) sqlite \<Rightarrow> int32 \<Rightarrow> nat \<Rightarrow> recv_result \<Rightarrow> nat \<Rightarrow> 'db system \<Rightarrow> 'db system option" where
  "torn_turn eng start i r n s =
     (if i < length (s_threads s) \<and> fst (s_threads s ! i) = Receiving \<and> n \<le> 8
      then do {
        let t = snd (s_threads s ! i);
        (lost, client, status, buff, w) \<leftarrow>
          wait_for_data_from_client r (t_client t) (t_status t) (t_buff t) (s_world s);
        if lost = CONNECTION_LOST then Some s
        else do {
          (ok, status) \<leftarrow> CRC_8_check buff PANGO_DATA_SIZE status;
          if ok \<noteq> TRUE \<or> status = CRC8_TEST_FAILED then Some s
          else do {
            (offset, status, client) \<leftarrow> store_upto n buff status client;
            (quit_loop_flag, w) \<leftarrow>
              db_update_iteration eng start FALSE ((client_array s)[i := client]) (s_quit s) w;
            (status, client) \<leftarrow> store_loop buff n offset status client;
            let t = t\<lparr>t_client := client, t_status := status, t_buff := buff\<rparr>;
            Some (put_thread i
              (if t_status t = START_APP then Looking_up
               else if t_status t = CLOSE_APP then Closing else loop_pc t, t, w) (s\<lparr>s_quit := quit_loop_flag\<rparr>)) } } }
      else Some s)"

datatype step = Whole turn | Torn nat recv_result nat

fun take_step :: "('db, 'stmt) sqlite \<Rightarrow> int32 \<Rightarrow> step \<Rightarrow> 'db system \<Rightarrow> 'db system option" where
  "take_step eng start (Whole l) s = take_turn eng start l s"
| "take_step eng start (Torn i r n) s = torn_turn eng start i r n s"

fun run_steps :: "('db, 'stmt) sqlite \<Rightarrow> int32 \<Rightarrow> step list \<Rightarrow> 'db system \<Rightarrow> 'db system option" where
  "run_steps eng start [] s = Some s"
| "run_steps eng start (l # ls) s = take_step eng start l s \<bind> run_steps eng start ls"

fun step_accepts :: "step list \<Rightarrow> nat" where
  "step_accepts [] = 0"
| "step_accepts (Whole l # ls) = accepts [l] + step_accepts ls"
| "step_accepts (Torn i r n # ls) = step_accepts ls"

text \<open>What the thread finds in its buffer, and whether it stores it.\<close>

definition arrived :: "recv_result \<Rightarrow> byte list \<Rightarrow> byte list" where
  "arrived r f = (case r of Received bs \<Rightarrow> take 10 bs @ drop (length bs) f | Recv_error \<Rightarrow> f)"

definition stores :: "recv_result \<Rightarrow> byte list \<Rightarrow> byte \<Rightarrow> bool" where
  "stores r f st \<longleftrightarrow> r \<noteq> Received [] \<and> frame_ok (arrived r f) \<and> st \<noteq> CRC8_TEST_FAILED"

lemma length_arrived [simp]: "length f = 10 \<Longrightarrow> length (arrived r f) = 10"
  by (auto simp: arrived_def min_def split: recv_result.splits)

lemma wait_arrived:
  assumes "length f = 10" and "r \<noteq> Received []"
  shows "wait_for_data_from_client r c st f w = Some (0, c, st, arrived r f, w)"
proof (cases r)
  case (Received bs)
  moreover have "drop (length (take 10 bs)) f = drop (length bs) f" using assms(1) by (simp add: min_def)
  ultimately show ?thesis using assms
    by (cases bs) (simp_all add: wait_for_data_from_client_def arrived_def del: length_take)
qed (simp add: wait_for_data_from_client_def arrived_def)

lemma torn_passes:
  assumes "i < length (s_threads s) \<and> fst (s_threads s ! i) = Receiving \<longrightarrow> length (t_buff (snd (s_threads s ! i))) = 10"
    and "\<not> (i < length (s_threads s) \<and> fst (s_threads s ! i) = Receiving \<and> n \<le> 8 \<and>
      stores r (t_buff (snd (s_threads s ! i))) (t_status (snd (s_threads s ! i))))"
    and "\<not> locked (s_world s)"
  shows "torn_turn eng start i r n s = Some s"
proof (cases "r = Received []")
  case True
  with assms(3) show ?thesis
    by (simp add: torn_turn_def wait_for_data_from_client_def mutex_lock_def mutex_unlock_def Let_def)
next
  case False
  with assms(1,2) show ?thesis
    by (auto simp: torn_turn_def wait_arrived CRC_8_check_iff Let_def status_defs stores_def flag_defs)
qed

text \<open>
  Without the backup the turn is that of \<open>recv\<close>: the frame is stored in the first passes and the
  rest.
\<close>

lemma torn_parts:
  fixes s :: "'db system"
  assumes "s_threads s ! i = (Receiving, t)" and "i < length (s_threads s)" and "n \<le> 8"
    and "thread_inv tbl t (s_world s)" and "stores r (t_buff t) (t_status t)"
  shows "\<exists>off st c pc' t'. store_upto n (arrived r (t_buff t)) (t_status t) (t_client t) = Some (off, st, c) \<and>
    (\<forall>w :: 'db world. receive_section r t w = Some (pc', t', w)) \<and>
    store_loop (arrived r (t_buff t)) n off st c = Some (t_status t', t_client t') \<and>
    torn_turn eng start i r n s =
      db_update_iteration eng start FALSE ((client_array s)[i := c]) (s_quit s) (s_world s) \<bind>
        (\<lambda>(q, w). Some (put_thread i (pc', t', w) (s\<lparr>s_quit := q\<rparr>)))"
proof -
  let ?f = "arrived r (t_buff t)"
  have b: "length (t_buff t) = 10" "length (mac_address (t_client t)) = MAC_ADDRESS_SIZE"
    using assms(4) by (simp_all add: thread_inv_def size_defs client_inv_def client_ok_def)
  note wait = wait_arrived [OF b(1), of r]
  have r: "r \<noteq> Received []" "frame_ok ?f" "t_status t \<noteq> CRC8_TEST_FAILED" using assms(5) by (simp_all add: stores_def)
  obtain m where m: "store_client_data_in_struct (t_status t) ?f (t_client t) =
      Some (?f ! 0, (t_client t)\<lparr>mac_address := m, x_axis := ?f ! 7, y_axis := ?f ! 8\<rparr>)"
    using store_client_data_ok [OF length_arrived [OF b(1), of r] b(2) r(3)] by blast
  then have "store_upto n ?f (t_status t) (t_client t) \<bind> (\<lambda>(off, st, c). store_loop ?f n off st c) =
      Some (?f ! 0, (t_client t)\<lparr>mac_address := m, x_axis := ?f ! 7, y_axis := ?f ! 8\<rparr>)"
    using r(3) by (simp add: store_client_data_in_struct_def store_loop_upto [OF assms(3)])
  then obtain off st c where c: "store_upto n ?f (t_status t) (t_client t) = Some (off, st, c)"
    "store_loop ?f n off st c = Some (?f ! 0, (t_client t)\<lparr>mac_address := m, x_axis := ?f ! 7, y_axis := ?f ! 8\<rparr>)"
    by (auto simp: Option.bind_eq_Some_conv)
  let ?t = "t\<lparr>t_client := (t_client t)\<lparr>mac_address := m, x_axis := ?f ! 7, y_axis := ?f ! 8\<rparr>, t_status := ?f ! 0, t_buff := ?f\<rparr>"
  let ?pc = "if ?f ! 0 = START_APP then Looking_up else if ?f ! 0 = CLOSE_APP then Closing else loop_pc ?t"
  have lost: "(0 :: byte) \<noteq> CONNECTION_LOST" by (simp add: status_defs)
  have "receive_section r t w = Some (?pc, ?t, w)" for w :: "'db world"
    using r b m lost by (simp add: receive_section_def wait check_and_store_def CRC_8_check_iff flag_defs loop_pc_def Let_def)
  moreover have "torn_turn eng start i r n s =
      db_update_iteration eng start FALSE ((client_array s)[i := c]) (s_quit s) (s_world s) \<bind>
        (\<lambda>(q, w). Some (put_thread i (?pc, ?t, w) (s\<lparr>s_quit := q\<rparr>)))"
    using assms(1-3) r b c lost
    by (simp add: torn_turn_def wait CRC_8_check_iff flag_defs Let_def case_prod_beta)
  ultimately show ?thesis using c
    by (intro exI [of _ off] exI [of _ st] exI [of _ c] exI [of _ ?pc] exI [of _ ?t]) simp
qed

section \<open>Backups before and after the address\<close>

lemma store_loop_fields:
  "store_loop buff n off st c = Some (st', c') \<Longrightarrow> blank c' = blank c \<and> (7 \<le> n \<longrightarrow> mac_address c' = mac_address c)"
proof (induction "8 - n" arbitrary: n off st c)
  case (Suc k)
  have "n < 8" using Suc.hyps(2) by simp
  with Suc.prems obtain r where r: "store_pass buff n (off, st, c) = Some r"
    "(\<lambda>(off, st, c). store_loop buff (n + 1) off st c) r = Some (st', c')"
    by (auto simp: store_loop_pass [of buff n] Option.bind_eq_Some_conv)
  obtain off1 st1 c1 where c1: "r = (off1, st1, c1)" by (cases r)
  have "k = 8 - (n + 1)" using Suc.hyps(2) by simp
  with Suc.hyps(1) r(2) c1 have "blank c' = blank c1 \<and> (7 \<le> n \<longrightarrow> mac_address c' = mac_address c1)" by fastforce
  with store_pass_fields(1,2) r(1) c1 show ?case by auto
next
  case 0
  then have "store_loop buff n off st c = Some (st, c)" by (simp add: store_loop.simps)
  with 0 show ?case by simp
qed

lemma client_array_nth: "i < length (s_threads s) \<Longrightarrow> client_array s ! i = t_client (snd (s_threads s ! i))"
  by (simp add: client_array_def nth_append case_prod_beta)

lemma client_array_put:
  "i < length (s_threads s) \<Longrightarrow> client_array (put_thread i (pc, t, w) s) = (client_array s)[i := t_client t]"
  by (simp add: client_array_def put_thread_def map_update list_update_append)

lemma iteration_reads:
  assumes "same_for_backup c d"
  shows "db_update_iteration eng start flag (cs[i := c]) q w = db_update_iteration eng start flag (cs[i := d]) q w"
proof (rule backup_reads_only_connected)
  have "list_all2 same_for_backup cs cs" by (simp add: list_all2_refl same_for_backup_def)
  with assms show "list_all2 same_for_backup (cs[i := c]) (cs[i := d])" by (simp add: list_all2_update_cong)
qed

lemma run_two: "run_schedule eng start [l, m] s = take_turn eng start l s \<bind> take_turn eng start m"
proof -
  have nil: "run_schedule eng start [] = Some" by (simp add: fun_eq_iff)
  have "run_schedule eng start [m] = take_turn eng start m"
    by (rule ext) (simp add: nil del: take_turn.simps run_schedule.simps(1))
  then show ?thesis by (simp del: take_turn.simps)
qed

lemma torn_early:
  fixes s :: "'db system"
  assumes "s_threads s ! i = (Receiving, t)" and "i < length (s_threads s)" and "n < 2"
    and "thread_inv tbl t (s_world s)" and "stores r (t_buff t) (t_status t)"
  shows "torn_turn eng start i r n s = run_schedule eng start [Backup, Receive i r] s"
proof -
  have n: "n \<le> 8" using assms(3) by simp
  from torn_parts [OF assms(1,2) n assms(4,5)] obtain off st c pc' t' where
    c: "store_upto n (arrived r (t_buff t)) (t_status t) (t_client t) = Some (off, st, c)"
    "\<forall>w :: 'db world. receive_section r t w = Some (pc', t', w)"
    "torn_turn eng start i r n s =
      db_update_iteration eng start FALSE ((client_array s)[i := c]) (s_quit s) (s_world s) \<bind>
        (\<lambda>(q, w). Some (put_thread i (pc', t', w) (s\<lparr>s_quit := q\<rparr>)))" by blast
  have "length (arrived r (t_buff t)) = 10" "length (mac_address (t_client t)) = MAC_ADDRESS_SIZE"
    using assms(4) by (simp_all add: thread_inv_def size_defs client_inv_def client_ok_def)
  from store_cut [OF this, of 1 "t_status t"] c(1) assms(3) have "mac_address c = mac_address (t_client t)"
    by (cases n) (auto simp: less_2_cases_iff)
  with blank_fields(1,2) [OF store_upto_blank [OF c(1)]] have "same_for_backup c (t_client t)"
    by (simp add: same_for_backup_def)
  moreover have "(client_array s)[i := t_client t] = client_array s"
    using list_update_id [of "client_array s" i] client_array_nth [OF assms(2)] assms(1) by simp
  ultimately have "db_update_iteration eng start FALSE ((client_array s)[i := c]) (s_quit s) (s_world s) =
      db_update_iteration eng start FALSE (client_array s) (s_quit s) (s_world s)" using iteration_reads by metis
  note same = c(3) [unfolded this]
  show ?thesis
  proof (cases "db_update_iteration eng start FALSE (client_array s) (s_quit s) (s_world s)")
    case None
    with same show ?thesis unfolding run_two by simp
  next
    case (Some qw)
    with same c(2) assms(1,2) show ?thesis unfolding run_two by (cases qw) (simp add: put_thread_def)
  qed
qed

lemma torn_late:
  fixes s :: "'db system"
  assumes "s_threads s ! i = (Receiving, t)" and "i < length (s_threads s)" and "7 \<le> n" and "n \<le> 8"
    and "thread_inv tbl t (s_world s)" and "stores r (t_buff t) (t_status t)"
  shows "torn_turn eng start i r n s = run_schedule eng start [Receive i r, Backup] s"
proof -
  from torn_parts [OF assms(1,2,4,5,6)] obtain off st c pc' t' where
    c: "store_loop (arrived r (t_buff t)) n off st c = Some (t_status t', t_client t')"
    "\<forall>w :: 'db world. receive_section r t w = Some (pc', t', w)"
    "torn_turn eng start i r n s =
      db_update_iteration eng start FALSE ((client_array s)[i := c]) (s_quit s) (s_world s) \<bind>
        (\<lambda>(q, w). Some (put_thread i (pc', t', w) (s\<lparr>s_quit := q\<rparr>)))" by blast
  from store_loop_fields [OF c(1)] assms(3) have "same_for_backup c (t_client t')"
    using blank_fields(1,2) [of "t_client t'" c] by (simp add: same_for_backup_def)
  note reads = iteration_reads [OF this]
  have "run_schedule eng start [Receive i r, Backup] s = take_turn eng start Backup (put_thread i (pc', t', s_world s) s)"
    unfolding run_two using c(2) assms(1,2) by simp
  also have "\<dots> = torn_turn eng start i r n s"
  proof -
    let ?s = "put_thread i (pc', t', s_world s) s" and ?it = "\<lambda>cs. db_update_iteration eng start FALSE cs (s_quit s) (s_world s)"
    have e: "?it (client_array ?s) = ?it ((client_array s)[i := c])" by (simp only: client_array_put [OF assms(2)] reads)
    have p: "s_quit ?s = s_quit s" "s_world ?s = s_world s"
      "\<And>q w. ?s\<lparr>s_quit := q, s_world := w\<rparr> = put_thread i (pc', t', w) (s\<lparr>s_quit := q\<rparr>)" by (simp_all add: put_thread_def)
    show ?thesis unfolding c(3) take_turn.simps p e ..
  qed
  finally show ?thesis ..
qed

end
