(* ===== verification/Server_Torn.thy ===== *)
theory Server_Torn
  imports Server_Passes Server_Loopholes
begin

text \<open>
  The car park with backups in the middle of a stored frame: such a backup is one before the
  frame, or one after it, or one that leaves out the vehicle, and touches no other vehicle.
\<close>

section \<open>The specification\<close>

text \<open>The clock is read for the vehicle that is left out, too.\<close>

definition skip_backup :: "(nat \<Rightarrow> int) \<Rightarrow> int \<Rightarrow> nat \<Rightarrow> car_park \<Rightarrow> car_park" where
  "skip_backup clk start i k =
     (if 5 dvd park_now clk k - start
      then let k1 = save_bays clk (take i (k_bays k)) (tick k) in
        save_bays clk (drop (Suc i) (k_bays k)) (if y_on (k_bays k ! i) then tick k1 else k1)
      else tick k)"

fun park_step :: "(string \<times> rat) list \<Rightarrow> (nat \<Rightarrow> int) \<Rightarrow> int \<Rightarrow> step \<Rightarrow> car_park \<Rightarrow> car_park" where
  "park_step ps clk start (Whole l) k = park_turn ps clk start l k"
| "park_step ps clk start (Torn i r n) k =
     (let b = k_bays k ! i in
      if i < length (k_bays k) \<and> y_pc b = Receiving \<and> n \<le> 8 \<and> stores r (y_frame b) (y_status b)
      then if n < 2 then park_run ps clk start [Backup, Receive i r] k
        else if 7 \<le> n then park_run ps clk start [Receive i r, Backup] k
        else park_turn ps clk start (Receive i r) (skip_backup clk start i k)
      else k)"

definition park_steps :: "(string \<times> rat) list \<Rightarrow> (nat \<Rightarrow> int) \<Rightarrow> int \<Rightarrow> step list \<Rightarrow> car_park \<Rightarrow> car_park" where
  "park_steps ps clk start ls k = fold (park_step ps clk start) ls k"

section \<open>The names of the rows\<close>

text \<open>No row and no bay is named by an address that has been cut.\<close>

definition uncut :: "string \<Rightarrow> bool" where
  "uncut m \<longleftrightarrow> m = [] \<or> last m \<noteq> CHR '':''"

definition named :: "car_park \<Rightarrow> bool" where
  "named k \<longleftrightarrow> (\<forall>r\<in>set (k_rows k). uncut (p_mac r)) \<and> (\<forall>b\<in>set (k_bays k). uncut (y_mac b))"

lemma fmt_x_nonempty [simp]: "fmt_x n \<noteq> []"
  by (simp add: fmt_x_def show_base_nonempty)

lemma uncut_mac_text: "uncut (mac_text bs)"
proof (induction bs rule: mac_text.induct)
  case (2 b)
  have "last (fmt_x (unat b)) \<in> digit_chars" using set_fmt_x last_in_set fmt_x_nonempty by blast
  then show ?case using colon_notin_digits by (auto simp: uncut_def)
next
  case (3 b c cs)
  have "mac_text (c # cs) \<noteq> []" by (cases cs) simp_all
  with 3 show ?case by (simp add: uncut_def)
qed (simp add: uncut_def)

lemma set_time_names: "map p_mac (set_time n m rows) = map p_mac rows"
  by (simp add: set_time_def)

lemma rows_uncut: "(\<forall>r\<in>set rows. uncut (p_mac r)) \<longleftrightarrow> list_all uncut (map p_mac rows)"
  by (simp add: list_all_iff)

lemma set_time_uncut: "r \<in> set (set_time n m rows) \<Longrightarrow> \<forall>r\<in>set rows. uncut (p_mac r) \<Longrightarrow> uncut (p_mac r)"
  by (auto simp: set_time_def)

lemma judge_uncut: "uncut (y_mac b) \<Longrightarrow> uncut (y_mac (judge b))"
  using uncut_mac_text by (simp add: judge_def Let_def frame_mac_def)

lemma arrive_uncut: "uncut (y_mac b) \<Longrightarrow> uncut (y_mac (arrive r b))"
  by (cases "(r, b)" rule: arrive.cases) (auto intro: judge_uncut)

lemma bay_act_uncut:
  assumes "\<forall>r\<in>set (k_rows k). uncut (p_mac r)" and "uncut (y_mac b)" and "bay_act ps clk pc b k = (b', k')"
  shows "uncut (y_mac b') \<and> (\<forall>r\<in>set (k_rows k'). uncut (p_mac r)) \<and> k_bays k' = k_bays k"
  using assms
  by (cases pc) (auto simp: resume_bay_def enter_bay_def insert_bay_def announce_bay_def save_bay_def bay_done_def Let_def
      split: if_splits dest: set_time_uncut)

lemma save_bays_names: "map p_mac (k_rows (save_bays clk bs k)) = map p_mac (k_rows k) \<and> k_bays (save_bays clk bs k) = k_bays k"
  by (induction bs arbitrary: k) (simp_all add: save_bay_def set_time_names)

lemma named_put: "named k \<Longrightarrow> uncut (y_mac b) \<Longrightarrow> named (put_bay i (b, k))"
  using set_update_subset_insert [of "k_bays k" i b] by (auto simp: named_def)

lemma named_saved:
  "named k \<Longrightarrow> map p_mac (k_rows k') = map p_mac (k_rows k) \<Longrightarrow> k_bays k' = k_bays k \<Longrightarrow> named k'"
  by (simp add: named_def rows_uncut)

lemma named_turn:
  assumes "named k"
  shows "named (park_turn ps clk st l k)"
proof -
  have bay: "uncut (y_mac (k_bays k ! i))" if "i < length (k_bays k)" for i using that assms by (simp add: named_def)
  show ?thesis
  proof (cases l)
    case (Accept fd)
    with assms show ?thesis by (simp add: named_def fresh_bay_def uncut_def)
  next
    case (Receive i r)
    then show ?thesis using named_put [OF assms] arrive_uncut [OF bay] assms by simp
  next
    case (Act i)
    show ?thesis
    proof (cases "i < length (k_bays k) \<and> y_pc (k_bays k ! i) \<notin> {Receiving, Done}")
      case True
      obtain b' k' where a: "bay_act ps clk (y_pc (k_bays k ! i)) (k_bays k ! i) k = (b', k')" by fastforce
      have "\<forall>r\<in>set (k_rows k). uncut (p_mac r)" using assms by (simp add: named_def)
      from bay_act_uncut [OF this bay a] True have "uncut (y_mac b')" "named k'" using assms by (auto simp: named_def)
      with True Act a named_put show ?thesis by simp
    qed (use Act assms in auto)
  next
    case Backup
    then show ?thesis using named_saved [OF assms] save_bays_names by (simp add: backup_turn_def)
  qed
qed

section \<open>The record with a cut address\<close>

lemma save_all_records:
  "save_all clk k (cs @ ds) rows = (case save_all clk k cs rows of (rows', k') \<Rightarrow> save_all clk k' ds rows')"
  by (induction clk k cs rows rule: save_all.induct) auto

text \<open>What the backup saves when one of the records has a name that no row has.\<close>

lemma save_skips:
  assumes "i < length (s_threads s)" and "s_threads s ! i = (pc, t)"
    and "connected c = connected (t_client t)" and "\<forall>r\<in>set (k_rows k). p_mac r \<noteq> cstr (mac_address c)"
    and "save_all clk (k_tick k) ((client_array s)[i := c]) (k_rows k) = (rows, tick')"
    and "k_bays k = map bay_of (s_threads s)"
  shows "(let k1 = save_bays clk (take i (k_bays k)) k in
      save_bays clk (drop (Suc i) (k_bays k)) (if y_on (k_bays k ! i) then tick k1 else k1)) = k\<lparr>k_rows := rows, k_tick := tick'\<rparr>"
proof -
  let ?cl = "\<lambda>(pc, t). t_client t" and ?z = "replicate (SERVER_MAX_NUM_CLIENTS - length (s_threads s)) zeroed_client"
  have array: "(client_array s)[i := c] = map ?cl (take i (s_threads s)) @ c # map ?cl (drop (Suc i) (s_threads s)) @ ?z"
    using assms(1) by (simp add: client_array_def list_update_append upd_conv_take_nth_drop take_map drop_map)
  obtain rows1 tick1 where 1: "save_all clk (k_tick k) (map ?cl (take i (s_threads s))) (k_rows k) = (rows1, tick1)"
    by fastforce
  have k1: "save_bays clk (map bay_of (take i (s_threads s))) k = k\<lparr>k_rows := rows1, k_tick := tick1\<rparr>"
    using save_bays_all [of clk k "take i (s_threads s)" 0] 1 by simp
  have "map p_mac rows1 = map p_mac (k_rows k)" using 1 by (metis save_all_macs fst_conv)
  then have "set (map p_mac rows1) = set (map p_mac (k_rows k))" by (rule arg_cong)
  with assms(4) have "\<forall>r\<in>set rows1. p_mac r \<noteq> cstr (mac_address c)" by force
  then have absent: "set_time n (cstr (mac_address c)) rows1 = rows1" for n by (rule set_time_absent)
  let ?tick2 = "if connected c = TRUE then tick1 + 1 else tick1"
  have rest: "save_all clk ?tick2 (map ?cl (drop (Suc i) (s_threads s)) @ ?z) rows1 = (rows, tick')"
    using assms(5) unfolding array by (simp add: save_all_records 1 absent split: if_splits)
  have on: "y_on (k_bays k ! i) = (connected c = TRUE)" using assms(1-3,6) by simp
  have "save_bays clk (map bay_of (drop (Suc i) (s_threads s))) (k\<lparr>k_rows := rows1, k_tick := ?tick2\<rparr>) = k\<lparr>k_rows := rows, k_tick := tick'\<rparr>"
    using save_bays_all [of clk "k\<lparr>k_rows := rows1, k_tick := ?tick2\<rparr>"] rest by simp
  then show ?thesis unfolding Let_def on unfolding assms(6) take_map drop_map k1 by (simp add: tick_def split: if_splits)
qed

lemma cut_record:
  assumes "thread_inv tbl t w" and "2 \<le> n" and "n \<le> 6" and "length f = 10"
    and "store_upto n f st (t_client t) = Some (off, st', c)"
  shows "client_inv w c" and "\<not> uncut (cstr (mac_address c))" and "connected c = connected (t_client t)"
proof -
  note same = blank_fields [OF store_upto_blank [OF assms(5)]]
  let ?p = "cut_text (take (n - 1) (drop 1 f))"
  have inv: "client_inv w (t_client t)" "length (mac_address (t_client t)) = MAC_ADDRESS_SIZE"
    using assms(1) by (simp_all add: thread_inv_def client_inv_def client_ok_def)
  from store_cut [OF assms(4) inv(2), of n st] assms(2,3,5) have h: "holds_text off ?p (mac_address c)" by auto
  have p: "?p \<noteq> []" "last ?p = CHR '':''" using cut_text_last [of "take (n - 1) (drop 1 f)"] assms(2,4) by auto
  have len: "length ?p \<le> 15" using length_cut_text [of "take (n - 1) (drop 1 f)"] assms(3) by simp
  have chars: "nul \<notin> set ?p" "CHR 0x27 \<notin> set ?p"
    using set_cut_text [of "take (n - 1) (drop 1 f)"] nul_notin_digits quote_notin_digits by auto
  have "off < MAC_ADDRESS_SIZE" using h len by (simp add: holds_text_def size_defs)
  note m = holds_text_cstr [OF h p(1) chars(1) this]
  show "\<not> uncut (cstr (mac_address c))" using m(1) p by (simp add: uncut_def)
  show "connected c = connected (t_client t)" by (rule same(1))
  have "length (mac_address c) = MAC_ADDRESS_SIZE" using h by (simp add: holds_text_def)
  with inv(1) m chars len same(2,3) show "client_inv w c"
    by (simp add: client_inv_def client_ok_def plain_def size_defs)
qed

lemma torn_middle:
  assumes "sqlite_contract eng tbl prices healthy" and "in_step tbl healthy prices ps s" and "0 \<le> sint start"
    and "s_threads s ! i = (Receiving, t)" and "i < length (s_threads s)" and "2 \<le> n" and "n \<le> 6"
    and "stores r (t_buff t) (t_status t)" and "named (park_of tbl s)"
  shows "\<exists>s'. torn_turn eng start i r n s = Some s' \<and> in_step tbl healthy prices ps s' \<and>
    evolves tbl (s_world s) (s_world s') \<and> length (s_threads s') = length (s_threads s) \<and>
    park_of tbl s' = park_turn ps (clock (s_world s)) (sint start) (Receive i r)
      (skip_backup (clock (s_world s)) (sint start) i (park_of tbl s))"
proof -
  let ?w = "s_world s" and ?k = "park_of tbl s"
  have ok: "system_ok tbl s" and fair: "fair_world healthy prices ps ?w" and st: "\<forall>slot\<in>set (s_threads s). steady slot"
    using assms(2) by (simp_all add: in_step_def)
  have w: "world_ok tbl ?w" "\<not> locked ?w" using ok by (simp_all add: system_ok_def)
  have slot: "(Receiving, t) \<in> set (s_threads s)" using nth_mem [OF assms(5)] assms(4) by simp
  then have inv: "thread_inv tbl t ?w" "t_return_value t = STAY" using ok st by (auto simp: system_ok_def slot_inv_def steady_def)
  have len: "length (arrived r (t_buff t)) = 10" using inv(1) by (simp add: thread_inv_def size_defs)
  have n: "n \<le> 8" using assms(7) by simp
  from torn_parts [OF assms(4,5) n inv(1) assms(8)] obtain off st' c pc' t' where
    c: "store_upto n (arrived r (t_buff t)) (t_status t) (t_client t) = Some (off, st', c)"
    "receive_section r t ?w = Some (pc', t', ?w)"
    "torn_turn eng start i r n s =
      db_update_iteration eng start FALSE ((client_array s)[i := c]) (s_quit s) ?w \<bind>
        (\<lambda>(q, w). Some (put_thread i (pc', t', w) (s\<lparr>s_quit := q\<rparr>)))" by blast
  from receive_park [OF inv, of r] c(2) have bay: "steady (pc', t')" "bay_of (pc', t') = arrive r (bay_of (Receiving, t))" by auto
  from receive_section_ok [OF inv(1), of r] c(2) have t': "thread_inv tbl t' ?w" by auto
  note cut = cut_record [OF inv(1) assms(6,7) len c(1)]
  let ?cs = "(client_array s)[i := c]"
  have cs: "length ?cs = 10" "\<forall>c\<in>set ?cs. client_inv ?w c"
    using client_array_inv [OF ok] cut(1) set_update_subset_insert [of "client_array s" i c] by auto
  obtain m db where it: "db_update_iteration eng start FALSE ?cs (s_quit s) ?w = Some (s_quit s, ?w\<lparr>ticks := m, db_client := db\<rparr>)" "healthy db" and
    rows: "if 5 dvd clock ?w (ticks ?w) - sint start
      then save_all (clock ?w) (ticks ?w + 1) ?cs (tbl (db_client ?w)) = (tbl db, m)
      else m = ticks ?w + 1 \<and> db = db_client ?w"
    using backup_effect [OF assms(1) w cs assms(3) fair] by blast
  let ?w' = "?w\<lparr>ticks := m, db_client := db\<rparr>" and ?s' = "put_thread i (pc', t', ?w\<lparr>ticks := m, db_client := db\<rparr>) s"
  have "keeps tbl ?w ?w'" using iteration_keeps [OF assms(1) w cs assms(3), of FALSE "s_quit s"] it(1) by auto
  note e = keeps_evolves [OF this w(2)]
  have run: "torn_turn eng start i r n s = Some ?s'" using c(3) it(1) by (simp add: put_thread_def)
  have ok': "system_ok tbl ?s'" using put_thread_ok [OF ok e] slot_inv_later [OF e w(1) slot_inv_thread [OF t']] by blast
  have "\<forall>r\<in>set (k_rows (tick ?k)). p_mac r \<noteq> cstr (mac_address c)"
    using cut(2) assms(9) by (auto simp: named_def tick_def)
  note skip = save_skips [OF assms(5,4) cut(3) this]
  have "skip_backup (clock ?w) (sint start) i ?k = ?k\<lparr>k_rows := tbl db, k_tick := m\<rparr>"
  proof (cases "5 dvd clock ?w (ticks ?w) - sint start")
    case True
    with rows skip [of "clock ?w" "tbl db" m] show ?thesis
      by (simp add: skip_backup_def park_now_def)
  next
    case False
    with rows show ?thesis by (simp add: skip_backup_def park_now_def tick_def park_of_def)
  qed
  then have "park_of tbl ?s' = park_turn ps (clock ?w) (sint start) (Receive i r) (skip_backup (clock ?w) (sint start) i ?k)"
    using assms(4,5) bay(2) by (simp add: park_put put_bay_def)
  moreover have "fair_world healthy prices ps (s_world ?s')" using fair it(2) by (simp add: fair_world_def put_thread_def)
  ultimately show ?thesis using run ok' e steady_put [OF st bay(1)] by (auto simp: in_step_def put_thread_def)
qed

section \<open>Safety of every schedule with torn backups\<close>

lemma torn_ok:
  assumes "sqlite_contract eng tbl prices healthy" and "system_ok tbl s" and "0 \<le> sint start"
  shows "\<exists>s'. torn_turn eng start i r n s = Some s' \<and> system_ok tbl s' \<and> evolves tbl (s_world s) (s_world s') \<and>
    length (s_threads s') = length (s_threads s)"
proof -
  let ?w = "s_world s"
  have w: "world_ok tbl ?w" "\<not> locked ?w" and len: "length (s_threads s) \<le> SERVER_MAX_NUM_CLIENTS"
    using assms(2) by (simp_all add: system_ok_def)
  have two: "\<exists>s'. run_schedule eng start ls s = Some s' \<and> system_ok tbl s' \<and> evolves tbl ?w (s_world s') \<and>
      length (s_threads s') = length (s_threads s)" if "accepts ls = 0" for ls
    using schedule_ok [OF assms(1-3), of ls] len that by simp
  show ?thesis
  proof (cases "i < length (s_threads s) \<and> fst (s_threads s ! i) = Receiving \<and> n \<le> 8 \<and>
      stores r (t_buff (snd (s_threads s ! i))) (t_status (snd (s_threads s ! i)))")
    case False
    have "i < length (s_threads s) \<and> fst (s_threads s ! i) = Receiving \<longrightarrow> length (t_buff (snd (s_threads s ! i))) = 10"
      using assms(2) nth_mem [of i "s_threads s"] by (auto simp: system_ok_def slot_inv_def thread_inv_def size_defs)
    from torn_passes [OF this False w(2)] assms(2) evolves_refl [OF w] show ?thesis by auto
  next
    case True
    then obtain t where t: "i < length (s_threads s)" "s_threads s ! i = (Receiving, t)" "n \<le> 8" "stores r (t_buff t) (t_status t)"
      by (cases "s_threads s ! i") auto
    have inv: "thread_inv tbl t ?w" using assms(2) nth_mem [OF t(1)] t(2) by (auto simp: system_ok_def slot_inv_def)
    consider (early) "n < 2" | (middle) "2 \<le> n" "n \<le> 6" | (late) "7 \<le> n" by linarith
    then show ?thesis
    proof cases
      case early
      show ?thesis unfolding torn_early [OF t(2,1) early inv t(4)] by (rule two) simp
    next
      case late
      show ?thesis unfolding torn_late [OF t(2,1) late t(3) inv t(4)] by (rule two) simp
    next
      case middle
      from torn_parts [OF t(2,1,3) inv t(4)] obtain off st c pc' t' where
        c: "store_upto n (arrived r (t_buff t)) (t_status t) (t_client t) = Some (off, st, c)"
        "receive_section r t ?w = Some (pc', t', ?w)"
        "torn_turn eng start i r n s =
          db_update_iteration eng start FALSE ((client_array s)[i := c]) (s_quit s) ?w \<bind>
            (\<lambda>(q, w). Some (put_thread i (pc', t', w) (s\<lparr>s_quit := q\<rparr>)))" by blast
      have "length (arrived r (t_buff t)) = 10" using inv by (simp add: thread_inv_def size_defs)
      note cut = cut_record(1) [OF inv middle this c(1)]
      have cs: "length ((client_array s)[i := c]) = 10" "\<forall>c\<in>set ((client_array s)[i := c]). client_inv ?w c"
        using client_array_inv [OF assms(2)] cut set_update_subset_insert [of "client_array s" i c] by auto
      obtain w' where b: "db_update_iteration eng start FALSE ((client_array s)[i := c]) (s_quit s) ?w = Some (s_quit s, w')"
        "keeps tbl ?w w'" using iteration_keeps [OF assms(1) w cs assms(3), of FALSE "s_quit s"] by (auto simp: flag_defs)
      note e = keeps_evolves [OF b(2) w(2)]
      have "thread_inv tbl t' ?w" using receive_section_ok [OF inv, of r] c(2) by auto
      from put_thread_ok [OF assms(2) e slot_inv_later [OF e w(1) slot_inv_thread [OF this]]] c(3) b(1) e
      show ?thesis by (simp add: put_thread_def)
    qed
  qed
qed

lemma steps_ok:
  assumes "sqlite_contract eng tbl prices healthy" and "system_ok tbl s" and "0 \<le> sint start"
    and "length (s_threads s) + step_accepts ls \<le> SERVER_MAX_NUM_CLIENTS"
  shows "\<exists>s'. run_steps eng start ls s = Some s' \<and> system_ok tbl s' \<and> evolves tbl (s_world s) (s_world s')"
  using assms(2,4)
proof (induction ls arbitrary: s)
  case Nil
  then show ?case using evolves_refl by (auto simp: system_ok_def)
next
  case (Cons l ls)
  have acc: "step_accepts (l # ls) = step_accepts [l] + step_accepts ls" by (cases l) auto
  have "\<exists>s1. take_step eng start l s = Some s1 \<and> system_ok tbl s1 \<and> evolves tbl (s_world s) (s_world s1) \<and>
      length (s_threads s1) = length (s_threads s) + step_accepts [l]"
  proof (cases l)
    case (Whole m)
    with turn_ok [OF assms(1) Cons.prems(1) assms(3), of m] Cons.prems(2) acc show ?thesis by simp
  qed (use torn_ok [OF assms(1) Cons.prems(1) assms(3)] in simp)
  then obtain s1 where 1: "take_step eng start l s = Some s1" "system_ok tbl s1" "evolves tbl (s_world s) (s_world s1)"
    "length (s_threads s1) = length (s_threads s) + step_accepts [l]" by blast
  from Cons.IH [OF 1(2)] Cons.prems(2) acc 1(4) obtain s' where
    2: "run_steps eng start ls s1 = Some s'" "system_ok tbl s'" "evolves tbl (s_world s1) (s_world s')" by auto
  with 1(1) evolves_trans [OF 1(3) 2(3)] show ?case by (simp del: take_step.simps)
qed

text \<open>
  C6: in every schedule of up to ten client threads and the backup thread, which may also read a
  record while its address is being printed, whatever arrives and however the databases answer,
  no step has undefined behaviour or waits for a mutex that is never freed; between any two
  steps the mutex is free, no statement stays open, the table stays well formed and every message
  is a location, a bill or the error text.
\<close>

theorem every_interleaving_is_safe:
  assumes "sqlite_contract eng tbl prices healthy" and "world_ok tbl w" and "\<not> locked w" and "0 \<le> sint start"
    and "step_accepts ls \<le> SERVER_MAX_NUM_CLIENTS"
  shows "\<exists>s. run_steps eng start ls (server_system w) = Some s \<and> \<not> locked (s_world s) \<and>
    open_stmts (s_world s) = open_stmts w \<and> world_ok tbl (s_world s) \<and> sent_more (outbox w) (outbox (s_world s))"
proof -
  have "system_ok tbl (server_system w)" "step_accepts ls + length (s_threads (server_system w)) \<le> SERVER_MAX_NUM_CLIENTS"
    using assms by (simp_all add: system_ok_def server_system_def)
  with steps_ok [OF assms(1) _ assms(4), of "server_system w" ls] show ?thesis
    by (auto simp: evolves_def server_system_def)
qed

theorem every_interleaving_is_safe_witness:
  "\<exists>s. run_steps ref_engine 900
      [Whole (Accept 4), Whole (Receive 0 (Received demo_start)), Whole (Accept 5), Whole (Act 0), Torn 1 (Received demo_start) 4,
       Whole Backup, Whole (Act 0), Whole (Act 1)] (server_system (demo_world demo_rows)) = Some s \<and> \<not> locked (s_world s) \<and>
    open_stmts (s_world s) = open_stmts (demo_world demo_rows) \<and> world_ok rd_rows (s_world s) \<and>
    sent_more (outbox (demo_world demo_rows)) (outbox (s_world s))"
  by (rule every_interleaving_is_safe [OF ref.sqlite_contract_axioms])
     (simp_all add: demo_world_ok [OF demo_rows_ok] size_defs)

section \<open>Every schedule with torn backups\<close>

lemma step_park:
  assumes "sqlite_contract eng tbl prices healthy" and "in_step tbl healthy prices ps s" and "0 \<le> sint start"
    and "length (s_threads s) + step_accepts [l] \<le> SERVER_MAX_NUM_CLIENTS" and "named (park_of tbl s)"
  shows "\<exists>s'. take_step eng start l s = Some s' \<and> in_step tbl healthy prices ps s' \<and>
    evolves tbl (s_world s) (s_world s') \<and> length (s_threads s') = length (s_threads s) + step_accepts [l] \<and>
    park_of tbl s' = park_step ps (clock (s_world s)) (sint start) l (park_of tbl s)"
proof -
  have ok: "system_ok tbl s" using assms(2) by (simp add: in_step_def)
  have plain: "\<exists>s'. run_schedule eng start ls s = Some s' \<and> in_step tbl healthy prices ps s' \<and>
      evolves tbl (s_world s) (s_world s') \<and> length (s_threads s') = length (s_threads s) + accepts ls \<and>
      park_of tbl s' = park_run ps (clock (s_world s)) (sint start) ls (park_of tbl s)"
    if "length (s_threads s) + accepts ls \<le> SERVER_MAX_NUM_CLIENTS" for ls
    using schedule_park [OF assms(1-3) that] schedule_ok [OF assms(1) ok assms(3) that] by auto
  show ?thesis
  proof (cases l)
    case (Whole m)
    have "run_schedule eng start [m] s = take_turn eng start m s" by (cases "take_turn eng start m s") simp_all
    with plain [of "[m]"] assms(4) Whole show ?thesis by (simp add: park_run_def del: take_turn.simps)
  next
    case (Torn i r n)
    let ?stored = "i < length (s_threads s) \<and> fst (s_threads s ! i) = Receiving \<and> n \<le> 8 \<and>
      stores r (t_buff (snd (s_threads s ! i))) (t_status (snd (s_threads s ! i)))"
    show ?thesis
    proof (cases ?stored)
      case False
      have "i < length (s_threads s) \<and> fst (s_threads s ! i) = Receiving \<longrightarrow> length (t_buff (snd (s_threads s ! i))) = 10"
        using ok nth_mem [of i "s_threads s"] by (auto simp: system_ok_def slot_inv_def thread_inv_def size_defs)
      from torn_passes [OF this False] ok have "torn_turn eng start i r n s = Some s" by (simp add: system_ok_def)
      moreover have "park_step ps (clock (s_world s)) (sint start) l (park_of tbl s) = park_of tbl s"
        using False Torn by (cases "s_threads s ! i") (auto simp: Let_def)
      moreover have "evolves tbl (s_world s) (s_world s)" using ok by (auto simp: system_ok_def intro: evolves_refl)
      ultimately show ?thesis using Torn assms(2) by simp
    next
      case True
      then obtain t where t: "i < length (s_threads s)" "s_threads s ! i = (Receiving, t)" "n \<le> 8" "stores r (t_buff t) (t_status t)"
        by (cases "s_threads s ! i") auto
      have inv: "thread_inv tbl t (s_world s)" using ok nth_mem [OF t(1)] t(2) by (auto simp: system_ok_def slot_inv_def)
      have acc: "accepts [Backup, Receive i r] = 0" "accepts [Receive i r, Backup] = 0" by simp_all
      have two: "length (s_threads s) \<le> SERVER_MAX_NUM_CLIENTS" using assms(4) Torn by simp
      consider (early) "n < 2" | (middle) "2 \<le> n" "n \<le> 6" | (late) "7 \<le> n" by linarith
      then show ?thesis
      proof cases
        case early
        from torn_early [OF t(2,1) early inv t(4), of eng start] plain [of "[Backup, Receive i r]"] two t Torn early
        show ?thesis by (simp add: acc del: run_schedule.simps accepts.simps)
      next
        case middle
        from torn_middle [OF assms(1-3) t(2,1) middle t(4) assms(5)] t Torn middle show ?thesis
          by (simp del: park_turn.simps)
      next
        case late
        from torn_late [OF t(2,1) late t(3) inv t(4), of eng start] plain [of "[Receive i r, Backup]"] two t Torn late
        show ?thesis by (simp add: acc del: run_schedule.simps accepts.simps)
      qed
    qed
  qed
qed

lemma named_step:
  assumes "named k"
  shows "named (park_step ps clk st l k)"
proof (cases l)
  case (Torn i r n)
  have skip: "named (skip_backup clk st i k)"
    using named_saved [OF assms] save_bays_names by (simp add: skip_backup_def Let_def)
  show ?thesis using Torn assms named_turn named_turn [OF skip] by (simp add: park_run_def Let_def del: park_turn.simps)
qed (use assms named_turn in simp)

lemma steps_park:
  assumes "sqlite_contract eng tbl prices healthy" and "in_step tbl healthy prices ps s" and "0 \<le> sint start"
    and "length (s_threads s) + step_accepts ls \<le> SERVER_MAX_NUM_CLIENTS" and "named (park_of tbl s)"
  shows "\<exists>s'. run_steps eng start ls s = Some s' \<and> in_step tbl healthy prices ps s' \<and>
    park_of tbl s' = park_steps ps (clock (s_world s)) (sint start) ls (park_of tbl s)"
  using assms(2,4,5)
proof (induction ls arbitrary: s)
  case (Cons l ls)
  have acc: "step_accepts (l # ls) = step_accepts [l] + step_accepts ls" by (cases l) auto
  obtain s1 where 1: "take_step eng start l s = Some s1" "in_step tbl healthy prices ps s1"
    "evolves tbl (s_world s) (s_world s1)" "length (s_threads s1) = length (s_threads s) + step_accepts [l]"
    "park_of tbl s1 = park_step ps (clock (s_world s)) (sint start) l (park_of tbl s)"
    using step_park [OF assms(1) Cons.prems(1) assms(3) _ Cons.prems(3), of l] Cons.prems(2)
    unfolding acc by auto
  have "named (park_of tbl s1)" unfolding 1(5) by (rule named_step [OF Cons.prems(3)])
  moreover have "clock (s_world s1) = clock (s_world s)" using 1(3) by (simp add: evolves_def)
  ultimately show ?case using Cons.IH [OF 1(2)] Cons.prems(2) acc 1(1,4,5)
    by (auto simp: park_steps_def simp del: take_step.simps park_step.simps)
qed (simp add: park_steps_def)

text \<open>
  C2: with healthy databases and delivered messages, every schedule of the server is a run of the
  car park: for any connections (also several of one vehicle), any bytes and errors of \<open>recv\<close>, and
  any interleaving with the backups, also with a backup that reads a record while its address
  is being printed into it, the rows, the bills and locations sent on each socket, the closed
  sockets and the number of clock readings are those of the specification. In particular a backup
  that sees a cut address leaves out that vehicle and writes to the row of no other.
\<close>

theorem torn_schedules_refine_the_car_park:
  assumes "sqlite_contract eng tbl prices healthy" and "session_world tbl healthy prices ps w" and "0 \<le> sint start"
    and "step_accepts ls \<le> SERVER_MAX_NUM_CLIENTS" and "\<forall>r\<in>set (tbl (db_client w)). uncut (p_mac r)"
  shows "map_option (park_of tbl) (run_steps eng start ls (server_system w)) =
    Some (park_steps ps (clock w) (sint start) ls (park_of tbl (server_system w)))"
proof -
  have "in_step tbl healthy prices ps (server_system w)" "named (park_of tbl (server_system w))"
    using assms(2,5) by (simp_all add: in_step_def server_system_def system_ok_def session_world_def named_def)
  from steps_park [OF assms(1) this(1) assms(3) _ this(2)] assms(4) show ?thesis by (auto simp: server_system_def)
qed

theorem torn_schedules_refine_the_car_park_witness:
  "map_option (park_of rd_rows) (run_steps ref_engine 900
      [Whole (Accept 4), Whole (Receive 0 (Received demo_start)), Whole (Act 0), Whole (Act 0), Whole (Act 0), Whole (Act 0),
       Torn 0 (Received demo_close) 3, Whole Backup, Whole (Act 0), Whole (Act 0), Whole (Act 0)] (server_system (demo_world demo_rows))) =
    Some (park_steps demo_prices (clock (demo_world demo_rows)) (sint (900 :: int32))
      [Whole (Accept 4), Whole (Receive 0 (Received demo_start)), Whole (Act 0), Whole (Act 0), Whole (Act 0), Whole (Act 0),
       Torn 0 (Received demo_close) 3, Whole Backup, Whole (Act 0), Whole (Act 0), Whole (Act 0)]
      (park_of rd_rows (server_system (demo_world demo_rows))))"
proof (rule torn_schedules_refine_the_car_park [OF ref.sqlite_contract_axioms demo_session_world [OF demo_rows_ok]])
  have "rd_rows (db_client (demo_world demo_rows)) = demo_rows" by (simp add: demo_world_def demo_db_def)
  then show "\<forall>r\<in>set (rd_rows (db_client (demo_world demo_rows))). uncut (p_mac r)" by (simp add: demo_rows_def uncut_def)
qed (simp_all add: size_defs)

end
