(* ===== verification/Server_Sockets.thy ===== *)
theory Server_Sockets
  imports Server_Threads
begin

text \<open>
  Who writes to which socket. A section of a client thread sends only on the descriptor of its
  own record, closes only that one, and never changes it; the backup thread does neither. So
  the records keep the descriptors of their connections in every schedule, and what a connection
  receives was sent by its own thread.
\<close>

section \<open>The sockets a step uses\<close>

text \<open>\<open>grows A xs ys\<close>: only elements of \<open>A\<close> have been appended.\<close>

definition grows :: "'a set \<Rightarrow> 'a list \<Rightarrow> 'a list \<Rightarrow> bool" where
  "grows A xs ys \<longleftrightarrow> (\<exists>zs. ys = xs @ zs \<and> set zs \<subseteq> A)"

lemma grows_refl [simp]: "grows A xs xs"
  by (simp add: grows_def)

lemma grows_append [simp]: "grows A xs (xs @ zs) \<longleftrightarrow> set zs \<subseteq> A"
  by (simp add: grows_def)

lemma grows_trans:
  assumes "grows A xs ys" and "grows A ys zs"
  shows "grows A xs zs"
proof -
  obtain us vs where "ys = xs @ us" "set us \<subseteq> A" "zs = ys @ vs" "set vs \<subseteq> A"
    using assms by (auto simp: grows_def)
  then show ?thesis by (simp add: grows_def)
qed

lemma grows_mono: "grows A xs ys \<Longrightarrow> A \<subseteq> B \<Longrightarrow> grows B xs ys"
  by (auto simp: grows_def)

text \<open>\<open>speaks F w w'\<close>: from \<open>w\<close> to \<open>w'\<close> messages went to, and sockets were closed of, \<open>F\<close> only.\<close>

definition speaks :: "byte set \<Rightarrow> 'db world \<Rightarrow> 'db world \<Rightarrow> bool" where
  "speaks F w w' \<longleftrightarrow> grows (F \<times> UNIV) (outbox w) (outbox w') \<and> grows F (closed_fds w) (closed_fds w')"

lemma speaks_refl [simp]: "speaks F w w"
  by (simp add: speaks_def)

lemma speaks_trans: "speaks F w w' \<Longrightarrow> speaks F w' w'' \<Longrightarrow> speaks F w w''"
  unfolding speaks_def by (blast intro: grows_trans)

lemma speaks_mono: "speaks F w w' \<Longrightarrow> F \<subseteq> G \<Longrightarrow> speaks G w w'"
  unfolding speaks_def by (blast intro: grows_mono)

lemma speaks_send: "send_msg fd m w = (rc, w') \<Longrightarrow> speaks {fd} w w'"
  by (auto simp: send_msg_def speaks_def Let_def split: if_splits)

lemma speaks_close: "speaks {fd} w (close_fd fd w)"
  by (simp add: speaks_def close_fd_def)

text \<open>A quiet step sends nothing and closes nothing.\<close>

definition quiet :: "'db world \<Rightarrow> 'db world \<Rightarrow> bool" where
  "quiet w w' \<longleftrightarrow> outbox w' = outbox w \<and> closed_fds w' = closed_fds w"

lemma quiet_refl [simp]: "quiet w w"
  by (simp add: quiet_def)

lemma quiet_trans: "quiet w w' \<Longrightarrow> quiet w' w'' \<Longrightarrow> quiet w w''"
  by (simp add: quiet_def)

lemma quiet_speaks: "quiet w w' \<Longrightarrow> speaks F w w'"
  by (simp add: quiet_def speaks_def)

lemma quiet_fields [simp]:
  "quiet w (w'\<lparr>locked := b\<rparr>) = quiet w w'" "quiet (w\<lparr>locked := b\<rparr>) w' = quiet w w'"
  "quiet w (finalize st w') = quiet w w'"
  by (simp_all add: quiet_def finalize_def)

lemma mutex_quiet: "mutex_lock w = Some w' \<Longrightarrow> quiet w w'" "mutex_unlock w = Some w' \<Longrightarrow> quiet w w'"
  by (auto simp: mutex_lock_def mutex_unlock_def quiet_def split: if_splits)

lemma engine_quiet:
  "gettimeofday w = (t, w') \<Longrightarrow> quiet w w'"
  "exec_client eng sql w = (rc, w') \<Longrightarrow> quiet w w'"
  "prepare_client eng sql w = (rc, st, w') \<Longrightarrow> quiet w w'"
  "prepare_prices eng sql w = (rc, st, w') \<Longrightarrow> quiet w w'"
  by (auto simp: gettimeofday_def exec_client_def prepare_client_def prepare_prices_def count_open_def quiet_def
      split: prod.splits)

lemmas quiet_dests = mutex_quiet engine_quiet

section \<open>The operations\<close>

lemma price_quiet:
  "retrieve_parking_price_per_city_from_database eng c w = Some (r, c', w') \<Longrightarrow> quiet w w' \<and> client_fd c' = client_fd c"
  by (auto simp: retrieve_parking_price_per_city_from_database_def dest: quiet_dests
      split: Option.bind_splits prod.splits if_splits)

lemma time_quiet:
  "retrieve_time_start_parking_value_from_database eng c w = Some (r, c', w') \<Longrightarrow> quiet w w' \<and> client_fd c' = client_fd c"
  by (auto simp: retrieve_time_start_parking_value_from_database_def dest: quiet_dests
      split: Option.bind_splits prod.splits if_splits)

lemma continue_quiet:
  "update_client_and_continue_time eng c w = Some (r, c', w') \<Longrightarrow> quiet w w' \<and> client_fd c' = client_fd c"
  by (auto simp: update_client_and_continue_time_def Let_def dest!: quiet_dests intro: quiet_trans
      split: Option.bind_splits prod.splits if_splits)

lemma lookup_quiet: "clinet_exist_in_database_check eng mac chk w = Some (r, w') \<Longrightarrow> quiet w w'"
  by (auto simp: clinet_exist_in_database_check_def clinet_exist_in_database_check_preparation_def dest: quiet_dests
      split: Option.bind_splits prod.splits if_splits)

lemma update_client_quiet: "update_client_data eng c w = Some (r, e, w') \<Longrightarrow> quiet w w'"
  by (auto simp: update_client_data_def Let_def dest!: quiet_dests intro: quiet_trans
      split: Option.bind_splits prod.splits if_splits)

lemma remove_client_quiet: "remove_client_data eng mac w = Some w' \<Longrightarrow> quiet w w'"
  by (auto simp: remove_client_data_def dest: quiet_dests split: Option.bind_splits prod.splits if_splits)

lemma insert_client_quiet: "insert_client_data_into_database eng c w = Some (r, w') \<Longrightarrow> quiet w w'"
  by (auto simp: insert_client_data_into_database_def dest: quiet_dests split: Option.bind_splits prod.splits if_splits)

lemma start_time_quiet: "initialize_and_get_start_time c w = Some (c', w') \<Longrightarrow> quiet w w' \<and> client_fd c' = client_fd c"
  by (auto simp: initialize_and_get_start_time_def dest: quiet_dests split: Option.bind_splits prod.splits)

lemma location_speaks: "send_client_location c w = (r, w') \<Longrightarrow> speaks {client_fd c} w w'"
  by (auto simp: send_client_location_def dest: speaks_send split: prod.splits)

lemma payment_speaks: "calculate_and_send_payment_data a b p fd w = Some w' \<Longrightarrow> speaks {fd} w w'"
  by (auto simp: calculate_and_send_payment_data_def Let_def dest: speaks_send split: Option.bind_splits prod.splits)

text \<open>What a function of a thread may do: talk to its own socket only, and keep its descriptor.\<close>

definition own_socket :: "byte \<Rightarrow> 'db world \<Rightarrow> pango_data \<times> 'db world \<Rightarrow> bool" where
  "own_socket fd w r \<longleftrightarrow> speaks {fd} w (snd r) \<and> client_fd (fst r) = fd"

lemma own_quiet: "quiet w w1 \<Longrightarrow> own_socket fd w1 r \<Longrightarrow> own_socket fd w r"
  unfolding own_socket_def using speaks_trans quiet_speaks by blast

lemma retriev_own:
  assumes "retriev_client_data eng c st w = Some (r, c', st', w')"
  shows "own_socket (client_fd c) w (c', w')"
proof -
  obtain w1 r2 c2 w2 where 1: "mutex_lock w = Some w1"
    "retrieve_time_start_parking_value_from_database eng c w1 = Some (r2, c2, w2)"
    using assms by (auto simp: retriev_client_data_def split: Option.bind_splits)
  obtain r3 c3 w3 where 3: "(if r2 = QUIT then Some (QUIT, c2, w2) else update_client_and_continue_time eng c2 w2) = Some (r3, c3, w3)"
    using assms 1 by (auto simp: retriev_client_data_def split: Option.bind_splits)
  obtain r4 c4 w4 where 4: "(if r3 = QUIT then Some (QUIT, c3, w3)
      else retrieve_parking_price_per_city_from_database eng c3 w3) = Some (r4, c4, w4)"
    using assms 1 3 by (auto simp: retriev_client_data_def split: Option.bind_splits)
  have q: "quiet w w1" "quiet w1 w2" "quiet w2 w3" "quiet w3 w4"
    "client_fd c2 = client_fd c" "client_fd c3 = client_fd c2" "client_fd c4 = client_fd c3"
    using 1 3 4 mutex_quiet time_quiet continue_quiet price_quiet by (fastforce split: if_splits)+
  have "own_socket (client_fd c4) w4 (c', w')"
    using assms 1 3 4
    by (auto simp: retriev_client_data_def own_socket_def dest!: mutex_quiet location_speaks
        dest: quiet_speaks [where F = "{client_fd c4}"] intro: speaks_trans split: Option.bind_splits prod.splits if_splits)
  with q own_quiet show ?thesis by metis
qed

lemma insert_new_quiet:
  assumes "insert_new_client eng c st w = Some (r, c', st', w')"
  shows "quiet w w' \<and> client_fd c' = client_fd c"
proof -
  obtain w2 r3 c3 w3 where 1: "mutex_lock w = Some w2"
    "retrieve_parking_price_per_city_from_database eng c w2 = Some (r3, c3, w3)"
    using assms by (auto simp: insert_new_client_def split: Option.bind_splits)
  obtain r4 w4 where 4: "(if r3 = QUIT then Some (QUIT, w3) else insert_client_data_into_database eng c3 w3) = Some (r4, w4)"
    using assms 1 by (auto simp: insert_new_client_def split: Option.bind_splits)
  have q: "quiet w w2" "quiet w2 w3" "quiet w3 w4" "client_fd c3 = client_fd c"
    using 1 4 mutex_quiet price_quiet insert_client_quiet by (fastforce split: if_splits)+
  have "quiet w4 w' \<and> c' = c3" using assms 1 4
    by (auto simp: insert_new_client_def dest!: mutex_quiet split: Option.bind_splits if_splits)
  with q quiet_trans show ?thesis by metis
qed

lemma handle_close_own:
  assumes "handle_close_app eng t w = Some (t', w')"
  shows "own_socket (client_fd (t_client t)) w (t_client t', w')"
proof -
  obtain w1 r e w2 where 1: "mutex_lock w = Some w1" "update_client_data eng (t_client t) w1 = Some (r, e, w2)"
    "mutex_unlock w2 = Some w'" "client_fd (t_client t') = client_fd (t_client t)"
    using assms by (auto simp: handle_close_app_def Let_def split: Option.bind_splits)
  then have "quiet w w'" using mutex_quiet update_client_quiet quiet_trans by metis
  with 1(4) quiet_speaks show ?thesis by (auto simp: own_socket_def)
qed

lemma removal_quiet:
  assumes "mutex_lock w = Some w1" and "remove_client_data eng mac w1 = Some w2" and "mutex_unlock w2 = Some w3"
  shows "quiet w w3"
  using assms mutex_quiet remove_client_quiet quiet_trans by metis

lemma exit_own:
  assumes "pango_exit eng t w = Some (t', w')"
  shows "own_socket (client_fd (t_client t)) w (t_client t', w')"
proof -
  let ?c = "t_client t"
  consider "t_status t = CLOSE_APP" | "t_status t = CONNECTION_LOST" | "t_status t \<noteq> CLOSE_APP" "t_status t \<noteq> CONNECTION_LOST" by blast
  then have "speaks {client_fd ?c} w w'"
  proof cases
    case 1
    obtain w0 w1 w2 where 2: "calculate_and_send_payment_data (time_start_parking ?c) (t_end_time t) (price ?c) (client_fd ?c) w = Some w0"
      "mutex_lock w0 = Some w1" "remove_client_data eng (mac_address ?c) w1 = Some w2" "mutex_unlock w2 = Some w'"
      using assms 1 by (auto simp: pango_exit_def Let_def split: Option.bind_splits)
    then show ?thesis using payment_speaks removal_quiet [OF 2(2-4)] speaks_trans quiet_speaks by blast
  next
    case 2
    obtain w1 r e w2 where 3: "mutex_lock w = Some w1" "update_client_data eng ?c w1 = Some (r, e, w2)" "mutex_unlock w2 = Some w'"
      using assms 2 by (auto simp: pango_exit_def Let_def status_defs split: Option.bind_splits)
    then have "quiet w w'" using mutex_quiet update_client_quiet quiet_trans by metis
    then show ?thesis by (rule quiet_speaks)
  next
    case 3
    with assms show ?thesis
      by (auto simp: pango_exit_def Let_def dest: speaks_send split: if_splits prod.splits)
  qed
  with exit_record [OF assms] show ?thesis by (simp add: own_socket_def)
qed

lemma store_loop_own: "store_loop buff i k st c = Some (st', c') \<Longrightarrow> client_fd c' = client_fd c"
proof (induction "8 - i" arbitrary: i k st c)
  case 0
  then show ?case by (subst (asm) store_loop.simps) simp
next
  case (Suc n)
  have next_i: "store_loop buff j l s d = Some (st', c') \<Longrightarrow> j = i + 1 \<Longrightarrow> client_fd c' = client_fd d" for j l s d
    using Suc.hyps(1) [of j l s d] Suc.hyps(2) by simp
  from Suc.prems show ?case
    by (subst (asm) store_loop.simps) (auto simp: Let_def split: if_splits Option.bind_splits dest!: next_i)
qed

lemma receive_own:
  assumes "receive_section r t w = Some (pc, t', w')"
  shows "own_socket (client_fd (t_client t)) w (t_client t', w')"
proof -
  obtain lost c st b w1 where 1: "wait_for_data_from_client r (t_client t) (t_status t) (t_buff t) w = Some (lost, c, st, b, w1)"
    "w1 = w'" "lost = CONNECTION_LOST \<longrightarrow> t_client t' = c"
    "lost \<noteq> CONNECTION_LOST \<longrightarrow> check_and_store (t\<lparr>t_client := c, t_status := st, t_buff := b\<rparr>) = Some t'"
    using assms by (auto simp: receive_section_def Let_def split: Option.bind_splits if_splits)
  have "quiet w w1 \<and> client_fd c = client_fd (t_client t)" using 1(1)
    by (auto simp: wait_for_data_from_client_def dest!: mutex_quiet intro: quiet_trans
        split: recv_result.splits list.splits Option.bind_splits)
  moreover have "client_fd (t_client t') = client_fd c"
    using 1(3,4) by (cases "lost = CONNECTION_LOST")
      (auto simp: check_and_store_def store_client_data_in_struct_def dest!: store_loop_own split: Option.bind_splits if_splits)
  ultimately show ?thesis using 1(2) quiet_speaks by (auto simp: own_socket_def)
qed

text \<open>Every section of a client thread.\<close>

lemma lookup_own:
  "act_section eng Looking_up t w = Some (pc', t', w') \<Longrightarrow> own_socket (client_fd (t_client t)) w (t_client t', w')"
  by (auto simp: own_socket_def dest!: lookup_quiet intro: quiet_speaks split: Option.bind_splits)

lemma act_own:
  assumes "act_section eng pc t w = Some (pc', t', w')"
  shows "own_socket (client_fd (t_client t)) w (t_client t', w')"
proof (cases pc)
  case Looking_up
  with assms lookup_own show ?thesis by blast
next
  case Resuming
  with assms show ?thesis
    by (auto simp: Let_def dest!: retriev_own simp: own_socket_def split: Option.bind_splits if_splits)
next
  case Entering
  with assms show ?thesis
    by (auto dest!: start_time_quiet intro: quiet_speaks simp: own_socket_def split: Option.bind_splits)
next
  case Inserting
  with assms show ?thesis
    by (auto simp: Let_def own_socket_def dest!: insert_new_quiet intro: quiet_speaks split: Option.bind_splits if_splits)
next
  case Announcing
  with assms show ?thesis
    by (auto simp: Let_def own_socket_def dest!: location_speaks split: prod.splits)
next
  case Closing
  with assms show ?thesis
    by (auto dest!: handle_close_own simp: own_socket_def split: Option.bind_splits)
next
  case Leaving
  show ?thesis
  proof (cases "t_status t = CLOSE_APP")
    case True
    with assms Leaving show ?thesis
      by (auto dest!: payment_speaks simp: own_socket_def split: Option.bind_splits)
  next
    case False
    with assms Leaving obtain w1 where x: "pango_exit eng t w = Some (t', w1)" "w' = close_fd (client_fd (t_client t')) w1"
      by (auto split: Option.bind_splits)
    have "speaks {client_fd (t_client t)} w w'"
      using exit_own [OF x(1)] unfolding x(2) own_socket_def by (auto intro: speaks_trans [OF _ speaks_close])
    with exit_own [OF x(1)] show ?thesis by (simp add: own_socket_def)
  qed
next
  case Removing
  with assms obtain w1 w2 w3 where r: "mutex_lock w = Some w1" "remove_client_data eng (mac_address (t_client t)) w1 = Some w2"
    "mutex_unlock w2 = Some w3" "t' = t" "w' = close_fd (client_fd (t_client t)) w3"
    by (auto simp: Option.bind_eq_Some_conv)
  have "speaks {client_fd (t_client t)} w w'"
    unfolding r(5) by (rule speaks_trans [OF quiet_speaks [OF removal_quiet [OF r(1-3)]] speaks_close])
  with r(4) show ?thesis by (simp add: own_socket_def)
qed (use assms in simp_all)

section \<open>The backup thread\<close>

lemma update_loop_quiet: "update_clients_loop eng cs i w = Some w' \<Longrightarrow> quiet w w'"
proof (induction "10 - i" arbitrary: i w)
  case 0
  then show ?case by (subst (asm) update_clients_loop.simps) (simp add: UPDATE_THREAD_MAX_NUM_CLIENTS_def)
next
  case (Suc n)
  have next_i: "update_clients_loop eng cs (Suc i) v = Some w' \<Longrightarrow> quiet v w'" for v
    using Suc.hyps(1) [of "Suc i" v] Suc.hyps(2) by simp
  from Suc.prems show ?case
    by (subst (asm) update_clients_loop.simps)
       (auto split: if_splits Option.bind_splits prod.splits dest!: next_i engine_quiet intro: quiet_trans)
qed

lemma update_clients_quiet: "update_clients eng cs b w = Some w' \<Longrightarrow> quiet w w'"
  by (auto simp: update_clients_def dest: update_loop_quiet split: if_splits)

lemma backup_quiet:
  assumes "db_update_iteration eng start flag cs quit w = Some (quit', w')"
  shows "quiet w w'"
proof -
  obtain w1 b w2 b' q w3 w4 where 1: "mutex_lock w = Some w1" "time_to_backup start w1 = Some (b, w2)"
    "return_database_update_thread eng flag cs b quit w2 = Some (b', q, w3)"
    "update_clients eng cs b' w3 = Some w4" "mutex_unlock w4 = Some w'"
    using assms by (auto simp: db_update_iteration_def split: Option.bind_splits)
  have "quiet w1 w2" using 1(2) by (auto simp: time_to_backup_def dest: engine_quiet split: Option.bind_splits prod.splits)
  moreover have "quiet w2 w3" using 1(3)
    by (auto simp: return_database_update_thread_def dest: update_clients_quiet split: Option.bind_splits if_splits)
  ultimately show ?thesis using 1(1,4,5) mutex_quiet update_clients_quiet quiet_trans by metis
qed

section \<open>Every schedule\<close>

fun accepted_fds :: "turn list \<Rightarrow> byte list" where
  "accepted_fds [] = []"
| "accepted_fds (Accept fd # ls) = fd # accepted_fds ls"
| "accepted_fds (l # ls) = accepted_fds ls"

lemma length_accepted_fds: "length (accepted_fds ls) = accepts ls"
  by (induction ls rule: accepts.induct) simp_all

definition thread_fds :: "'db system \<Rightarrow> byte list" where
  "thread_fds s = map (\<lambda>(pc, t). client_fd (t_client t)) (s_threads s)"

text \<open>The sockets a turn may use, given the sockets of the threads: that of the thread whose turn it is.\<close>

fun turn_fds :: "byte list \<Rightarrow> turn \<Rightarrow> byte set" where
  "turn_fds fds (Receive i r) = (if i < length fds then {fds ! i} else {})"
| "turn_fds fds (Act i) = (if i < length fds then {fds ! i} else {})"
| "turn_fds fds _ = {}"

lemma turn_fds_append: "turn_fds fds l \<subseteq> turn_fds (fds @ gds) l"
  by (cases l) (auto simp: nth_append)

lemma put_own:
  assumes "i < length (s_threads s)" and "s_threads s ! i = (pc, t)"
    and "own_socket (client_fd (t_client t)) (s_world s) (t_client t', w')"
  shows "thread_fds (put_thread i (pc', t', w') s) = thread_fds s"
    and "speaks {thread_fds s ! i} (s_world s) (s_world (put_thread i (pc', t', w') s))"
    and "i < length (thread_fds s)"
proof -
  have "client_fd (t_client t) = thread_fds s ! i" using assms(1,2) by (simp add: thread_fds_def)
  then show "thread_fds (put_thread i (pc', t', w') s) = thread_fds s"
    "speaks {thread_fds s ! i} (s_world s) (s_world (put_thread i (pc', t', w') s))" "i < length (thread_fds s)"
    using assms(1,3)
    by (auto simp: thread_fds_def put_thread_def own_socket_def map_update list_update_same_conv)
qed

lemma turn_sockets:
  assumes "take_turn eng start l s = Some s'"
  shows "thread_fds s' = thread_fds s @ accepted_fds [l] \<and> speaks (turn_fds (thread_fds s) l) (s_world s) (s_world s')"
proof (cases l)
  case (Accept fd)
  with assms show ?thesis by (auto simp: thread_fds_def thread_start_def split: if_splits)
next
  case (Receive i r)
  show ?thesis
  proof (cases "i < length (s_threads s) \<and> fst (s_threads s ! i) = Receiving")
    case True
    then obtain t where t: "s_threads s ! i = (Receiving, t)" by (metis prod.collapse)
    with True assms Receive obtain pc' t' w' where r: "receive_section r t (s_world s) = Some (pc', t', w')"
      "s' = put_thread i (pc', t', w') s" by (auto simp: Option.bind_eq_Some_conv)
    with put_own [OF conjunct1 [OF True] t receive_own [OF r(1)]] Receive show ?thesis by simp
  qed (use assms Receive in auto)
next
  case (Act i)
  show ?thesis
  proof (cases "i < length (s_threads s) \<and> fst (s_threads s ! i) \<notin> {Receiving, Done}")
    case True
    obtain pc t where t: "s_threads s ! i = (pc, t)" by fastforce
    with True assms Act obtain pc' t' w' where r: "act_section eng pc t (s_world s) = Some (pc', t', w')"
      "s' = put_thread i (pc', t', w') s" by (auto simp: Option.bind_eq_Some_conv)
    with put_own [OF conjunct1 [OF True] t act_own [OF r(1)]] Act show ?thesis by simp
  qed (use assms Act in auto)
next
  case Backup
  with assms backup_quiet quiet_speaks show ?thesis
    by (fastforce simp: thread_fds_def Option.bind_eq_Some_conv)
qed

lemma schedule_sockets:
  assumes "run_schedule eng start ls s = Some s'"
  shows "thread_fds s' = thread_fds s @ accepted_fds ls \<and>
    speaks (\<Union>l\<in>set ls. turn_fds (thread_fds s') l) (s_world s) (s_world s')"
  using assms
proof (induction ls arbitrary: s)
  case (Cons l ls)
  let ?F = "\<lambda>ls. \<Union>l\<in>set ls. turn_fds (thread_fds s') l"
  obtain s1 where 1: "take_turn eng start l s = Some s1" "run_schedule eng start ls s1 = Some s'"
    using Cons.prems by (auto simp: Option.bind_eq_Some_conv)
  note t = turn_sockets [OF 1(1)] and i = Cons.IH [OF 1(2)]
  have "accepted_fds (l # ls) = accepted_fds [l] @ accepted_fds ls" by (cases l) simp_all
  with t i have fds: "thread_fds s' = thread_fds s @ accepted_fds (l # ls)" by simp
  have "turn_fds (thread_fds s) l \<subseteq> ?F (l # ls)" using turn_fds_append [of "thread_fds s" l] fds by auto
  with t have "speaks (?F (l # ls)) (s_world s) (s_world s1)" by (blast intro: speaks_mono)
  moreover have "speaks (?F (l # ls)) (s_world s1) (s_world s')" using i by (auto intro: speaks_mono)
  ultimately show ?case using fds by (blast intro: speaks_trans)
qed simp

text \<open>
  C15: in every interleaving the array keeps ten records of the declared shape: both texts fill
  their arrays of 18 and 12 characters, are terminated and have no quote, and no start lies in
  the future; a running thread keeps a buffer of ten bytes. Every record keeps the descriptor of
  its connection, and only turns of the thread of a connection send on its socket or close it.
\<close>

theorem records_keep_shape_and_socket:
  assumes "sqlite_contract eng tbl prices healthy" and "world_ok tbl w" and "\<not> locked w" and "0 \<le> sint start"
    and "accepts ls \<le> SERVER_MAX_NUM_CLIENTS"
  shows "\<exists>s. run_schedule eng start ls (server_system w) = Some s \<and>
    length (client_array s) = SERVER_MAX_NUM_CLIENTS \<and>
    (\<forall>c\<in>set (client_array s). client_ok c \<and> 0 \<le> sint (time_start_parking c) \<and>
      sint (time_start_parking c) \<le> clock w (ticks (s_world s))) \<and>
    (\<forall>(pc, t)\<in>set (s_threads s). pc \<noteq> Done \<longrightarrow> length (t_buff t) = CLIENT_DATA_BUFFER_SIZE) \<and>
    map client_fd (take (accepts ls) (client_array s)) = accepted_fds ls \<and>
    speaks (\<Union>l\<in>set ls. turn_fds (accepted_fds ls) l) w (s_world s)"
proof -
  have "system_ok tbl (server_system w)" "length (s_threads (server_system w)) + accepts ls \<le> SERVER_MAX_NUM_CLIENTS"
    using assms by (simp_all add: system_ok_def server_system_def)
  from schedule_ok [OF assms(1) this(1) assms(4) this(2)] obtain s where
    s: "run_schedule eng start ls (server_system w) = Some s" "system_ok tbl s" "evolves tbl w (s_world s)"
    by (auto simp: server_system_def)
  note sock = schedule_sockets [OF s(1)] and inv = client_array_inv [OF s(2)]
  have fds: "thread_fds s = accepted_fds ls" using sock by (simp add: thread_fds_def server_system_def)
  have len: "length (s_threads s) = accepts ls"
    using arg_cong [OF fds, of length] by (simp add: thread_fds_def length_accepted_fds)
  have "map client_fd (take (accepts ls) (client_array s)) = thread_fds s"
    using len by (auto simp: client_array_def thread_fds_def)
  with s(1,3) sock inv fds s(2) show ?thesis
    by (auto simp: client_inv_def evolves_def system_ok_def slot_inv_def thread_inv_def size_defs server_system_def)
qed

theorem records_keep_shape_and_socket_witness:
  "\<exists>s. run_schedule ref_engine 900 [Accept 4, Accept 5, Receive 0 (Received demo_start), Act 0, Backup, Act 0]
      (server_system (demo_world demo_rows)) = Some s \<and>
    length (client_array s) = SERVER_MAX_NUM_CLIENTS \<and>
    (\<forall>c\<in>set (client_array s). client_ok c \<and> 0 \<le> sint (time_start_parking c) \<and>
      sint (time_start_parking c) \<le> clock (demo_world demo_rows) (ticks (s_world s))) \<and>
    (\<forall>(pc, t)\<in>set (s_threads s). pc \<noteq> Done \<longrightarrow> length (t_buff t) = CLIENT_DATA_BUFFER_SIZE) \<and>
    map client_fd (take (accepts [Accept 4, Accept 5, Receive 0 (Received demo_start), Act 0, Backup, Act 0]) (client_array s)) =
      accepted_fds [Accept 4, Accept 5, Receive 0 (Received demo_start), Act 0, Backup, Act 0] \<and>
    speaks (\<Union>l\<in>set [Accept 4, Accept 5, Receive 0 (Received demo_start), Act 0, Backup, Act 0].
        turn_fds (accepted_fds [Accept 4, Accept 5, Receive 0 (Received demo_start), Act 0, Backup, Act 0]) l)
      (demo_world demo_rows) (s_world s)"
  by (rule records_keep_shape_and_socket [OF ref.sqlite_contract_axioms])
     (simp_all add: demo_world_ok [OF demo_rows_ok] size_defs)

end
