(* ===== verification/Server_Layout.thy ===== *)
theory Server_Layout
  imports Server_Data
begin

text \<open>
  The five declarations of \<open>struct pango_data\<close>. The client record is allocated by \<open>main\<close> and
  handed to the threads as a \<open>void\<close> pointer; each source file reads it through the declaration
  of the first of its headers that makes one. The declarations differ in the name of a field only,
  so one record of \<open>Server_Data\<close> stands for all of them.
\<close>

section \<open>Packed structs\<close>

datatype c_type = C_uint8 | C_chars nat | C_double | C_int | C_volatile_uint8

fun c_size :: "c_type \<Rightarrow> nat" where
  "c_size C_uint8 = 1"
| "c_size (C_chars n) = n"
| "c_size C_double = 8"
| "c_size C_int = 4"
| "c_size C_volatile_uint8 = 1"

type_synonym struct_decl = "(string \<times> c_type) list"

text \<open>\<open>#pragma pack(push, 1)\<close>: each field follows the one before it.\<close>

fun offsets_from :: "nat \<Rightarrow> struct_decl \<Rightarrow> (nat \<times> c_type) list" where
  "offsets_from k [] = []"
| "offsets_from k ((name, ty) # fs) = (k, ty) # offsets_from (k + c_size ty) fs"

definition sizeof :: "struct_decl \<Rightarrow> nat" where
  "sizeof fs = sum_list (map (c_size \<circ> snd) fs)"

section \<open>The declarations\<close>

definition client_thread_pango_data :: struct_decl where
  "client_thread_pango_data =
     [(''status'', C_uint8), (''mac_address'', C_chars MAC_ADDRESS_SIZE), (''x_axis'', C_uint8), (''y_axis'', C_uint8),
      (''client_fd'', C_uint8), (''location'', C_chars 12), (''price'', C_double), (''time_start_parking'', C_int),
      (''connected'', C_volatile_uint8)]"

definition new_client_pango_data :: struct_decl where
  "new_client_pango_data =
     [(''status'', C_uint8), (''mac_address'', C_chars MAC_ADDRESS_SIZE), (''x_axis'', C_uint8), (''y_axis'', C_uint8),
      (''client_fd'', C_uint8), (''location'', C_chars 12), (''price'', C_double), (''time_start_parking'', C_int),
      (''connected'', C_volatile_uint8)]"

definition existing_client_pango_data :: struct_decl where
  "existing_client_pango_data =
     [(''status'', C_uint8), (''mac_address'', C_chars MAC_ADDRESS_SIZE), (''x_axis'', C_uint8), (''y_axis'', C_uint8),
      (''client_fd'', C_uint8), (''location'', C_chars 12), (''price'', C_double), (''time_start_parking'', C_int),
      (''running'', C_volatile_uint8)]"

definition db_update_pango_data :: struct_decl where
  "db_update_pango_data =
     [(''status'', C_uint8), (''mac_address'', C_chars MAC_ADDRESS_SIZE), (''x_axis'', C_uint8), (''y_axis'', C_uint8),
      (''client_fd'', C_uint8), (''location'', C_chars 12), (''price'', C_double), (''time_start_parking'', C_int),
      (''connected'', C_volatile_uint8)]"

definition main_server_pango_data :: struct_decl where
  "main_server_pango_data =
     [(''status'', C_uint8), (''mac_address'', C_chars MAC_ADDRESS_SIZE), (''x_axis'', C_uint8), (''y_axis'', C_uint8),
      (''client_fd'', C_uint8), (''location'', C_chars 12), (''price'', C_double), (''time_start_parking'', C_int),
      (''connected'', C_volatile_uint8)]"

lemmas declarations = client_thread_pango_data_def new_client_pango_data_def existing_client_pango_data_def
  db_update_pango_data_def main_server_pango_data_def

text \<open>
  The offset and the type of every field are the same in the five declarations, and so is the
  size, by which the backup thread steps through the array that \<open>main\<close> allocated.
\<close>

lemma one_record_for_all_declarations:
  assumes "decl \<in> {client_thread_pango_data, new_client_pango_data, existing_client_pango_data,
    db_update_pango_data, main_server_pango_data}"
  shows "sizeof decl = 47" and "map fst (offsets_from 0 decl) = [0, 1, 19, 20, 21, 22, 34, 42, 46]"
    and "offsets_from 0 decl = offsets_from 0 client_thread_pango_data"
  using assms by (auto simp: declarations sizeof_def MAC_ADDRESS_SIZE_def)

end
