(* ===== verification/Server_Main.thy ===== *)
theory Server_Main
  imports Server_Data
begin

text \<open>
  The main thread of the server, \<open>main_server.c\<close>: opening the databases and the socket, the
  loop that accepts connections and starts a client thread for each, and the code after it. The
  results of the system calls are arguments. The lemmas say which calls a start-up makes, exactly
  how many connections the loop can take, and that the code after it is never reached.
\<close>

section \<open>Start-up and shutdown\<close>

text \<open>
  The results of the calls, in the order \<open>main\<close> makes them, and the trace of the calls it makes.
  \<open>perror\<close> is part of the trace, with its text.
\<close>

record start_results =
  open_client_db :: int32
  create_table :: int32
  open_prices_db :: int32
  make_socket :: int32
  bind_socket :: int32
  listen_socket :: int32
  create_update_thread :: int32

datatype call = Open_client_db | Create_table | Open_prices_db | Make_socket | Bind_socket
  | Close_socket | Listen_socket | Create_update_thread | Init_mutex
  | Join_client_thread nat | Set_return_thread | Join_update_thread | Close_prices_db
  | Close_client_db | Destroy_mutex | Perror string

datatype start_outcome = Exit_failure "call list" | Started "call list"

text \<open>\<open>return_value\<close> is a \<open>uint8_t\<close>: the result codes of SQLite are cut to their low byte.\<close>

definition main_start :: "start_results \<Rightarrow> start_outcome" where
  "main_start r =
     (let return_value = (ucast (open_client_db r) :: byte); calls = [Open_client_db] in
      if return_value \<noteq> ucast SQLITE_OK
      then Exit_failure (calls @ [Perror ''main_server:main:sqlite3_open:pango_client_database.db'']) else
      let return_value = (ucast (create_table r) :: byte); calls = calls @ [Create_table] in
      if return_value \<noteq> ucast SQLITE_OK
      then Exit_failure (calls @ [Perror ''main_server:main:sqlite3_exec:create_table_query'']) else
      let return_value = (ucast (open_prices_db r) :: byte); calls = calls @ [Open_prices_db] in
      if return_value \<noteq> ucast SQLITE_OK
      then Exit_failure (calls @ [Perror ''main_server:main:sqlite3_open:parking_prices_per_city.db'']) else
      let calls = calls @ [Make_socket] in
      if make_socket r = -1 then Exit_failure (calls @ [Perror ''socket'']) else
      let calls = calls @ [Bind_socket] in
      if bind_socket r = -1 then Exit_failure (calls @ [Perror ''bind'', Close_socket]) else
      let calls = calls @ [Listen_socket] in
      if listen_socket r = -1 then Exit_failure (calls @ [Perror ''listen'']) else
      let calls = calls @ [Create_update_thread] in
      let calls = calls @ (if create_update_thread r = -1 then [Perror ''pthread_create db_thread''] else []) in
      Started (calls @ [Init_mutex]))"

text \<open>The code after the accept loop: it waits for the second client only.\<close>

record shutdown_results =
  join_client :: int32
  join_update :: int32
  close_server :: int32
  close_prices :: int32
  close_client :: int32

definition main_shutdown :: "shutdown_results \<Rightarrow> call list" where
  "main_shutdown r =
     (let calls = [Join_client_thread 1] @ (if join_client r = -1 then [Perror ''pthread_join:''] else []);
          calls = calls @ [Set_return_thread, Join_update_thread] @
            (if join_update r = -1 then [Perror ''pthread_join:''] else []);
          calls = calls @ [Close_socket] @
            (if close_server r = -1 then [Perror ''close server_sockfd''] else []);
          return_value = (ucast (close_prices r) :: byte);
          calls = calls @ [Close_prices_db] @
            (if return_value \<noteq> ucast SQLITE_OK then [Perror ''main_server:main:sqlite3_close(db_prices)''] else []);
          return_value = (ucast (close_client r) :: byte);
          calls = calls @ [Close_client_db] @
            (if return_value \<noteq> ucast SQLITE_OK then [Perror ''main_server:main:sqlite3_close(db_client)''] else [])
      in calls @ [Destroy_mutex])"

section \<open>The accept loop\<close>

record server =
  srv_clients :: "pango_data list"
  srv_threads :: "nat list"

datatype accept_outcome = Blocked server | Finished server

text \<open>
  Each connection is the pair of the results of \<open>accept\<close> and \<open>pthread_create\<close>. The record's
  \<open>client_fd\<close> is a \<open>uint8_t\<close>, so the value that is compared with -1 is between 0 and 255. If
  \<open>pthread_create\<close> returned -1 the loop would close the uninitialized \<open>client_sockfd\<close>.
\<close>

function accept_loop :: "(int32 \<times> int32) list \<Rightarrow> nat \<Rightarrow> server \<Rightarrow> accept_outcome option" where
  "accept_loop conns i srv =
     (if i \<le> SERVER_MAX_NUM_CLIENTS
      then case conns of
          [] \<Rightarrow> Some (Blocked srv)
        | (fd, created) # conns \<Rightarrow>
            if i < length (srv_clients srv)
            then let srv = srv\<lparr>srv_clients := (srv_clients srv)[i := (srv_clients srv ! i)\<lparr>client_fd := ucast fd\<rparr>]\<rparr>
              in if created = -1 then None
                 else accept_loop conns (i + 1)
                   (if created = 0 then srv\<lparr>srv_threads := srv_threads srv @ [i]\<rparr> else srv)
            else None
      else Some (Finished srv))"
  by pat_completeness auto
termination by (relation "measure (\<lambda>(conns, _, _). length conns)") auto

declare accept_loop.simps [simp del]

definition server_start :: server where
  "server_start = \<lparr>srv_clients = replicate SERVER_MAX_NUM_CLIENTS zeroed_client, srv_threads = []\<rparr>"

definition accepted :: "(int32 \<times> int32) list \<Rightarrow> pango_data list" where
  "accepted conns = map (\<lambda>(fd, _). zeroed_client\<lparr>client_fd := ucast fd\<rparr>) conns"

lemma accept_loop_from:
  assumes "\<forall>c\<in>set conns. snd c = 0" and "i = length busy" and "length busy \<le> 10"
    and "srv = \<lparr>srv_clients = busy @ replicate (10 - i) zeroed_client, srv_threads = [0..<i]\<rparr>"
  shows "accept_loop conns i srv =
    (if i + length conns \<le> 10
     then Some (Blocked \<lparr>srv_clients = busy @ accepted conns @ replicate (10 - (i + length conns)) zeroed_client,
       srv_threads = [0..<i + length conns]\<rparr>)
     else None)"
  using assms
proof (induction conns arbitrary: i busy srv)
  case Nil
  then show ?case by (subst accept_loop.simps) (simp add: size_defs accepted_def)
next
  case (Cons c conns)
  obtain fd where c: "c = (fd, 0)" using Cons.prems(1) by (cases c) auto
  show ?case
  proof (cases "i < 10")
    case True
    let ?busy = "busy @ [zeroed_client\<lparr>client_fd := ucast fd\<rparr>]"
    let ?srv = "\<lparr>srv_clients = ?busy @ replicate (10 - (i + 1)) zeroed_client, srv_threads = [0..<i + 1]\<rparr>"
    have rep: "replicate (10 - i) zeroed_client = zeroed_client # replicate (10 - (i + 1)) zeroed_client"
      using True by (cases "10 - i") auto
    have "accept_loop (c # conns) i srv = accept_loop conns (i + 1) ?srv"
      using True Cons.prems(2,4) unfolding c rep
      by (subst accept_loop.simps) (simp add: size_defs nth_append list_update_append)
    moreover have "accept_loop conns (i + 1) ?srv =
      (if i + 1 + length conns \<le> 10
       then Some (Blocked \<lparr>srv_clients = ?busy @ accepted conns @ replicate (10 - (i + 1 + length conns)) zeroed_client,
         srv_threads = [0..<i + 1 + length conns]\<rparr>)
       else None)"
      using Cons.prems True by (intro Cons.IH) simp_all
    ultimately show ?thesis unfolding c accepted_def by simp
  next
    case False
    then have "i = 10" using Cons.prems(2,3) by simp
    with Cons.prems(2,4) show ?thesis unfolding c by (subst accept_loop.simps) (simp add: size_defs)
  qed
qed

text \<open>
  C28: the accept loop serves the first ten connections, each in its own cleared record with
  its own thread, and then blocks in \<open>accept\<close>; the eleventh connection makes it write past the
  array of records.
\<close>

theorem accept_loop_takes_ten_clients:
  assumes "\<forall>c\<in>set conns. snd c = 0"
  shows "accept_loop conns 0 server_start =
    (if length conns \<le> 10
     then Some (Blocked \<lparr>srv_clients = accepted conns @ replicate (10 - length conns) zeroed_client,
       srv_threads = [0..<length conns]\<rparr>)
     else None)"
  using accept_loop_from [OF assms, of 0 "[]" server_start] by (simp add: server_start_def size_defs)

theorem accept_loop_takes_ten_clients_witness:
  "accept_loop (replicate 11 (5, 0)) 0 server_start =
    (if length (replicate 11 (5 :: int32, 0 :: int32)) \<le> 10
     then Some (Blocked \<lparr>srv_clients = accepted (replicate 11 (5, 0)) @
         replicate (10 - length (replicate 11 (5 :: int32, 0 :: int32))) zeroed_client,
       srv_threads = [0..<length (replicate 11 (5 :: int32, 0 :: int32))]\<rparr>)
     else None)"
  by (rule accept_loop_takes_ten_clients) simp

lemma accept_loop_not_finished:
  "length (srv_clients srv) = 10 \<Longrightarrow> i \<le> 10 \<Longrightarrow> accept_loop conns i srv \<noteq> Some (Finished srv')"
proof (induction conns i srv rule: accept_loop.induct)
  case (1 conns i srv)
  show ?case
  proof (cases conns)
    case Nil
    with "1.prems"(2) show ?thesis by (subst accept_loop.simps) (simp add: size_defs)
  next
    case (Cons c rest)
    obtain fd created where c: "c = (fd, created)" by fastforce
    show ?thesis
    proof (cases "i < 10 \<and> created \<noteq> -1")
      case True
      with 1 Cons c show ?thesis by (subst accept_loop.simps) (auto simp: size_defs Let_def)
    next
      case False
      with "1.prems" Cons c show ?thesis by (subst accept_loop.simps) (auto simp: size_defs)
    qed
  qed
qed

section \<open>The whole of main\<close>

datatype main_outcome = Main_exits "call list" | Main_blocked "call list" server | Main_returns "call list"

definition server_main ::
    "start_results \<Rightarrow> (int32 \<times> int32) list \<Rightarrow> shutdown_results \<Rightarrow> main_outcome option" where
  "server_main r conns ends = (case main_start r of
     Exit_failure calls \<Rightarrow> Some (Main_exits calls)
   | Started calls \<Rightarrow> do {
       loop \<leftarrow> accept_loop conns 0 server_start;
       Some (case loop of
          Blocked srv \<Rightarrow> Main_blocked calls srv
        | Finished srv \<Rightarrow> Main_returns (calls @ main_shutdown ends)) })"

text \<open>The calls of the start-up in their order, each with whether it succeeds.\<close>

definition start_steps :: "start_results \<Rightarrow> (call \<times> bool) list" where
  "start_steps r =
     [(Open_client_db, (ucast (open_client_db r) :: byte) = 0), (Create_table, (ucast (create_table r) :: byte) = 0),
      (Open_prices_db, (ucast (open_prices_db r) :: byte) = 0), (Make_socket, make_socket r \<noteq> -1),
      (Bind_socket, bind_socket r \<noteq> -1), (Listen_socket, listen_socket r \<noteq> -1)]"

definition no_perror :: "call list \<Rightarrow> call list" where
  "no_perror = filter (\<lambda>c. case c of Perror _ \<Rightarrow> False | _ \<Rightarrow> True)"

lemma main_start_calls:
  "main_start r = Exit_failure calls \<Longrightarrow>
    (\<exists>call rest. dropWhile snd (start_steps r) = (call, False) # rest \<and>
      no_perror calls = map fst (takeWhile snd (start_steps r)) @ [call] @ (if call = Bind_socket then [Close_socket] else []))"
  "main_start r = Started calls \<Longrightarrow>
    list_all snd (start_steps r) \<and>
    no_perror calls = map fst (start_steps r) @ [Create_update_thread, Init_mutex]"
  by (auto simp: main_start_def start_steps_def no_perror_def Let_def SQLITE_OK_def split: if_splits)

lemma main_never_returns: "\<nexists>cs calls. server_main r cs ends = Some (Main_returns calls)"
  using accept_loop_not_finished [of server_start 0]
  by (auto simp: server_main_def server_start_def size_defs split: Option.bind_splits accept_outcome.splits start_outcome.splits)

lemma starts_or_exits:
  assumes "\<forall>c\<in>set conns. snd c = 0" and "length conns \<le> 10"
  shows "case dropWhile snd (start_steps r) of
      (call, _) # _ \<Rightarrow> \<exists>calls. server_main r conns ends = Some (Main_exits calls) \<and>
        no_perror calls = map fst (takeWhile snd (start_steps r)) @ [call] @ (if call = Bind_socket then [Close_socket] else []) \<and>
        no_perror calls \<noteq> calls
    | [] \<Rightarrow> \<exists>calls. server_main r conns ends = Some (Main_blocked calls
        \<lparr>srv_clients = accepted conns @ replicate (10 - length conns) zeroed_client, srv_threads = [0..<length conns]\<rparr>) \<and>
        no_perror calls = map fst (start_steps r) @ [Create_update_thread, Init_mutex]"
proof (cases "main_start r")
  case (Exit_failure calls)
  moreover have "no_perror calls \<noteq> calls"
    using Exit_failure by (auto simp: main_start_def no_perror_def Let_def split: if_splits)
  ultimately show ?thesis using main_start_calls(1) [OF Exit_failure] by (auto simp: server_main_def)
next
  case (Started calls)
  then have drop: "dropWhile snd (start_steps r) = []" using main_start_calls(2) by (auto simp: list_all_iff)
  have "accept_loop conns 0 server_start = Some (Blocked
      \<lparr>srv_clients = accepted conns @ replicate (10 - length conns) zeroed_client, srv_threads = [0..<length conns]\<rparr>)"
    using accept_loop_from [OF assms(1), of 0 "[]" server_start] assms(2) by (simp add: server_start_def size_defs)
  with Started main_start_calls(2) [OF Started] show ?thesis unfolding drop by (simp add: server_main_def)
qed

text \<open>
  C38: \<open>main\<close> makes the calls of its start-up in order until one of them fails, and then exits
  with a message; the socket is closed only when \<open>bind\<close> failed. When none fails it creates
  the backup thread, and only then initializes the mutex that this thread locks, and serves
  up to ten connections. Whatever connections arrive, it never returns from its accept loop:
  the code after it, which would stop the backup thread and close the databases, is never run.
\<close>

theorem server_starts_or_exits:
  assumes "\<forall>c\<in>set conns. snd c = 0" and "length conns \<le> 10"
  shows "(\<nexists>cs calls. server_main r cs ends = Some (Main_returns calls)) \<and>
    (case dropWhile snd (start_steps r) of
      (call, _) # _ \<Rightarrow> \<exists>calls. server_main r conns ends = Some (Main_exits calls) \<and>
        no_perror calls = map fst (takeWhile snd (start_steps r)) @ [call] @ (if call = Bind_socket then [Close_socket] else []) \<and>
        no_perror calls \<noteq> calls
    | [] \<Rightarrow> \<exists>calls. server_main r conns ends = Some (Main_blocked calls
        \<lparr>srv_clients = accepted conns @ replicate (10 - length conns) zeroed_client, srv_threads = [0..<length conns]\<rparr>) \<and>
        no_perror calls = map fst (start_steps r) @ [Create_update_thread, Init_mutex])"
  by (rule conjI [OF main_never_returns starts_or_exits [OF assms]])

definition demo_start_results :: start_results where
  "demo_start_results = \<lparr>open_client_db = 0, create_table = 0, open_prices_db = 0, make_socket = 3, bind_socket = 0,
     listen_socket = 0, create_update_thread = 0\<rparr>"

definition demo_shutdown_results :: shutdown_results where
  "demo_shutdown_results = \<lparr>join_client = 0, join_update = 0, close_server = 0, close_prices = 0, close_client = 0\<rparr>"

lemma demo_start_steps: "dropWhile snd (start_steps demo_start_results) = []"
  "map fst (start_steps demo_start_results) =
    [Open_client_db, Create_table, Open_prices_db, Make_socket, Bind_socket, Listen_socket]"
  by (simp_all add: start_steps_def demo_start_results_def)

theorem server_starts_or_exits_witness:
  "(\<nexists>cs calls. server_main demo_start_results cs demo_shutdown_results = Some (Main_returns calls)) \<and>
   (\<exists>calls. server_main demo_start_results [(5, 0)] demo_shutdown_results = Some (Main_blocked calls
      \<lparr>srv_clients = accepted [(5, 0)] @ replicate 9 zeroed_client, srv_threads = [0]\<rparr>) \<and>
    no_perror calls = [Open_client_db, Create_table, Open_prices_db, Make_socket, Bind_socket, Listen_socket,
      Create_update_thread, Init_mutex])"
  using server_starts_or_exits [of "[(5, 0)]" demo_start_results demo_shutdown_results]
  unfolding demo_start_steps by simp

text \<open>
  \<open>main\<close> never reaches the code after its loop: whatever the calls return and whatever
  connections arrive, it never sets \<open>return_thread\<close>, so the backup thread is never asked to
  end, and never closes a database or joins a thread. It exits at start-up, blocks in \<open>accept\<close>,
  or has written past its array.
\<close>

theorem shutdown_is_unreachable:
  "case server_main r conns ends of
      None \<Rightarrow> True
    | Some (Main_returns calls) \<Rightarrow> False
    | Some (Main_exits calls) \<Rightarrow> set calls \<inter> set (main_shutdown ends) \<subseteq> {Close_socket} \<union> range Perror
    | Some (Main_blocked calls srv) \<Rightarrow> set calls \<inter> set (main_shutdown ends) \<subseteq> range Perror"
proof (cases "main_start r")
  case (Exit_failure calls)
  then show ?thesis by (auto simp: server_main_def main_start_def Let_def main_shutdown_def split: if_splits)
next
  case (Started calls)
  have "set calls \<inter> set (main_shutdown ends) \<subseteq> range Perror"
    using Started by (auto simp: main_start_def Let_def main_shutdown_def split: if_splits)
  with Started accept_loop_not_finished [of server_start 0 conns] show ?thesis
    by (auto simp: server_main_def server_start_def size_defs split: Option.bind_split accept_outcome.splits option.splits)
qed

text \<open>
  A failed \<open>accept\<close> is not noticed: the loop starts a client thread on descriptor 255, among
  the threads of the other connections.
\<close>

theorem failed_accept_starts_a_thread:
  assumes "\<forall>c\<in>set conns. snd c = 0" and "length conns < 10"
  shows "\<exists>srv. accept_loop (conns @ [(-1, 0)]) 0 server_start = Some (Blocked srv) \<and>
    srv_threads srv = [0..<length conns + 1] \<and> client_fd (srv_clients srv ! length conns) = 255"
proof -
  have "(ucast (-1 :: int32) :: byte) = 255" by code_simp
  moreover have "length (accepted conns) = length conns" by (simp add: accepted_def)
  ultimately show ?thesis using accept_loop_from [of "conns @ [(-1, 0)]" 0 "[]" server_start] assms
    by (simp add: server_start_def size_defs accepted_def nth_append)
qed

end
