(* ===== verification/Price_Db.thy ===== *)
theory Price_Db
  imports Binary64 Server_Branches
begin

text \<open>
  The program that fills the price database, \<open>sql_price_db_create.c\<close>: four rows of
  \<open>city_parking\<close>, their prices printed by \<open>%f\<close>. A price read back from the table is the double
  nearest to the printed decimal.
\<close>

section \<open>Decimals\<close>

text \<open>\<open>%f\<close> of a non-negative number: six decimals, rounded half to even.\<close>

definition pad :: "nat \<Rightarrow> string \<Rightarrow> string" where
  "pad n s = replicate (n - length s) (CHR ''0'') @ s"

definition fmt_f :: "rat \<Rightarrow> string" where
  "fmt_f x =
     (let n = nat (round_half_even (x * 1000000))
      in show_base 10 (n div 1000000) @ ''.'' @ pad 6 (show_base 10 (n mod 1000000)))"

definition read_decimal :: "string \<Rightarrow> rat" where
  "read_decimal s =
     (let i = takeWhile is_digit s; f = drop (length i + 1) s
      in of_nat (read_base 10 i) + of_nat (read_base 10 f) / 10 ^ length f)"

section \<open>The program\<close>

definition create_city_parking_sql :: string where
  "create_city_parking_sql = ''CREATE TABLE IF NOT EXISTS city_parking (CITY TEXT, PRICE REAL);''"

definition insert_price_sql :: "string \<Rightarrow> rat \<Rightarrow> string" where
  "insert_price_sql city p =
     ''INSERT INTO city_parking (CITY , PRICE ) VALUES ('' @ quoted city @ '', '' @ fmt_f p @ '');''"

definition price_rows :: "(string \<times> rat) list" where
  "price_rows =
     [(''Ashkelon'', round64 (6 / 1000)), (''Jerusalem'', round64 (12 / 1000)),
      (''Petah-Tikva'', round64 (8 / 1000)), (''Herzliya'', round64 (10 / 1000))]"

text \<open>
  The program reports a failed call and goes on. The statements are built in a local array of
  1000 characters.
\<close>

fun insert_prices :: "('db, 'stmt) sqlite \<Rightarrow> (string \<times> rat) list \<Rightarrow> 'db \<Rightarrow> 'db option" where
  "insert_prices eng [] db = Some db"
| "insert_prices eng ((city, p) # rows) db = do {
     insert_query \<leftarrow> sprintf_local 1000 (insert_price_sql city p);
     let (rc, db) = sq_exec eng db insert_query;
     insert_prices eng rows db }"

definition price_db_main :: "('db, 'stmt) sqlite \<Rightarrow> 'db \<Rightarrow> 'db option" where
  "price_db_main eng db =
     (let (rc, db) = sq_exec eng db create_city_parking_sql in insert_prices eng price_rows db)"

section \<open>What SQLite does with these statements\<close>

locale price_contract =
  fixes eng :: "('db, 'stmt) sqlite"
    and prices :: "'db \<Rightarrow> (string \<times> rat) list"
    and healthy :: "'db \<Rightarrow> bool"
  assumes create_keeps: "sq_exec eng db create_city_parking_sql = (rc, db') \<Longrightarrow> healthy db \<Longrightarrow>
      healthy db' \<and> prices db' = prices db"
    and insert_price: "sq_exec eng db (insert_price_sql city p) = (rc, db') \<Longrightarrow> healthy db \<Longrightarrow> plain city \<Longrightarrow>
      healthy db' \<and> prices db' = prices db @ [(city, round64 (read_decimal (fmt_f p)))]"
begin

lemma insert_prices_eq:
  assumes "healthy db" and "\<forall>(city, p)\<in>set rows. plain city \<and> length (insert_price_sql city p) < 1000"
  shows "\<exists>db'. insert_prices eng rows db = Some db' \<and> healthy db' \<and>
    prices db' = prices db @ map (\<lambda>(city, p). (city, round64 (read_decimal (fmt_f p)))) rows"
  using assms
proof (induction rows arbitrary: db)
  case (Cons row rows)
  obtain city p where row: "row = (city, p)" by fastforce
  obtain rc db1 where x: "sq_exec eng db (insert_price_sql city p) = (rc, db1)" by fastforce
  have 1: "healthy db1" "prices db1 = prices db @ [(city, round64 (read_decimal (fmt_f p)))]"
    using insert_price [OF x] Cons.prems by (auto simp: row)
  obtain db2 where "insert_prices eng rows db1 = Some db2" "healthy db2"
    "prices db2 = prices db1 @ map (\<lambda>(city, p). (city, round64 (read_decimal (fmt_f p)))) rows"
    using Cons.IH [OF 1(1)] Cons.prems(2) by auto
  with x 1 Cons.prems(2) show ?case by (auto simp: row sprintf_local_def)
qed simp

end

text \<open>The printed prices, and the doubles they are read back as.\<close>

lemma round_half_even_near:
  assumes "\<bar>y - of_int n\<bar> < 1 / 2"
  shows "round_half_even y = n"
proof (cases "of_int n \<le> y")
  case True
  then have "\<lfloor>y\<rfloor> = n" using assms by (intro floor_unique) linarith+
  with True assms show ?thesis by (simp add: round_half_even_def)
next
  case False
  then have "\<lfloor>y\<rfloor> = n - 1" using assms by (intro floor_unique) (auto simp: abs_if split: if_splits)
  with False assms show ?thesis by (simp add: round_half_even_def)
qed

lemma fmt_f_thousandths:
  assumes "0 < k" and "k < 1000"
  shows "fmt_f (round64 (of_nat k / 1000)) = show_base 10 0 @ ''.'' @ pad 6 (show_base 10 (k * 1000))"
proof -
  let ?q = "of_nat k / 1000 :: rat"
  have "(2 :: rat) powi (- 1022) \<le> 2 powi (- 10)" by (rule power_int_increasing) simp_all
  also have "\<dots> \<le> \<bar>?q\<bar>" using assms(1) by (simp add: power_int_minus field_simps)
  finally have "\<bar>round64 ?q - ?q\<bar> \<le> \<bar>?q\<bar> / 2 ^ 53" by (rule round64_relative_error)
  also have "\<dots> < 1 / 2000000" using assms(2) by (simp add: field_simps)
  finally have "1000000 * \<bar>round64 ?q - ?q\<bar> < 1 / 2" by simp
  moreover have "round64 ?q * 1000000 - of_int (int k * 1000) = 1000000 * (round64 ?q - ?q)"
    by (simp add: algebra_simps)
  ultimately have "\<bar>round64 ?q * 1000000 - of_int (int k * 1000)\<bar> < 1 / 2" by (simp only: abs_mult)
  then have "round_half_even (round64 ?q * 1000000) = int k * 1000" by (rule round_half_even_near)
  moreover have "nat (int k * 1000) = k * 1000" by simp
  ultimately show ?thesis using assms(2) by (simp add: fmt_f_def)
qed

lemma show_base_10:
  "n < 10 \<Longrightarrow> show_base 10 n = [digit_char n]"
  "10 \<le> n \<Longrightarrow> show_base 10 n = show_base 10 (n div 10) @ [digit_char (n mod 10)]"
  by (subst show_base.simps, simp)+

lemma digit_chars_10:
  "digit_char 0 = CHR ''0''" "digit_char (Suc 0) = CHR ''1''" "digit_char 2 = CHR ''2''"
  "digit_char 6 = CHR ''6''" "digit_char 8 = CHR ''8''"
  by (simp_all add: digit_char_def)

lemma pad_6:
  "length s = 4 \<Longrightarrow> pad 6 s = CHR ''0'' # CHR ''0'' # s" "length s = 5 \<Longrightarrow> pad 6 s = CHR ''0'' # s"
  by (simp_all add: pad_def numeral_2_eq_2)

lemma printed_prices:
  "fmt_f (round64 (6 / 1000)) = ''0.006000''" "fmt_f (round64 (12 / 1000)) = ''0.012000''"
  "fmt_f (round64 (8 / 1000)) = ''0.008000''" "fmt_f (round64 (10 / 1000)) = ''0.010000''"
proof -
  have "show_base 10 0 @ ''.'' @ pad 6 (show_base 10 (6 * 1000)) = ''0.006000''"
    "show_base 10 0 @ ''.'' @ pad 6 (show_base 10 (12 * 1000)) = ''0.012000''"
    "show_base 10 0 @ ''.'' @ pad 6 (show_base 10 (8 * 1000)) = ''0.008000''"
    "show_base 10 0 @ ''.'' @ pad 6 (show_base 10 (10 * 1000)) = ''0.010000''"
    by (simp_all add: show_base_10 digit_chars_10 pad_6)
  then show "fmt_f (round64 (6 / 1000)) = ''0.006000''" "fmt_f (round64 (12 / 1000)) = ''0.012000''"
    "fmt_f (round64 (8 / 1000)) = ''0.008000''" "fmt_f (round64 (10 / 1000)) = ''0.010000''"
    using fmt_f_thousandths [of 6] fmt_f_thousandths [of 12] fmt_f_thousandths [of 8] fmt_f_thousandths [of 10]
    by simp_all
qed

lemma read_printed_prices:
  "read_decimal ''0.006000'' = 6 / 1000" "read_decimal ''0.012000'' = 12 / 1000"
  "read_decimal ''0.008000'' = 8 / 1000" "read_decimal ''0.010000'' = 10 / 1000"
  by (simp_all add: read_decimal_def is_digit_def read_base_def digit_val_def)

lemma prices_read_back: "map (\<lambda>(city, p). (city, round64 (read_decimal (fmt_f p)))) price_rows = price_rows"
  by (simp only: price_rows_def list.map prod.case printed_prices read_printed_prices)

section \<open>An engine that meets the contract\<close>

record price_db =
  pd_rows :: "(string \<times> rat) list"
  pd_broken :: bool

definition is_decimal :: "char \<Rightarrow> bool" where
  "is_decimal c \<longleftrightarrow> is_digit c \<or> c = CHR ''.''"

definition parse_insert_price :: "string \<Rightarrow> (string \<times> string) option" where
  "parse_insert_price s = do {
     s \<leftarrow> strip ''INSERT INTO city_parking (CITY , PRICE ) VALUES ('' s;
     (city, s) \<leftarrow> unquote s;
     s \<leftarrow> strip '', '' s;
     r \<leftarrow> strip '');'' (dropWhile is_decimal s);
     finish (city, takeWhile is_decimal s) r }"

definition price_exec :: "price_db \<Rightarrow> string \<Rightarrow> int32 \<times> price_db" where
  "price_exec db sql =
     (if pd_broken db then (SQLITE_IOERR, db)
      else if sql = create_city_parking_sql then (SQLITE_OK, db)
      else case parse_insert_price sql of
          None \<Rightarrow> (SQLITE_ERROR, db)
        | Some (city, text) \<Rightarrow> (SQLITE_OK, db\<lparr>pd_rows := pd_rows db @ [(city, round64 (read_decimal text))]\<rparr>))"

definition price_engine :: "(price_db, unit) sqlite" where
  "price_engine =
     \<lparr>sq_exec = price_exec, sq_prepare = (\<lambda>_ _. (SQLITE_ERROR, None)), sq_step = (\<lambda>_ _. (SQLITE_MISUSE, None)),
      sq_column_int = (\<lambda>_ _. 0), sq_column_double = (\<lambda>_ _. 0), sq_column_text = (\<lambda>_ _. None)\<rparr>"

abbreviation price_healthy :: "price_db \<Rightarrow> bool" where
  "price_healthy db \<equiv> \<not> pd_broken db"

lemma decimal_fmt_f: "c \<in> set (fmt_f p) \<Longrightarrow> is_decimal c"
proof -
  have "\<forall>c\<in>set (show_base 10 n). is_digit c" for n using is_digit_show by blast
  moreover have "is_digit (CHR ''0'')" by (simp add: is_digit_def)
  ultimately show "c \<in> set (fmt_f p) \<Longrightarrow> is_decimal c"
    by (auto simp: fmt_f_def pad_def is_decimal_def Let_def)
qed

lemma parse_insert_price_sql:
  assumes "plain city"
  shows "parse_insert_price (insert_price_sql city p) = Some (city, fmt_f p)"
proof -
  have "takeWhile is_decimal (fmt_f p @ '');'') = fmt_f p" "dropWhile is_decimal (fmt_f p @ '');'') = '');''"
    using decimal_fmt_f [of _ p]
    by (simp_all add: takeWhile_append2 dropWhile_append2 is_decimal_def is_digit_def)
  with assms show ?thesis by (simp add: parse_insert_price_def insert_price_sql_def finish_def)
qed

interpretation prices: price_contract price_engine pd_rows price_healthy
proof (unfold_locales, goal_cases)
  case (1 db rc db')
  then show ?case by (auto simp: price_engine_def price_exec_def)
next
  case (2 db city p rc db')
  have "insert_price_sql city p \<noteq> create_city_parking_sql"
    by (simp add: insert_price_sql_def create_city_parking_sql_def)
  with 2 show ?case by (auto simp: price_engine_def price_exec_def parse_insert_price_sql)
qed

section \<open>Properties\<close>

lemma price_rows_short: "\<forall>(city, p)\<in>set price_rows. plain city \<and> length (insert_price_sql city p) < 1000"
proof -
  have "length (fmt_f (round64 (6 / 1000))) = 8" "length (fmt_f (round64 (12 / 1000))) = 8"
    "length (fmt_f (round64 (8 / 1000))) = 8" "length (fmt_f (round64 (10 / 1000))) = 8"
    unfolding printed_prices by simp_all
  then show ?thesis by (auto simp: price_rows_def insert_price_sql_def quoted_def plain_def)
qed

lemma price_db_main_eq:
  assumes "price_contract eng prices healthy" and "healthy db"
  shows "\<exists>db'. price_db_main eng db = Some db' \<and> healthy db' \<and> prices db' = prices db @ price_rows"
proof -
  obtain rc db1 where x: "sq_exec eng db create_city_parking_sql = (rc, db1)" by fastforce
  then have 1: "healthy db1" "prices db1 = prices db"
    using price_contract.create_keeps [OF assms(1) x assms(2)] by simp_all
  from price_contract.insert_prices_eq [OF assms(1) 1(1) price_rows_short] x 1(2) prices_read_back
  show ?thesis by (simp add: price_db_main_def)
qed

fun run_price_db :: "('db, 'stmt) sqlite \<Rightarrow> nat \<Rightarrow> 'db \<Rightarrow> 'db option" where
  "run_price_db eng 0 db = Some db"
| "run_price_db eng (Suc k) db = price_db_main eng db \<bind> run_price_db eng k"

lemma run_price_db_eq:
  assumes "price_contract eng prices healthy" and "healthy db"
  shows "\<exists>db'. run_price_db eng k db = Some db' \<and> prices db' = prices db @ concat (replicate k price_rows)"
  using assms(2)
proof (induction k arbitrary: db)
  case (Suc k)
  obtain db1 where "price_db_main eng db = Some db1" "healthy db1" "prices db1 = prices db @ price_rows"
    using price_db_main_eq [OF assms(1) Suc.prems] by blast
  with Suc.IH [of db1] show ?case by auto
qed simp

text \<open>
  C32: every run of the price program adds the four rows once more; after any number of runs
  on an empty table the server still finds, for each city a client can be in, the price the
  program holds for it.
\<close>

theorem every_city_has_its_price:
  assumes "price_contract eng prices healthy" and "healthy db" and "prices db = []"
  shows "\<exists>db'. run_price_db eng (Suc k) db = Some db' \<and> length (prices db') = 4 * Suc k \<and>
    map (\<lambda>city. city_price (prices db') city old) cities =
      [round64 (6 / 1000), round64 (12 / 1000), round64 (8 / 1000), round64 (10 / 1000)]"
proof -
  obtain db' where "run_price_db eng (Suc k) db = Some db'"
    "prices db' = price_rows @ concat (replicate k price_rows)"
    using run_price_db_eq [OF assms(1,2), of "Suc k"] assms(3) by auto
  then show ?thesis
    by (auto simp: length_concat sum_list_replicate city_price_def cities_def price_rows_def)
qed

theorem every_city_has_its_price_witness:
  "\<exists>db'. run_price_db price_engine (Suc 2) \<lparr>pd_rows = [], pd_broken = False\<rparr> = Some db' \<and>
    length (pd_rows db') = 4 * Suc 2 \<and>
    map (\<lambda>city. city_price (pd_rows db') city 0) cities =
      [round64 (6 / 1000), round64 (12 / 1000), round64 (8 / 1000), round64 (10 / 1000)]"
  by (rule every_city_has_its_price [OF prices.price_contract_axioms]) simp_all

end
