(* ===== verification/Stm_Board.thy ===== *)
theory Stm_Board
  imports Crc8
begin

text \<open>
  The program of the STM board: \<open>PNG.c\<close>, \<open>pango_functions.c\<close>, \<open>random_number_generator.c\<close> and
  \<open>ethernet_communication.c\<close>. The functions of the vendor library (HAL) are not part of the
  repository: their results (status codes, random numbers, the bytes the UART receives, the
  MAC address in the Ethernet handle) are arguments.

  The main loop and the receive interrupt run interleaved. The loop body is cut into the
  atomic steps between which the interrupt can come; \<open>board_step\<close> is the step relation of the
  whole board.
\<close>

section \<open>Data\<close>

datatype hal_status = HAL_OK | HAL_ERROR | HAL_BUSY | HAL_TIMEOUT

definition ON :: byte where "ON = 1"
definition OFF :: byte where "OFF = 2"
definition RESTART :: byte where "RESTART = 3"
definition HARDWARE_ERROR :: byte where "HARDWARE_ERROR = 255"
definition BUFFER_SIZE_TO_SEND :: nat where "BUFFER_SIZE_TO_SEND = 10"
definition PLACE_FOR_CRC8_VALUE :: nat where "PLACE_FOR_CRC8_VALUE = BUFFER_SIZE_TO_SEND - 1"
definition AMOUNT_OF_DATA_FOR_CRC8_CHECKSUM_VALUE :: nat
  where "AMOUNT_OF_DATA_FOR_CRC8_CHECKSUM_VALUE = BUFFER_SIZE_TO_SEND - 1"
definition AMOUNT_OF_DATA_MINUS_ONE_ITERATION :: nat where "AMOUNT_OF_DATA_MINUS_ONE_ITERATION = 8"
definition MAC_ADDRESS_LENGTH :: nat where "MAC_ADDRESS_LENGTH = 6"

lemmas stm_defs = ON_def OFF_def RESTART_def HARDWARE_ERROR_def BUFFER_SIZE_TO_SEND_def
  PLACE_FOR_CRC8_VALUE_def AMOUNT_OF_DATA_FOR_CRC8_CHECKSUM_VALUE_def
  AMOUNT_OF_DATA_MINUS_ONE_ITERATION_def MAC_ADDRESS_LENGTH_def

record pango_client_data =
  cd_status :: byte
  cd_mac_address :: "byte list"
  x_coor :: byte
  y_coor :: byte

section \<open>Packing a frame\<close>

definition put :: "byte list \<Rightarrow> nat \<Rightarrow> byte \<Rightarrow> byte list option" where
  "put buf i b = (if i < length buf then Some (buf[i := b]) else None)"

function pack_loop :: "pango_client_data \<Rightarrow> nat \<Rightarrow> byte list \<Rightarrow> byte list option" where
  "pack_loop client_data i buffer_to_send =
     (if i < AMOUNT_OF_DATA_MINUS_ONE_ITERATION
      then do {
        buffer_to_send \<leftarrow>
          (if i = 0 then put buffer_to_send i (cd_status client_data)
           else if 0 < i \<and> i < 7
           then (if i - 1 < length (cd_mac_address client_data)
                 then put buffer_to_send i (cd_mac_address client_data ! (i - 1)) else None)
           else do {
             b \<leftarrow> put buffer_to_send i (x_coor client_data);
             put b (i + 1) (y_coor client_data) });
        pack_loop client_data (i + 1) buffer_to_send }
      else Some buffer_to_send)"
  by pat_completeness auto
termination
  by (relation "measure (\<lambda>(_, i, _). AMOUNT_OF_DATA_MINUS_ONE_ITERATION - i)") auto

declare pack_loop.simps [simp del]

definition pack_pango_buffer :: "pango_client_data \<Rightarrow> byte list \<Rightarrow> byte list option" where
  "pack_pango_buffer client_data buffer_to_send = pack_loop client_data 0 buffer_to_send"

lemma pack_pango_buffer_eq:
  assumes "length (cd_mac_address d) = 6" and "length buf = 10"
  shows "pack_pango_buffer d buf =
    Some (cd_status d # cd_mac_address d @ [x_coor d, y_coor d, buf ! 9])"
proof -
  obtain m0 m1 m2 m3 m4 m5 where m: "cd_mac_address d = [m0, m1, m2, m3, m4, m5]"
    using assms(1) by (auto simp: length_Suc_conv eval_nat_numeral)
  obtain b0 b1 b2 b3 b4 b5 b6 b7 b8 b9 where b: "buf = [b0, b1, b2, b3, b4, b5, b6, b7, b8, b9]"
    using assms(2) by (auto simp: length_Suc_conv eval_nat_numeral)
  show ?thesis
    unfolding pack_pango_buffer_def b by (simp add: pack_loop.simps m put_def stm_defs)
qed

section \<open>Coordinates and MAC address\<close>

text \<open>
  \<open>Error_Handler\<close> never returns: \<open>None\<close>. The random number generator gives a status and a
  32-bit number.
\<close>

definition rand_uint128 :: "hal_status \<times> uint32 \<Rightarrow> uint32 option" where
  "rand_uint128 r =
     (case r of (status, num) \<Rightarrow>
        if status \<noteq> HAL_OK then None else Some (ucast (ucast (num mod 128) :: byte)))"

definition get_coordinates ::
    "hal_status \<times> uint32 \<Rightarrow> hal_status \<times> uint32 \<Rightarrow> pango_client_data \<Rightarrow> pango_client_data option" where
  "get_coordinates r1 r2 client_data = do {
     temp \<leftarrow> rand_uint128 r1;
     let client_data = client_data\<lparr>x_coor := ucast temp\<rparr>;
     temp \<leftarrow> rand_uint128 r2;
     Some (client_data\<lparr>y_coor := ucast temp\<rparr>) }"

function mac_copy :: "byte list \<Rightarrow> nat \<Rightarrow> byte list \<Rightarrow> byte list option" where
  "mac_copy mac_addr i mac_address_array =
     (if i < MAC_ADDRESS_LENGTH
      then if i < length mac_addr
        then do {
          mac_address_array \<leftarrow> put mac_address_array i (mac_addr ! i);
          mac_copy mac_addr (i + 1) mac_address_array }
        else None
      else Some mac_address_array)"
  by pat_completeness auto
termination by (relation "measure (\<lambda>(_, i, _). MAC_ADDRESS_LENGTH - i)") auto

declare mac_copy.simps [simp del]

definition get_mac_address :: "hal_status \<Rightarrow> byte list \<Rightarrow> byte list \<Rightarrow> byte list option" where
  "get_mac_address status mac_addr mac_address_array =
     (if status \<noteq> HAL_OK then None else mac_copy mac_addr 0 mac_address_array)"

lemma get_mac_address_eq:
  assumes "length mac = 6" and "length arr = 6"
  shows "get_mac_address HAL_OK mac arr = Some mac"
proof -
  obtain m0 m1 m2 m3 m4 m5 where m: "mac = [m0, m1, m2, m3, m4, m5]"
    using assms(1) by (auto simp: length_Suc_conv eval_nat_numeral)
  obtain b0 b1 b2 b3 b4 b5 where b: "arr = [b0, b1, b2, b3, b4, b5]"
    using assms(2) by (auto simp: length_Suc_conv eval_nat_numeral)
  show ?thesis unfolding get_mac_address_def m b by (simp add: mac_copy.simps put_def stm_defs)
qed

lemma byte_there_and_back: "(ucast (ucast b :: uint32) :: byte) = b"
  by (rule bit_word_eqI) (auto simp: bit_simps)

lemma rand_uint128_bound: "rand_uint128 r = Some n \<Longrightarrow> unat (ucast n :: byte) \<le> 127"
proof -
  assume a: "rand_uint128 r = Some n"
  obtain st num where r: "r = (st, num)" by fastforce
  have "unat (num mod 128) < 128" by (simp add: unat_mod_distrib)
  then have "unat (ucast (num mod 128) :: byte) \<le> 127"
    by (simp add: unsigned_ucast_eq take_bit_eq_mod)
  moreover have "(ucast n :: byte) = ucast (num mod 128)"
    using a by (auto simp: rand_uint128_def r byte_there_and_back split: if_splits)
  ultimately show ?thesis by simp
qed

lemma get_coordinates_bound:
  assumes "get_coordinates r1 r2 d = Some d'"
  shows "unat (x_coor d') \<le> 127" and "unat (y_coor d') \<le> 127"
    and "cd_status d' = cd_status d" and "cd_mac_address d' = cd_mac_address d"
  using assms rand_uint128_bound [of r1] rand_uint128_bound [of r2]
  by (auto simp: get_coordinates_def split: Option.bind_splits)

section \<open>The board\<close>

text \<open>
  Where the main loop is: each constructor is the next thing \<open>main_PNG\<close> does. \<open>Halted\<close> is the
  endless loop of \<open>Error_Handler\<close>, \<open>Reset\<close> the system reset and \<open>Stopped\<close> the call of \<open>exit\<close>.
  The output of the UART is in two fields: \<open>b_sent\<close> holds what the main loop transmits from its
  buffer, \<open>b_stray\<close> the absolute addresses from which the interrupt transmits one byte.
\<close>

datatype pc = Test_flag | Test_restart | Coordinates | Pack | Checksum | Transmit | Rearm | Clear_flag
  | Halted | Reset | Stopped

record board =
  b_pc :: pc
  b_data :: pango_client_data
  b_flag :: byte
  b_wrong_status :: byte
  b_buff :: "byte list"
  b_armed :: bool
  b_sent :: "byte list list"
  b_stray :: "byte list"

definition running :: "board \<Rightarrow> bool" where
  "running b \<longleftrightarrow> b_pc b \<notin> {Halted, Reset, Stopped}"

text \<open>The part of \<open>main_PNG\<close> before its loop.\<close>

definition main_PNG_init :: "hal_status \<Rightarrow> byte list \<Rightarrow> hal_status \<Rightarrow> board option" where
  "main_PNG_init eth_status mac_addr receive_status = do {
     let data = \<lparr>cd_status = 0, cd_mac_address = replicate 6 0, x_coor = 0, y_coor = 0\<rparr>;
     mac \<leftarrow> get_mac_address eth_status mac_addr (cd_mac_address data);
     Some \<lparr>b_pc = (if receive_status \<noteq> HAL_OK then Stopped else Test_flag),
       b_data = data\<lparr>cd_mac_address := mac\<rparr>, b_flag = OFF, b_wrong_status = 1,
       b_buff = replicate BUFFER_SIZE_TO_SEND 0, b_armed = (receive_status = HAL_OK), b_sent = [],
       b_stray = []\<rparr> }"

text \<open>
  The results of the HAL calls of one pass through the loop: two random numbers, the
  transmission and the re-arming of the receiver.
\<close>

record hal =
  h_random :: "(hal_status \<times> uint32) \<times> (hal_status \<times> uint32)"
  h_transmit :: hal_status
  h_receive :: hal_status

definition main_PNG_step :: "hal \<Rightarrow> board \<Rightarrow> board option" where
  "main_PNG_step h b =
     (case b_pc b of
        Test_flag \<Rightarrow> Some (if b_flag b = ON then b\<lparr>b_pc := Test_restart\<rparr> else b)
      | Test_restart \<Rightarrow>
          Some (b\<lparr>b_pc := if cd_status (b_data b) = RESTART then Reset else Coordinates\<rparr>)
      | Coordinates \<Rightarrow>
          Some (case get_coordinates (fst (h_random h)) (snd (h_random h)) (b_data b) of
              Some d \<Rightarrow> b\<lparr>b_data := d, b_pc := Pack\<rparr>
            | None \<Rightarrow> b\<lparr>b_pc := Halted\<rparr>)
      | Pack \<Rightarrow> do {
          buff \<leftarrow> pack_pango_buffer (b_data b) (b_buff b);
          Some (b\<lparr>b_buff := buff, b_pc := Checksum\<rparr>) }
      | Checksum \<Rightarrow> do {
          crc \<leftarrow> stm_calculate_crc8 (b_buff b) AMOUNT_OF_DATA_FOR_CRC8_CHECKSUM_VALUE;
          buff \<leftarrow> put (b_buff b) PLACE_FOR_CRC8_VALUE crc;
          Some (b\<lparr>b_buff := buff, b_pc := Transmit\<rparr>) }
      | Transmit \<Rightarrow>
          Some (if h_transmit h \<noteq> HAL_OK then b\<lparr>b_pc := Reset\<rparr>
                else b\<lparr>b_sent := b_sent b @ [b_buff b], b_pc := Rearm\<rparr>)
      | Rearm \<Rightarrow>
          Some (if h_receive h \<noteq> HAL_OK then b\<lparr>b_pc := Stopped\<rparr>
                else b\<lparr>b_armed := True, b_pc := Clear_flag\<rparr>)
      | Clear_flag \<Rightarrow> Some (b\<lparr>b_flag := OFF, b_pc := Test_flag\<rparr>)
      | _ \<Rightarrow> Some b)"

text \<open>
  The interrupt: the HAL has stored the byte in the status field and disarmed the receiver.
  The first branch means to transmit the error value 255, but passes that number as the address of
  the data: the UART gets the one byte that lies at address 255, outside of every object of the
  program (undefined in C, a plain read of memory on this target). Its value is unknown, so the
  model records the address. Then the board is in \<open>Error_Handler\<close>, whatever the transmission returns.
\<close>

definition HAL_UART_RxCpltCallback :: "hal_status \<Rightarrow> board \<Rightarrow> board" where
  "HAL_UART_RxCpltCallback receive_status b =
     (if unat (b_wrong_status b) mod 5 = 0
      then
        let hardware_error = HARDWARE_ERROR;
            b = b\<lparr>b_stray := b_stray b @ [hardware_error]\<rparr>
        in b\<lparr>b_pc := Halted\<rparr>
      else if cd_status (b_data b) = ON then b\<lparr>b_flag := ON\<rparr>
      else if cd_status (b_data b) = OFF then b\<lparr>b_flag := ON\<rparr>
      else if cd_status (b_data b) = RESTART then b\<lparr>b_flag := ON\<rparr>
      else
        let b = b\<lparr>b_wrong_status := b_wrong_status b + 1\<rparr>;
            b = b\<lparr>b_flag := OFF\<rparr>
        in if receive_status \<noteq> HAL_OK then b\<lparr>b_pc := Stopped\<rparr> else b\<lparr>b_armed := True\<rparr>)"

definition receive_byte :: "byte \<Rightarrow> hal_status \<Rightarrow> board \<Rightarrow> board" where
  "receive_byte s receive_status b =
     HAL_UART_RxCpltCallback receive_status (b\<lparr>b_data := (b_data b)\<lparr>cd_status := s\<rparr>, b_armed := False\<rparr>)"

inductive board_step :: "board \<Rightarrow> board \<Rightarrow> bool" where
  main_step: "running b \<Longrightarrow> main_PNG_step h b = Some b' \<Longrightarrow> board_step b b'"
| interrupt: "running b \<Longrightarrow> b_armed b \<Longrightarrow> board_step b (receive_byte s rc b)"

inductive_cases board_stepE: "board_step b b'"

inductive reachable :: "byte list \<Rightarrow> board \<Rightarrow> bool" for mac where
  init: "main_PNG_init HAL_OK mac rc = Some b \<Longrightarrow> reachable mac b"
| step: "reachable mac b \<Longrightarrow> board_step b b' \<Longrightarrow> reachable mac b'"

section \<open>Invariant\<close>

text \<open>A frame that the rest of the system can rely on.\<close>

definition good_frame :: "byte list \<Rightarrow> byte list \<Rightarrow> bool" where
  "good_frame mac f \<longleftrightarrow>
     length f = 10 \<and> frame_ok f \<and> f ! 0 \<in> {ON, OFF} \<and> take 6 (drop 1 f) = mac \<and>
     unat (f ! 7) \<le> 127 \<and> unat (f ! 8) \<le> 127"

text \<open>
  While a request is served the receiver is not armed, so the data cannot change under the
  main loop; each position adds what the steps before it have established.
\<close>

definition board_inv :: "byte list \<Rightarrow> board \<Rightarrow> bool" where
  "board_inv mac b \<longleftrightarrow>
     cd_mac_address (b_data b) = mac \<and> length (b_buff b) = 10 \<and> list_all (good_frame mac) (b_sent b) \<and>
     (b_stray b = [] \<or> b_stray b = [HARDWARE_ERROR] \<and> b_pc b = Halted) \<and>
     (b_flag b = ON \<and> b_pc b = Test_flag \<longrightarrow> \<not> b_armed b \<and> cd_status (b_data b) \<in> {ON, OFF, RESTART}) \<and>
     (b_pc b = Test_restart \<longrightarrow> \<not> b_armed b \<and> cd_status (b_data b) \<in> {ON, OFF, RESTART}) \<and>
     (b_pc b \<in> {Coordinates, Pack, Checksum, Transmit, Rearm} \<longrightarrow>
        \<not> b_armed b \<and> cd_status (b_data b) \<in> {ON, OFF}) \<and>
     (b_pc b \<in> {Pack, Checksum} \<longrightarrow> unat (x_coor (b_data b)) \<le> 127 \<and> unat (y_coor (b_data b)) \<le> 127) \<and>
     (b_pc b = Checksum \<longrightarrow> take 9 (b_buff b) =
        cd_status (b_data b) # mac @ [x_coor (b_data b), y_coor (b_data b)]) \<and>
     (b_pc b = Transmit \<longrightarrow> good_frame mac (b_buff b))"

lemma receive_byte_inv:
  assumes "board_inv mac b" and "b_armed b" and "running b"
  shows "board_inv mac (receive_byte s rc b)"
proof -
  have "b_pc b = Test_flag \<or> b_pc b = Clear_flag"
    using assms by (cases "b_pc b") (auto simp: board_inv_def running_def)
  with assms show ?thesis
    by (auto simp: board_inv_def receive_byte_def HAL_UART_RxCpltCallback_def stm_defs Let_def)
qed

lemma checksum_frame:
  assumes "length buf = 10" and "take 9 buf = st # mac @ [x, y]" and "length mac = 6" and "st \<in> {ON, OFF}"
    and "unat x \<le> 127" and "unat y \<le> 127"
  shows "good_frame mac (buf[9 := crc8 (take 9 buf)])"
proof -
  obtain m0 m1 m2 m3 m4 m5 where m: "mac = [m0, m1, m2, m3, m4, m5]"
    using assms(3) by (auto simp: length_Suc_conv eval_nat_numeral)
  obtain b0 b1 b2 b3 b4 b5 b6 b7 b8 b9 where b: "buf = [b0, b1, b2, b3, b4, b5, b6, b7, b8, b9]"
    using assms(1) by (auto simp: length_Suc_conv eval_nat_numeral)
  show ?thesis using assms(2,4-6) unfolding m b by (auto simp: good_frame_def frame_ok_def)
qed

lemma main_step_inv:
  assumes "board_inv mac b" and "main_PNG_step h b = Some b'" and "length mac = 6"
  shows "board_inv mac b'"
proof (cases "b_pc b")
  case Coordinates
  show ?thesis
  proof (cases "get_coordinates (fst (h_random h)) (snd (h_random h)) (b_data b)")
    case None
    then have "b' = b\<lparr>b_pc := Halted\<rparr>" using Coordinates assms(2) by (simp add: main_PNG_step_def)
    with Coordinates assms(1) show ?thesis by (auto simp add: board_inv_def)
  next
    case (Some d)
    then have "b' = b\<lparr>b_data := d, b_pc := Pack\<rparr>" using Coordinates assms(2) by (simp add: main_PNG_step_def)
    with Coordinates assms(1) get_coordinates_bound [OF Some] show ?thesis by (simp add: board_inv_def)
  qed
next
  case Pack
  then obtain d where d: "b_data b = d" "length (cd_mac_address d) = 6" "length (b_buff b) = 10"
    using assms(1,3) by (auto simp: board_inv_def)
  then have "b' = b\<lparr>b_buff := cd_status d # cd_mac_address d @ [x_coor d, y_coor d, b_buff b ! 9], b_pc := Checksum\<rparr>"
    using Pack assms(2) pack_pango_buffer_eq by (simp add: main_PNG_step_def)
  with Pack assms(1) d show ?thesis by (auto simp: board_inv_def)
next
  case Checksum
  have len: "length (b_buff b) = 10" using assms(1) by (simp add: board_inv_def)
  then have b': "b' = b\<lparr>b_buff := (b_buff b)[9 := crc8 (take 9 (b_buff b))], b_pc := Transmit\<rparr>"
    using Checksum assms(2) by (simp add: main_PNG_step_def stm_crc.crc_ref stm_defs put_def)
  have "good_frame mac ((b_buff b)[9 := crc8 (take 9 (b_buff b))])"
    using Checksum assms(1,3) by (intro checksum_frame) (auto simp: board_inv_def)
  with Checksum assms(1) len show ?thesis unfolding b' by (auto simp: board_inv_def)
qed (use assms in \<open>auto simp: board_inv_def main_PNG_step_def stm_defs split: if_splits\<close>)

lemma init_inv:
  assumes "main_PNG_init HAL_OK mac rc = Some b" and "length mac = 6"
  shows "board_inv mac b"
  using assms get_mac_address_eq [of mac "replicate 6 0"]
  by (cases "rc = HAL_OK") (auto simp: main_PNG_init_def board_inv_def stm_defs)

lemma reachable_inv:
  assumes "reachable mac b" and "length mac = 6"
  shows "board_inv mac b"
  using assms
proof (induction rule: reachable.induct)
  case (init rc b)
  then show ?case using init_inv by blast
next
  case (step b b')
  then show ?case using main_step_inv receive_byte_inv by (auto elim: board_stepE)
qed

text \<open>No step of the main loop faults: the buffers are always long enough.\<close>

lemma main_step_total:
  assumes "board_inv mac b" and "length mac = 6"
  shows "\<exists>b'. main_PNG_step h b = Some b'"
proof -
  have "pack_pango_buffer (b_data b) (b_buff b) \<noteq> None" and len: "length (b_buff b) = 10"
    using assms pack_pango_buffer_eq [of "b_data b" "b_buff b"] by (auto simp: board_inv_def)
  then show ?thesis
    by (cases "b_pc b") (auto simp: main_PNG_step_def stm_crc.crc_ref stm_defs put_def)
qed

section \<open>Running the main loop\<close>

fun run_main :: "hal list \<Rightarrow> board \<Rightarrow> board option" where
  "run_main [] b = Some b"
| "run_main (h # hs) b = (if running b then main_PNG_step h b \<bind> run_main hs else None)"

lemma reachable_run:
  "run_main hs b = Some b' \<Longrightarrow> reachable mac b \<Longrightarrow> reachable mac b'"
proof (induction hs arbitrary: b)
  case (Cons h hs)
  then obtain b1 where "running b" "main_PNG_step h b = Some b1" "run_main hs b1 = Some b'"
    by (auto split: if_splits Option.bind_splits)
  with Cons show ?case using reachable.step board_step.main_step by blast
qed simp

definition hal_ok :: "hal \<Rightarrow> bool" where
  "hal_ok h \<longleftrightarrow> fst (fst (h_random h)) = HAL_OK \<and> fst (snd (h_random h)) = HAL_OK \<and>
     h_transmit h = HAL_OK \<and> h_receive h = HAL_OK"

definition demo_hal :: hal where
  "demo_hal = \<lparr>h_random = ((HAL_OK, 1000), (HAL_OK, 77)), h_transmit = HAL_OK, h_receive = HAL_OK\<rparr>"

definition demo_mac :: "byte list" where
  "demo_mac = [2, 0x80, 0xE1, 0, 0, 7]"

definition demo_board :: board where
  "demo_board = the (main_PNG_init HAL_OK demo_mac HAL_OK)"

lemma demo_board_init: "main_PNG_init HAL_OK demo_mac HAL_OK = Some demo_board"
  using get_mac_address_eq [of demo_mac "replicate 6 0"]
  by (simp add: demo_board_def main_PNG_init_def demo_mac_def)

lemma demo_board_fields: "b_pc demo_board = Test_flag" "b_armed demo_board" "b_flag demo_board = OFF"
  "b_wrong_status demo_board = 1"
  using get_mac_address_eq [of demo_mac "replicate 6 0"]
  by (simp_all add: demo_board_def main_PNG_init_def demo_mac_def)

lemma demo_board_reachable: "reachable demo_mac demo_board"
  using demo_board_init by (rule reachable.init)

text \<open>The board after its first answer: the receiver is armed, the flag not yet cleared.\<close>

definition demo_served :: board where
  "demo_served = the (run_main (replicate 7 demo_hal) (receive_byte ON HAL_OK demo_board))"

lemma demo_served_run: "run_main (replicate 7 demo_hal) (receive_byte ON HAL_OK demo_board) = Some demo_served"
  and demo_served_fields: "b_pc demo_served = Clear_flag" "b_armed demo_served" "b_wrong_status demo_served = 1"
    "b_sent demo_served \<noteq> []"
  by code_simp+

lemma demo_served_reachable: "reachable demo_mac demo_served"
proof -
  have "running demo_board" by (simp add: running_def demo_board_fields)
  then have "reachable demo_mac (receive_byte ON HAL_OK demo_board)"
    using demo_board_reachable demo_board_fields(2) by (blast intro: reachable.step board_step.interrupt)
  with reachable_run [OF demo_served_run] show ?thesis by blast
qed

section \<open>Properties\<close>

text \<open>
  C10: however interrupts and the main loop interleave, every frame the main loop sends to the
  BBB has a valid checksum, status on or off, the MAC address of the board and coordinates of
  at most 127; and no step of the main loop leaves its buffers. The interrupt never touches the
  frame buffer and sends nothing, with one exception: when the counter of unknown bytes is a multiple
  of five it transmits the single byte at address 255, which is no part of a frame and lies
  outside of every buffer. This is the last thing the board ever sends: it is halted.
\<close>

theorem board_sends_good_frames:
  assumes "reachable mac b" and "length mac = 6"
  shows "list_all (good_frame mac) (b_sent b) \<and> length (b_buff b) = 10 \<and> (\<exists>b'. main_PNG_step h b = Some b') \<and>
    (b_stray b = [] \<or> b_stray b = [HARDWARE_ERROR] \<and> b_pc b = Halted) \<and>
    (running b \<and> b_armed b \<longrightarrow>
      b_sent (receive_byte s rc b) = b_sent b \<and> b_buff (receive_byte s rc b) = b_buff b \<and>
      (if unat (b_wrong_status b) mod 5 = 0
       then b_stray (receive_byte s rc b) = [HARDWARE_ERROR] \<and> b_pc (receive_byte s rc b) = Halted
       else b_stray (receive_byte s rc b) = []))"
proof -
  have inv: "board_inv mac b" by (rule reachable_inv [OF assms])
  then have "running b \<Longrightarrow> b_stray b = []" by (auto simp: board_inv_def running_def)
  then show ?thesis using inv main_step_total [OF inv assms(2), of h]
    by (auto simp: board_inv_def receive_byte_def HAL_UART_RxCpltCallback_def Let_def)
qed

theorem board_sends_good_frames_witness:
  "list_all (good_frame demo_mac) (b_sent demo_served) \<and> b_sent demo_served \<noteq> [] \<and>
    (\<exists>b'. main_PNG_step demo_hal demo_served = Some b') \<and> b_stray (receive_byte 77 HAL_OK demo_served) = []"
proof -
  have "running demo_served" "b_armed demo_served" "unat (b_wrong_status demo_served) mod 5 \<noteq> 0"
    by (simp_all add: running_def demo_served_fields)
  then show ?thesis
    using board_sends_good_frames [OF demo_served_reachable, of demo_hal 77 HAL_OK] demo_served_fields(4)
    by (simp add: demo_mac_def)
qed

text \<open>A board that waits with its receiver armed, and whose counter of unknown bytes has not run out.\<close>

definition waiting :: "board \<Rightarrow> bool" where
  "waiting b \<longleftrightarrow> b_pc b = Test_flag \<and> b_armed b \<and> unat (b_wrong_status b) mod 5 \<noteq> 0"

lemma board_answers:
  assumes "reachable mac b" and "length mac = 6" and "waiting b" and "s \<in> {ON, OFF}" and "hal_ok h"
  shows "\<exists>f b'. run_main (replicate 8 h) (receive_byte s rc b) = Some b' \<and>
    b_sent b' = b_sent b @ [f] \<and> good_frame mac f \<and> f ! 0 = s \<and> reachable mac b' \<and> waiting b' \<and> b_flag b' = OFF"
proof -
  let ?r = "receive_byte s rc b"
  have b: "b_pc b = Test_flag" "b_armed b" "unat (b_wrong_status b) mod 5 \<noteq> 0" using assms(3) by (simp_all add: waiting_def)
  have inv: "cd_mac_address (b_data b) = mac" "length (b_buff b) = 10"
    using reachable_inv [OF assms(1,2)] by (simp_all add: board_inv_def)
  have r: "?r = b\<lparr>b_data := (b_data b)\<lparr>cd_status := s\<rparr>, b_armed := False, b_flag := ON\<rparr>"
    using b(3) assms(4) by (auto simp: receive_byte_def HAL_UART_RxCpltCallback_def)
  obtain x y where xy: "h_random h = ((HAL_OK, x), (HAL_OK, y))"
    using assms(5) by (cases "h_random h") (auto simp: hal_ok_def)
  obtain d where d: "get_coordinates (HAL_OK, x) (HAL_OK, y) ((b_data b)\<lparr>cd_status := s\<rparr>) = Some d"
    by (simp add: get_coordinates_def rand_uint128_def)
  note dp = get_coordinates_bound [OF d]
  define f where "f = (s # mac @ [x_coor d, y_coor d, b_buff b ! 9])[9 := crc8 (s # mac @ [x_coor d, y_coor d])]"
  have pk: "pack_pango_buffer d (b_buff b) = Some (s # mac @ [x_coor d, y_coor d, b_buff b ! 9])"
    using pack_pango_buffer_eq [of d "b_buff b"] dp(3,4) inv assms(2) by simp
  have good: "good_frame mac f" using checksum_frame [of "s # mac @ [x_coor d, y_coor d, b_buff b ! 9]" s mac] dp assms(2,4)
    by (simp add: f_def)
  have run: "run_main (replicate 8 h) ?r = Some (?r\<lparr>b_data := d, b_buff := f, b_sent := b_sent b @ [f],
      b_armed := True, b_flag := OFF, b_pc := Test_flag\<rparr>)"
    using assms(2,4,5) b(1) xy d pk unfolding r
    by (auto simp: eval_nat_numeral running_def main_PNG_step_def hal_ok_def stm_defs stm_crc.crc_ref put_def f_def)
  have "running b" using b(1) by (simp add: running_def)
  then have "reachable mac ?r" using assms(1) b(2) by (blast intro: reachable.step board_step.interrupt)
  from reachable_run [OF run this] run good b r show ?thesis by (auto simp: f_def waiting_def)
qed

text \<open>
  C23: a board that waits with its receiver armed answers a status byte on or off within eight
  steps of its main loop, when the peripherals work and no other byte arrives: it sends one
  frame, good and with that status, and waits again with its receiver armed.
\<close>

theorem board_answers_request:
  assumes "reachable mac b" and "length mac = 6"
    and "b_pc b = Test_flag" and "b_armed b" and "unat (b_wrong_status b) mod 5 \<noteq> 0"
    and "s \<in> {ON, OFF}" and "hal_ok h"
  shows "\<exists>f b'. run_main (replicate 8 h) (receive_byte s rc b) = Some b' \<and>
    b_sent b' = b_sent b @ [f] \<and> good_frame mac f \<and> f ! 0 = s \<and>
    b_pc b' = Test_flag \<and> b_armed b' \<and> b_flag b' = OFF"
proof -
  have "waiting b" using assms(3-5) by (simp add: waiting_def)
  from board_answers [OF assms(1,2) this assms(6,7), of rc] show ?thesis by (auto simp: waiting_def)
qed

theorem board_answers_request_witness:
  "\<exists>f b'. run_main (replicate 8 demo_hal) (receive_byte ON HAL_OK demo_board) = Some b' \<and>
    b_sent b' = b_sent demo_board @ [f] \<and> good_frame demo_mac f \<and> f ! 0 = ON \<and>
    b_pc b' = Test_flag \<and> b_armed b' \<and> b_flag b' = OFF"
  by (rule board_answers_request [OF demo_board_reachable])
     (simp_all add: demo_mac_def demo_board_fields hal_ok_def demo_hal_def)

definition deaf :: "board \<Rightarrow> bool" where
  "deaf b \<longleftrightarrow> running b \<and> (\<forall>b'. board_step b b' \<longrightarrow> b' = b)"

lemma deaf_state: "b_pc b = Test_flag \<Longrightarrow> b_flag b = OFF \<Longrightarrow> \<not> b_armed b \<Longrightarrow> deaf b"
  by (auto simp: deaf_def running_def main_PNG_step_def stm_defs elim!: board_stepE)

text \<open>
  C29: a status byte that arrives after the receiver is armed again and before the main loop
  has cleared its flag is lost, and the board is deaf from then on: it still runs, but no
  step ever changes its state.
\<close>

theorem early_byte_deafens_the_board:
  assumes "reachable mac b" and "b_pc b = Clear_flag" and "b_armed b"
    and "unat (b_wrong_status b) mod 5 \<noteq> 0" and "s \<in> {ON, OFF, RESTART}"
  shows "\<exists>b'. main_PNG_step h (receive_byte s rc b) = Some b' \<and> reachable mac b' \<and> deaf b'"
proof -
  let ?r = "receive_byte s rc b"
  have r: "?r = b\<lparr>b_data := (b_data b)\<lparr>cd_status := s\<rparr>, b_armed := False, b_flag := ON\<rparr>"
    using assms(4,5) by (auto simp: receive_byte_def HAL_UART_RxCpltCallback_def)
  have run: "running b" "running ?r" using assms(2) by (simp_all add: running_def r)
  let ?d = "?r\<lparr>b_flag := OFF, b_pc := Test_flag\<rparr>"
  have st: "main_PNG_step h ?r = Some ?d" using assms(2) by (simp add: main_PNG_step_def r)
  have "reachable mac ?r" using assms(1,3) run(1) by (blast intro: reachable.step board_step.interrupt)
  then have "reachable mac ?d" using st run(2) by (blast intro: reachable.step board_step.main_step)
  moreover have "deaf ?d" by (rule deaf_state) (simp_all add: r)
  ultimately show ?thesis using st by blast
qed

theorem early_byte_deafens_the_board_witness:
  "\<exists>b'. main_PNG_step demo_hal (receive_byte OFF HAL_OK demo_served) = Some b' \<and> reachable demo_mac b' \<and> deaf b'"
  by (rule early_byte_deafens_the_board [OF demo_served_reachable]) (simp_all add: demo_served_fields)

definition receive_bytes :: "byte list \<Rightarrow> board \<Rightarrow> board" where
  "receive_bytes bs b = foldl (\<lambda>b s. receive_byte s HAL_OK b) b bs"

lemma unknown_bytes:
  assumes "\<forall>s\<in>set us. s \<notin> {ON, OFF, RESTART}" and "b_wrong_status b = 1" and "length us \<le> 4"
  shows "b_wrong_status (receive_bytes us b) = 1 + of_nat (length us) \<and> b_pc (receive_bytes us b) = b_pc b"
  using assms(1,3)
proof (induction us rule: rev_induct)
  case Nil
  then show ?case using assms(2) by (simp add: receive_bytes_def)
next
  case (snoc u us)
  let ?b = "receive_bytes us b"
  have ih: "b_wrong_status ?b = 1 + of_nat (length us)" "b_pc ?b = b_pc b" using snoc by auto
  have "length us < 4" using snoc.prems(2) by simp
  then have "length us \<in> {0, 1, 2, 3}" by (simp add: less_Suc_eq numeral_eq_Suc)
  then have "unat (b_wrong_status ?b) = 1 + length us" unfolding ih(1) by auto
  then have "unat (b_wrong_status ?b) mod 5 \<noteq> 0" using snoc.prems(2) by simp
  then have "receive_byte u HAL_OK ?b = ?b\<lparr>b_data := (b_data ?b)\<lparr>cd_status := u\<rparr>,
      b_wrong_status := b_wrong_status ?b + 1, b_flag := OFF, b_armed := True\<rparr>"
    using snoc.prems(1) by (simp add: receive_byte_def HAL_UART_RxCpltCallback_def)
  with ih show ?case by (simp add: receive_bytes_def)
qed

text \<open>
  C37: unknown status bytes are counted and never forgotten; after four of them the next byte,
  even a valid one, halts the board.
\<close>

theorem fifth_byte_after_four_unknown_halts:
  assumes "\<forall>s\<in>set us. s \<notin> {ON, OFF, RESTART}" and "b_wrong_status b = 1" and "length us = 4" and "running b"
  shows "running (receive_bytes us b) \<and> b_pc (receive_byte s rc (receive_bytes us b)) = Halted"
  using unknown_bytes [OF assms(1,2)] assms(3,4)
  by (simp add: receive_byte_def HAL_UART_RxCpltCallback_def running_def)

theorem fifth_byte_after_four_unknown_halts_witness:
  "running (receive_bytes [0, 4, 255, 17] demo_board) \<and>
    b_pc (receive_byte ON HAL_OK (receive_bytes [0, 4, 255, 17] demo_board)) = Halted"
  by (rule fifth_byte_after_four_unknown_halts) (simp_all add: stm_defs demo_board_fields running_def)

end
