(* ===== verification/Stm_Tools.thy ===== *)
theory Stm_Tools
  imports Stm_Board
begin

text \<open>
  The terminal functions of the STM board, \<open>Tools.c\<close>: the newlib hooks that connect \<open>printf\<close>
  and \<open>scanf\<close> to the USER UART. The \<open>k\<close>-th blocking receive of the HAL gives \<open>input k\<close>: a status,
  which the code ignores, and a byte, which replaces the 0 in \<open>ch\<close> only if one was received.
  What is transmitted is part of the result.
\<close>

definition io_putchar :: "int32 \<Rightarrow> byte list \<times> int32" where
  "io_putchar ch = ([ucast ch], ch)"

definition tools_write :: "byte list \<Rightarrow> nat \<Rightarrow> (byte list \<times> nat) option" where
  "tools_write ptr len = (if len \<le> length ptr then Some (take len ptr, len) else None)"

definition io_getchar :: "(nat \<Rightarrow> hal_status \<times> byte) \<Rightarrow> nat \<Rightarrow> byte \<times> byte list" where
  "io_getchar input k =
     (let ch = (case input k of (status, b) \<Rightarrow> if status = HAL_OK then b else 0) in (ch, [ch]))"

text \<open>The \<open>k\<close>-th byte of the terminal, as the caller sees it.\<close>

abbreviation typed :: "(nat \<Rightarrow> hal_status \<times> byte) \<Rightarrow> nat \<Rightarrow> byte" where
  "typed input k \<equiv> fst (io_getchar input k)"

definition line_end :: "byte \<Rightarrow> bool" where
  "line_end ch \<longleftrightarrow> ch = 13 \<or> ch = 10"

text \<open>The result: the returned count, the caller's memory and the echo.\<close>

function read_loop ::
    "(nat \<Rightarrow> hal_status \<times> byte) \<Rightarrow> nat \<Rightarrow> nat \<Rightarrow> byte list \<Rightarrow> byte list \<Rightarrow> (nat \<times> byte list \<times> byte list) option" where
  "read_loop input len DataIdx ptr echo =
     (if DataIdx < len
      then do {
        let (ch, sent) = io_getchar input DataIdx;
        ptr \<leftarrow> put ptr DataIdx ch;
        (if ch = 13 \<or> ch = 10
         then do {
           ptr \<leftarrow> put ptr (DataIdx + 1) 0;
           Some (DataIdx + 1, ptr, echo @ sent) }
         else read_loop input len (DataIdx + 1) ptr (echo @ sent)) }
      else Some (DataIdx + 1, ptr, echo))"
  by pat_completeness auto
termination by (relation "measure (\<lambda>(_, len, DataIdx, _). len - DataIdx)") auto

declare read_loop.simps [simp del]

definition tools_read ::
    "(nat \<Rightarrow> hal_status \<times> byte) \<Rightarrow> byte list \<Rightarrow> nat \<Rightarrow> (nat \<times> byte list \<times> byte list) option" where
  "tools_read input ptr len = read_loop input len 0 ptr []"

lemma read_loop_typed:
  "read_loop input len i ptr echo =
     (if i < len
      then do {
        ptr \<leftarrow> put ptr i (typed input i);
        (if line_end (typed input i)
         then do { ptr \<leftarrow> put ptr (i + 1) 0; Some (i + 1, ptr, echo @ [typed input i]) }
         else read_loop input len (i + 1) ptr (echo @ [typed input i])) }
      else Some (i + 1, ptr, echo))"
proof -
  obtain c where c: "io_getchar input i = (c, [c])" by (cases "input i") (auto simp: io_getchar_def Let_def)
  show ?thesis by (subst read_loop.simps) (simp add: c line_end_def cong: if_cong)
qed

text \<open>The first \<open>j\<close> bytes are stored as long as none of them ends the line.\<close>

lemma read_loop_prefix:
  assumes "\<forall>k<j. \<not> line_end (typed input k)" and "i \<le> j" and "j \<le> len" and "j \<le> length ptr"
  shows "read_loop input len i (map (typed input) [0..<i] @ drop i ptr) (map (typed input) [0..<i]) =
    read_loop input len j (map (typed input) [0..<j] @ drop j ptr) (map (typed input) [0..<j])"
  using assms(2)
proof (induction "j - i" arbitrary: i)
  case (Suc n)
  then have i: "i < j" by simp
  let ?ch = "typed input i"
  have "drop i ptr = ptr ! i # drop (i + 1) ptr" using i assms(4) by (simp add: Cons_nth_drop_Suc)
  then have "put (map (typed input) [0..<i] @ drop i ptr) i ?ch = Some (map (typed input) [0..<i + 1] @ drop (i + 1) ptr)"
    using i assms(4) by (simp add: put_def list_update_append)
  moreover have "\<not> line_end ?ch" "i < len" using assms(1,3) i by simp_all
  ultimately have "read_loop input len i (map (typed input) [0..<i] @ drop i ptr) (map (typed input) [0..<i]) =
      read_loop input len (i + 1) (map (typed input) [0..<i + 1] @ drop (i + 1) ptr) (map (typed input) [0..<i + 1])"
    by (subst read_loop_typed) simp
  with Suc.hyps(1) [of "i + 1"] Suc.hyps(2) i show ?case by simp
qed simp

text \<open>
  C39: \<open>_read\<close> returns one more than the number of bytes it was asked for when no line end
  arrives among them, and when the line end is the last byte that fits it writes its NUL past
  the caller's buffer.
\<close>

theorem read_overruns_its_length:
  assumes "length ptr = len" and "0 < len" and "\<forall>k<len - 1. \<not> line_end (typed input k)"
  shows "tools_read input ptr len =
    (if line_end (typed input (len - 1)) then None
     else Some (len + 1, map (typed input) [0..<len], map (typed input) [0..<len]))"
proof -
  obtain n where n: "len = Suc n" using assms(2) by (cases len) auto
  have "tools_read input ptr len = read_loop input len n (map (typed input) [0..<n] @ drop n ptr) (map (typed input) [0..<n])"
    using read_loop_prefix [of n input 0 len ptr] assms by (simp add: tools_read_def n)
  moreover have "drop n ptr = [ptr ! n]" using assms(1) by (simp add: n Cons_nth_drop_Suc [symmetric])
  ultimately have "tools_read input ptr len =
      read_loop input len n (map (typed input) [0..<n] @ [ptr ! n]) (map (typed input) [0..<n])" by simp
  also have "\<dots> = (if line_end (typed input n) then None
      else Some (len + 1, map (typed input) [0..<len], map (typed input) [0..<len]))"
    unfolding n
    by (subst read_loop_typed) (simp add: put_def list_update_append read_loop_typed [of input "Suc n" "Suc n"])
  finally show ?thesis by (simp add: n)
qed

theorem read_overruns_its_length_witness:
  "tools_read (\<lambda>k. (HAL_OK, [65, 66, 13] ! k)) [0, 0, 0] 3 =
    (if line_end (typed (\<lambda>k. (HAL_OK, [65, 66, 13] ! k)) (3 - 1)) then None
     else Some (3 + 1, map (typed (\<lambda>k. (HAL_OK, [65, 66, 13] ! k))) [0..<3], map (typed (\<lambda>k. (HAL_OK, [65, 66, 13] ! k))) [0..<3]))"
  by (rule read_overruns_its_length)
     (auto simp: line_end_def io_getchar_def less_2_cases_iff)

end
