(* ===== verification/Bbb_Client.thy ===== *)
theory Bbb_Client
  imports Crc8 Binary64 "HOL-Library.Signed_Division"
begin

text \<open>
  The functions of the BeagleBone (BBB) client: \<open>client_func.c\<close>, the connection checks, the
  polling, the TCP connection and the UART set-up. Results of system calls are arguments;
  what a function prints is its result where it carries data.
\<close>

section \<open>Enumerations\<close>

definition BBB_TRUE :: byte where "BBB_TRUE = 1"
definition BBB_CONNECTED :: byte where "BBB_CONNECTED = 1"
definition BBB_NOT_CONNECTED :: byte where "BBB_NOT_CONNECTED = 0"
definition BBB_ON :: byte where "BBB_ON = 1"
definition BBB_OFF :: byte where "BBB_OFF = 2"
definition BBB_RESTART :: byte where "BBB_RESTART = 3"
definition BBB_STAY_ON :: byte where "BBB_STAY_ON = 6"
definition BBB_STAY_OFF :: byte where "BBB_STAY_OFF = 7"
definition BBB_QUIT :: int where "BBB_QUIT = 12"
definition BBB_DONT_QUIT :: int where "BBB_DONT_QUIT = 13"
definition BBB_ERROR :: int where "BBB_ERROR = -1"
definition BBB_PANGO_DATA_SIZE :: nat where "BBB_PANGO_DATA_SIZE = 9"
definition BBB_DATA_BUFF_SIZE :: nat where "BBB_DATA_BUFF_SIZE = BBB_PANGO_DATA_SIZE + 1"
definition PAYMENT_SIZE :: nat where "PAYMENT_SIZE = 2"
definition LOCATION_NAME_MAX_LEN :: nat where "LOCATION_NAME_MAX_LEN = 12"

lemmas bbb_status_defs = BBB_ON_def BBB_OFF_def BBB_RESTART_def BBB_STAY_ON_def BBB_STAY_OFF_def
lemmas bbb_flag_defs = BBB_TRUE_def BBB_CONNECTED_def BBB_NOT_CONNECTED_def BBB_QUIT_def
  BBB_DONT_QUIT_def BBB_ERROR_def
lemmas bbb_size_defs = BBB_PANGO_DATA_SIZE_def BBB_DATA_BUFF_SIZE_def LOCATION_NAME_MAX_LEN_def

section \<open>The functions of \<open>client_func.c\<close>\<close>

text \<open>The button thread: the values of \<open>exit_app\<close> it reads, and the writes it makes until one is true.\<close>

fun start_end_func :: "byte list \<Rightarrow> string list" where
  "start_end_func [] = []"
| "start_end_func (exit_app # es) = (if exit_app \<noteq> BBB_TRUE then ''Hi'' # start_end_func es else [])"

definition bbb_CRC_8_check :: "byte list \<Rightarrow> nat \<Rightarrow> byte \<Rightarrow> byte option" where
  "bbb_CRC_8_check buff buff_size status = do {
     received \<leftarrow> (if 9 < length buff then Some (buff ! 9) else None);
     crc \<leftarrow> bbb_calculateCRC8 buff buff_size;
     Some (if received \<noteq> crc then (if status = BBB_ON then BBB_STAY_ON else BBB_STAY_OFF) else status) }"

definition get_status :: "byte list \<Rightarrow> byte option" where
  "get_status buff = (if 0 < length buff then Some (buff ! 0) else None)"

text \<open>
  \<open>(int)payment[1]\<close> cuts the fraction off and is undefined outside the range of \<open>int\<close>. The
  result is what is printed: hours, minutes, seconds and the price.
\<close>

definition c_int_of_double :: "rat \<Rightarrow> int option" where
  "c_int_of_double x =
     (let n = (if x < 0 then - \<lfloor>- x\<rfloor> else \<lfloor>x\<rfloor>)
      in if - (2 ^ 31) \<le> n \<and> n < 2 ^ 31 then Some n else None)"

definition final_price_for_costumer :: "rat list \<Rightarrow> (int \<times> int \<times> int \<times> rat) option" where
  "final_price_for_costumer payment =
     (if length payment < 2 then None
      else do {
        secs \<leftarrow> c_int_of_double (payment ! 1);
        let hour = ((secs sdiv 60) sdiv 60) smod 24;
        let minutes = (secs sdiv 60) smod 60;
        let seconds = secs smod 60;
        let final_price = payment ! 0;
        Some (hour, minutes, seconds, final_price) })"

definition received_data_from_stm :: "byte \<Rightarrow> byte" where
  "received_data_from_stm status = (if status = BBB_ON \<or> status = BBB_OFF then 1 else 0)"

text \<open>
  The C expression \<open>*status = (++( *status)) % 3\<close> modifies \<open>*status\<close> twice without a sequence point in
  between, which is undefined. The model gives it the only value a compiler has a reason to
  produce, increment first, then remainder, then the assignment.
\<close>

definition updating_status_value :: "byte \<Rightarrow> byte" where
  "updating_status_value status =
     (let status = status + 1;
          status = word_of_int (uint status mod 3)
      in if status = 0 then status + 1 else status)"

text \<open>The results of \<open>send\<close> (success or -1) and \<open>recv\<close> (the bytes, or -1).\<close>

datatype recv_bytes = Got "char list" | Recv_failed

definition store_chars :: "char list \<Rightarrow> char list \<Rightarrow> char list" where
  "store_chars data buf = take (length buf) data @ drop (length data) buf"

definition send_data_and_receive_location :: "bool \<Rightarrow> recv_bytes \<Rightarrow> char list \<Rightarrow> int \<times> char list" where
  "send_data_and_receive_location send_ok answer location =
     (if \<not> send_ok then (-1, location)
      else case answer of
          Recv_failed \<Rightarrow> (-1, location)
        | Got data \<Rightarrow> (0, store_chars data location))"

section \<open>Connection checks\<close>

definition already_connected_to_server_check :: "byte \<Rightarrow> byte \<Rightarrow> byte" where
  "already_connected_to_server_check status is_conn =
     (if status = BBB_ON \<and> is_conn = BBB_NOT_CONNECTED then BBB_NOT_CONNECTED else BBB_CONNECTED)"

definition ready_to_quit :: "byte \<Rightarrow> byte \<Rightarrow> int" where
  "ready_to_quit status is_conn =
     (if status = BBB_OFF \<and> is_conn = BBB_CONNECTED then BBB_QUIT else BBB_DONT_QUIT)"

text \<open>
  \<open>strcmp\<close> reads the copy of the buffer up to a NUL; without one within the copy it reads past
  it. The result is the new status and the new value of \<open>connected\<close>.
\<close>

definition crc8_server_side_value :: "byte \<Rightarrow> char list \<Rightarrow> byte \<Rightarrow> (byte \<times> byte) option" where
  "crc8_server_side_value status location_buff is_conn =
     (if nul \<notin> set location_buff then None
      else if cstr location_buff \<noteq> ''ERROR'' then Some (status, BBB_CONNECTED)
      else Some (BBB_STAY_ON, BBB_NOT_CONNECTED))"

section \<open>Polling and connecting\<close>

record pollfd =
  pfd_fd :: int32
  pfd_events :: "16 word"

definition POLLIN :: "16 word" where "POLLIN = 1"

definition init_poll_event :: "pollfd \<Rightarrow> int32 \<Rightarrow> pollfd" where
  "init_poll_event fds fd = fds\<lparr>pfd_fd := fd, pfd_events := POLLIN\<rparr>"

definition wait_poll_event :: "int32 \<Rightarrow> int" where
  "wait_poll_event poll_result = (if 0 < sint poll_result then 0 else -1)"

text \<open>\<open>None\<close> is \<open>exit\<close>; the function returns a \<open>uint8_t\<close>, so its -1 is 255.\<close>

definition connect_to_pango_server :: "int32 \<Rightarrow> int32 \<Rightarrow> byte option" where
  "connect_to_pango_server socket_result connect_result =
     (if socket_result = -1 then None
      else if connect_result = -1 then Some (-1) else Some 0)"

section \<open>The UARTs\<close>

text \<open>The flags of \<open>termios.h\<close> on Linux.\<close>

record termios =
  c_iflag :: uint32
  c_oflag :: uint32
  c_cflag :: uint32
  c_lflag :: uint32
  c_speed :: uint32

definition B115200 :: uint32 where "B115200 = 0x1002"
definition CLOCAL :: uint32 where "CLOCAL = 0x800"
definition CREAD :: uint32 where "CREAD = 0x80"
definition PARENB :: uint32 where "PARENB = 0x100"
definition CSTOPB :: uint32 where "CSTOPB = 0x40"
definition CSIZE :: uint32 where "CSIZE = 0x30"
definition CS8 :: uint32 where "CS8 = 0x30"
definition ICANON :: uint32 where "ICANON = 0x2"
definition ECHO :: uint32 where "ECHO = 0x8"
definition ECHOE :: uint32 where "ECHOE = 0x10"
definition ISIG :: uint32 where "ISIG = 0x1"
definition IXON :: uint32 where "IXON = 0x400"
definition IXOFF :: uint32 where "IXOFF = 0x1000"
definition IXANY :: uint32 where "IXANY = 0x800"
definition OPOST :: uint32 where "OPOST = 0x1"

lemmas termios_defs = B115200_def CLOCAL_def CREAD_def PARENB_def CSTOPB_def CSIZE_def CS8_def
  ICANON_def ECHO_def ECHOE_def ISIG_def IXON_def IXOFF_def IXANY_def OPOST_def

text \<open>
  Both functions open a device, read its attributes, change them and set them. The arguments
  are the descriptor \<open>open\<close> returned and the attributes \<open>tcgetattr\<close> read; a failed \<open>open\<close> is
  reported and otherwise ignored.
\<close>

definition init_uart1 :: "int32 \<Rightarrow> termios \<Rightarrow> int32 \<times> termios" where
  "init_uart1 fd options =
     (let options = options\<lparr>c_speed := B115200\<rparr>;
          options = options\<lparr>c_cflag := c_cflag options OR (CLOCAL OR CREAD)\<rparr>;
          options = options\<lparr>c_cflag := c_cflag options AND NOT PARENB\<rparr>;
          options = options\<lparr>c_cflag := c_cflag options AND NOT CSTOPB\<rparr>;
          options = options\<lparr>c_cflag := c_cflag options AND NOT CSIZE\<rparr>;
          options = options\<lparr>c_cflag := c_cflag options OR CS8\<rparr>;
          options = options\<lparr>c_lflag := c_lflag options AND NOT (ICANON OR ECHO OR ECHOE OR ISIG)\<rparr>;
          options = options\<lparr>c_iflag := c_iflag options AND NOT (IXON OR IXOFF OR IXANY)\<rparr>;
          options = options\<lparr>c_oflag := c_oflag options AND NOT OPOST\<rparr>
      in (fd, options))"

definition init_uart4 :: "int32 \<Rightarrow> termios \<Rightarrow> int32 \<times> termios" where
  "init_uart4 fd options =
     (let options = options\<lparr>c_speed := B115200\<rparr>;
          options = options\<lparr>c_cflag := c_cflag options OR (CLOCAL OR CREAD)\<rparr>;
          options = options\<lparr>c_cflag := c_cflag options AND NOT PARENB\<rparr>;
          options = options\<lparr>c_cflag := c_cflag options AND NOT CSTOPB\<rparr>;
          options = options\<lparr>c_cflag := c_cflag options AND NOT CSIZE\<rparr>;
          options = options\<lparr>c_cflag := c_cflag options OR CS8\<rparr>;
          options = options\<lparr>c_lflag := c_lflag options AND NOT (ICANON OR ECHO OR ECHOE OR ISIG)\<rparr>;
          options = options\<lparr>c_iflag := c_iflag options AND NOT (IXON OR IXOFF OR IXANY)\<rparr>;
          options = options\<lparr>c_oflag := c_oflag options AND NOT OPOST\<rparr>
      in (fd, options))"

section \<open>Lemmas\<close>

lemma c_div_pos: "0 \<le> a \<Longrightarrow> 0 < b \<Longrightarrow> a sdiv b = a div (b :: int)"
  and c_mod_pos: "0 \<le> a \<Longrightarrow> 0 < b \<Longrightarrow> a smod b = a mod (b :: int)"
  by (cases "a = 0"; simp add: signed_divide_int_def signed_modulo_int_def)+

lemma bbb_CRC_8_check_eq:
  assumes "length buff = 10"
  shows "bbb_CRC_8_check buff BBB_PANGO_DATA_SIZE status =
    Some (if frame_ok buff then status else if status = BBB_ON then BBB_STAY_ON else BBB_STAY_OFF)"
  using assms by (simp add: bbb_CRC_8_check_def bbb_crc.crc_ref frame_ok_def bbb_size_defs)

lemma updating_status_values:
  "updating_status_value BBB_ON = BBB_OFF" "updating_status_value BBB_OFF = BBB_ON"
  "updating_status_value BBB_STAY_ON = BBB_ON" "updating_status_value BBB_STAY_OFF = BBB_OFF"
  by (simp_all add: updating_status_value_def bbb_status_defs)

lemma updating_status_range: "updating_status_value s \<in> {BBB_ON, BBB_OFF}"
proof -
  have "uint (s + 1) mod 3 \<in> {0, 1, 2}" by auto
  then show ?thesis by (auto simp: updating_status_value_def bbb_status_defs Let_def)
qed

lemma length_store_chars [simp]: "length (store_chars d buf) = length buf"
  by (simp add: store_chars_def)

end
