(* ===== verification/Bbb_Main.thy ===== *)
theory Bbb_Main
  imports Bbb_Client
begin

text \<open>
  The main program of the BBB, \<open>main_client.c\<close>. One pass through its loop takes the results
  of the system calls of that pass; what the pass does to the outside (the UART to the STM
  board, the connection to the server, the screen) is appended to a log.
\<close>

section \<open>State\<close>

datatype action =
    Wait_button
  | Write_stm "byte list"
  | Stop_button_thread
  | Connect
  | Send_server "byte list"
  | Parked_at string
  | Server_problem
  | Receipt "int \<times> int \<times> int \<times> rat"
  | Close_server

text \<open>
  The results of the calls of one pass: \<open>poll\<close> on the UART of the STM, the bytes that \<open>read\<close>
  gives, \<open>socket\<close>, \<open>connect\<close>, \<open>send\<close>/\<open>recv\<close> of the start frame, \<open>send\<close>/\<open>recv\<close> of the close frame. The
  payment arrives as whole doubles, none when the server has closed the connection.
\<close>

record pass =
  i_poll :: int32
  i_read :: "byte list"
  i_socket :: int32
  i_connect :: int32
  i_send :: bool
  i_answer :: recv_bytes
  i_send_close :: bool
  i_payment :: "rat list option"

record bbb =
  m_status :: byte
  m_receive_error :: byte
  m_connected :: byte
  m_data_buff :: "byte list"
  m_location :: "char list"
  m_payment :: "rat list"
  m_log :: "action list"

definition log_action :: "action \<Rightarrow> bbb \<Rightarrow> bbb" where
  "log_action a s = s\<lparr>m_log := m_log s @ [a]\<rparr>"

text \<open>How a pass ends: the loop goes on, it is left, or the process exits in \<open>connect_to_pango_server\<close>.\<close>

datatype pass_end = Go_on bbb | Leave bbb | Exit_process bbb

text \<open>\<open>restart\<close> is an \<open>int\<close>, written with its four bytes, least significant first.\<close>

definition restart_bytes :: "byte list" where
  "restart_bytes = [BBB_RESTART, 0, 0, 0]"

definition store_bytes :: "byte list \<Rightarrow> byte list \<Rightarrow> byte list" where
  "store_bytes data buf = take (length buf) data @ drop (length data) buf"

definition store_doubles :: "rat list \<Rightarrow> rat list \<Rightarrow> rat list" where
  "store_doubles data buf = take (length buf) data @ drop (length data) buf"

section \<open>The set-up\<close>

definition NUM_OF_UARTS_USED :: nat where "NUM_OF_UARTS_USED = 2"
definition UART1 :: nat where "UART1 = 0"
definition UART4 :: nat where "UART4 = 1"

record uart_setup =
  uart1_fd :: int32
  uart4_fd :: int32
  uart1_options :: termios
  uart4_options :: termios
  poll_fds :: "pollfd list"

text \<open>
  The arguments are what \<open>open\<close> and \<open>tcgetattr\<close> give for the two devices, and the first contents
  of \<open>fds\<close>. The result of \<open>pthread_create\<close> for the button thread is ignored.
\<close>

definition main_setup :: "int32 \<Rightarrow> termios \<Rightarrow> int32 \<Rightarrow> termios \<Rightarrow> pollfd list \<Rightarrow> uart_setup option" where
  "main_setup opened1 attr1 opened4 attr4 fds = do {
     let (fd1, options) = init_uart1 opened1 attr1;
     let (fd4, options2) = init_uart4 opened4 attr4;
     fds \<leftarrow> (if UART1 < length fds then Some (fds[UART1 := init_poll_event (fds ! UART1) fd1]) else None);
     fds \<leftarrow> (if UART4 < length fds then Some (fds[UART4 := init_poll_event (fds ! UART4) fd4]) else None);
     Some \<lparr>uart1_fd = fd1, uart4_fd = fd4, uart1_options = options, uart4_options = options2, poll_fds = fds\<rparr> }"

section \<open>The loop\<close>

definition start_session :: "pass \<Rightarrow> bbb \<Rightarrow> (pass_end + bbb) option" where
  "start_session i s =
     (case connect_to_pango_server (i_socket i) (i_connect i) of
        None \<Rightarrow> Some (Inl (Exit_process s))
      | Some rc \<Rightarrow>
          let s = log_action Connect s in
          if uint rc = BBB_ERROR then Some (Inl (Leave (log_action Stop_button_thread s)))
          else
            let (rc, location) = send_data_and_receive_location (i_send i) (i_answer i) (m_location s);
                s = log_action (Send_server (m_data_buff s)) (s\<lparr>m_location := location\<rparr>);
                return_value = (word_of_int rc :: byte) in
            if uint return_value = BBB_ERROR then Some (Inl (Leave s))
            else do {
              (status, conn) \<leftarrow> crc8_server_side_value (m_status s) (m_location s) (m_connected s);
              let s = s\<lparr>m_status := status, m_connected := conn\<rparr>;
              Some (Inr (log_action (if conn = BBB_CONNECTED then Parked_at (cstr (m_location s)) else Server_problem) s)) })"

definition close_session :: "pass \<Rightarrow> bbb \<Rightarrow> (pass_end + bbb) option" where
  "close_session i s =
     (let s = log_action (Send_server (m_data_buff s)) s in
      if \<not> i_send_close i then Some (Inl (Leave s))
      else
        case i_payment i of
          None \<Rightarrow> Some (Inl (Leave s))
        | Some data \<Rightarrow> do {
            let s = s\<lparr>m_payment := store_doubles data (m_payment s)\<rparr>;
            receipt \<leftarrow> final_price_for_costumer (m_payment s);
            let s = log_action Close_server (log_action (Receipt receipt) s);
            Some (Inr (s\<lparr>m_connected := BBB_NOT_CONNECTED\<rparr>)) })"

definition main_pass :: "pass \<Rightarrow> bbb \<Rightarrow> pass_end option" where
  "main_pass i s =
     (let s = log_action Wait_button s;
          s = log_action (Write_stm [m_status s]) s in
      if wait_poll_event (i_poll i) = BBB_ERROR
      then
        let s = s\<lparr>m_receive_error := m_receive_error s + 1\<rparr> in
        if m_receive_error s = BBB_RESTART then Some (Leave (log_action (Write_stm restart_bytes) s))
        else Some (Go_on s)
      else if received_data_from_stm (m_status s) = BBB_TRUE
      then do {
        let s = s\<lparr>m_data_buff := store_bytes (i_read i) (m_data_buff s)\<rparr>;
        status \<leftarrow> get_status (m_data_buff s);
        status \<leftarrow> bbb_CRC_8_check (m_data_buff s) BBB_PANGO_DATA_SIZE status;
        let s = s\<lparr>m_status := status\<rparr>;
        r \<leftarrow> (if already_connected_to_server_check (m_status s) (m_connected s) = BBB_NOT_CONNECTED
              then start_session i s else Some (Inr s));
        case r of
          Inl e \<Rightarrow> Some e
        | Inr s \<Rightarrow> do {
            r \<leftarrow> (if ready_to_quit (m_status s) (m_connected s) = BBB_QUIT
                  then close_session i s else Some (Inr s));
            case r of
              Inl e \<Rightarrow> Some e
            | Inr s \<Rightarrow> Some (Go_on (s\<lparr>m_status := updating_status_value (m_status s)\<rparr>)) } }
      else Some (Go_on (s\<lparr>m_status := updating_status_value (m_status s)\<rparr>)))"

text \<open>
  The local arrays are not initialized: their first contents are arguments. After the loop
  the program sends the restart value once more and closes everything.
\<close>

definition bbb_start :: "byte list \<Rightarrow> char list \<Rightarrow> rat list \<Rightarrow> bbb" where
  "bbb_start data_buff location payment =
     \<lparr>m_status = BBB_ON, m_receive_error = 0, m_connected = 0, m_data_buff = data_buff,
      m_location = location, m_payment = payment, m_log = []\<rparr>"

fun bbb_main :: "pass list \<Rightarrow> bbb \<Rightarrow> pass_end option" where
  "bbb_main [] s = Some (Go_on s)"
| "bbb_main (i # is) s = do {
     e \<leftarrow> main_pass i s;
     (case e of
        Go_on s \<Rightarrow> bbb_main is s
      | Leave s \<Rightarrow> Some (Leave (log_action Close_server (log_action (Write_stm restart_bytes) s)))
      | Exit_process s \<Rightarrow> Some (Exit_process s)) }"

lemma bbb_main_append: "bbb_main (is @ js) s =
    do { e \<leftarrow> bbb_main is s; case e of Go_on s \<Rightarrow> bbb_main js s | e \<Rightarrow> Some e }"
  by (induction "is" arbitrary: s) (auto split: Option.bind_split pass_end.split)

section \<open>Invariant\<close>

definition bbb_inv :: "bbb \<Rightarrow> bool" where
  "bbb_inv s \<longleftrightarrow> length (m_data_buff s) = 10 \<and> length (m_location s) = 12 \<and> length (m_payment s) = 2 \<and>
     m_status s \<in> {BBB_ON, BBB_OFF} \<and> m_connected s \<in> {BBB_CONNECTED, BBB_NOT_CONNECTED}"

lemma log_action_fields [simp]:
  "m_status (log_action a s) = m_status s" "m_receive_error (log_action a s) = m_receive_error s"
  "m_connected (log_action a s) = m_connected s" "m_data_buff (log_action a s) = m_data_buff s"
  "m_location (log_action a s) = m_location s" "m_payment (log_action a s) = m_payment s"
  "m_log (log_action a s) = m_log s @ [a]"
  by (simp_all add: log_action_def)

lemma length_store_bytes [simp]: "length (store_bytes d buf) = length buf"
  by (simp add: store_bytes_def)

lemma length_store_doubles [simp]: "length (store_doubles d buf) = length buf"
  by (simp add: store_doubles_def)

lemma store_doubles_whole: "length d = length buf \<Longrightarrow> store_doubles d buf = d"
  by (simp add: store_doubles_def)

lemma store_bytes_whole: "length d = length buf \<Longrightarrow> store_bytes d buf = d"
  by (simp add: store_bytes_def)

lemma received_on_off: "s \<in> {BBB_ON, BBB_OFF} \<Longrightarrow> received_data_from_stm s = BBB_TRUE"
  by (auto simp: received_data_from_stm_def bbb_flag_defs)

text \<open>A byte is never -1, so neither error test after a connection attempt can succeed.\<close>

lemma byte_never_error: "uint (b :: byte) \<noteq> BBB_ERROR"
proof -
  have "0 \<le> uint b" by (rule uint_ge_0)
  then show ?thesis unfolding BBB_ERROR_def by linarith
qed

lemma start_session_eq:
  assumes "i_socket i \<noteq> -1"
  shows "start_session i s =
    (let (rc, location) = send_data_and_receive_location (i_send i) (i_answer i) (m_location s);
         s = log_action (Send_server (m_data_buff s)) ((log_action Connect s)\<lparr>m_location := location\<rparr>) in
     do {
       (status, conn) \<leftarrow> crc8_server_side_value (m_status s) location (m_connected s);
       Some (Inr (log_action (if conn = BBB_CONNECTED then Parked_at (cstr location) else Server_problem)
         (s\<lparr>m_status := status, m_connected := conn\<rparr>))) })"
proof -
  obtain rc where "connect_to_pango_server (i_socket i) (i_connect i) = Some rc"
    using assms by (cases "i_connect i = -1") (auto simp: connect_to_pango_server_def)
  moreover obtain rc2 loc where "send_data_and_receive_location (i_send i) (i_answer i) (m_location s) = (rc2, loc)"
    by fastforce
  ultimately show ?thesis
    by (cases "crc8_server_side_value (m_status s) loc (m_connected s)")
       (auto simp: start_session_def byte_never_error Let_def log_action_def)
qed

text \<open>What may be sent: status bytes and the restart value to the STM, checked frames to the server.\<close>

fun action_ok :: "action \<Rightarrow> bool" where
  "action_ok (Write_stm bs) \<longleftrightarrow> bs \<in> {[BBB_ON], [BBB_OFF], restart_bytes}"
| "action_ok (Send_server f) \<longleftrightarrow> length f = 10 \<and> frame_ok f \<and> f ! 0 \<in> {BBB_ON, BBB_OFF}"
| "action_ok _ \<longleftrightarrow> True"

fun end_state :: "pass_end \<Rightarrow> bbb" where
  "end_state (Go_on s) = s"
| "end_state (Leave s) = s"
| "end_state (Exit_process s) = s"

text \<open>In the middle of a pass: the status is on or off only if the buffer holds a checked frame.\<close>

definition mid_inv :: "bbb \<Rightarrow> bool" where
  "mid_inv s \<longleftrightarrow> length (m_data_buff s) = 10 \<and> length (m_location s) = 12 \<and> length (m_payment s) = 2 \<and>
     m_connected s \<in> {BBB_CONNECTED, BBB_NOT_CONNECTED} \<and> list_all action_ok (m_log s) \<and>
     (m_status s \<in> {BBB_ON, BBB_OFF} \<longrightarrow> frame_ok (m_data_buff s) \<and> m_data_buff s ! 0 \<in> {BBB_ON, BBB_OFF})"

lemma start_session_inv:
  assumes "mid_inv s" and "m_status s = BBB_ON" and "start_session i s = Some r"
  shows "case r of Inl e \<Rightarrow> list_all action_ok (m_log (end_state e)) \<and> (\<nexists>s'. e = Go_on s') | Inr s' \<Rightarrow> mid_inv s'"
proof (cases "i_socket i = -1")
  case True
  with assms show ?thesis by (auto simp: start_session_def connect_to_pango_server_def mid_inv_def)
next
  case False
  obtain rc loc where snd: "send_data_and_receive_location (i_send i) (i_answer i) (m_location s) = (rc, loc)"
    by fastforce
  then have "length loc = 12" using assms(1)
    by (auto simp: send_data_and_receive_location_def mid_inv_def split: if_splits recv_bytes.splits)
  with False assms snd show ?thesis
    by (auto simp: start_session_eq crc8_server_side_value_def mid_inv_def bbb_status_defs bbb_flag_defs Let_def
        split: if_splits)
qed

lemma close_session_inv:
  assumes "mid_inv s" and "m_status s = BBB_OFF" and "close_session i s = Some r"
  shows "case r of Inl e \<Rightarrow> list_all action_ok (m_log (end_state e)) \<and> (\<nexists>s'. e = Go_on s') | Inr s' \<Rightarrow> mid_inv s'"
  using assms
  by (auto simp: close_session_def mid_inv_def Let_def split: if_splits option.splits Option.bind_splits)

definition loop_inv :: "bbb \<Rightarrow> bool" where
  "loop_inv s \<longleftrightarrow> bbb_inv s \<and> list_all action_ok (m_log s)"

text \<open>The state when a pass has read and checked the frame.\<close>

definition after_read :: "pass \<Rightarrow> bbb \<Rightarrow> bbb" where
  "after_read i s =
     (let s = log_action (Write_stm [m_status s]) (log_action Wait_button s);
          buff = store_bytes (i_read i) (m_data_buff s)
      in s\<lparr>m_data_buff := buff,
           m_status := if frame_ok buff then buff ! 0 else if buff ! 0 = BBB_ON then BBB_STAY_ON else BBB_STAY_OFF\<rparr>)"

lemma after_read_inv: "loop_inv s \<Longrightarrow> mid_inv (after_read i s)"
  by (auto simp: loop_inv_def bbb_inv_def mid_inv_def after_read_def Let_def bbb_status_defs)

text \<open>A pass in which the STM answers.\<close>

lemma main_pass_answered:
  assumes "loop_inv s" and "wait_poll_event (i_poll i) \<noteq> BBB_ERROR"
  defines "s1 \<equiv> after_read i s"
  shows "main_pass i s = do {
      r \<leftarrow> (if m_status s1 = BBB_ON \<and> m_connected s1 = BBB_NOT_CONNECTED then start_session i s1 else Some (Inr s1));
      case r of
        Inl e \<Rightarrow> Some e
      | Inr s \<Rightarrow> do {
          r \<leftarrow> (if m_status s = BBB_OFF \<and> m_connected s = BBB_CONNECTED then close_session i s else Some (Inr s));
          case r of
            Inl e \<Rightarrow> Some e
          | Inr s \<Rightarrow> Some (Go_on (s\<lparr>m_status := updating_status_value (m_status s)\<rparr>)) } }"
proof -
  let ?buff = "store_bytes (i_read i) (m_data_buff s)"
  have buff: "length ?buff = 10" and st: "received_data_from_stm (m_status s) = BBB_TRUE"
    using assms(1) by (auto simp: loop_inv_def bbb_inv_def intro: received_on_off)
  have conn: "already_connected_to_server_check st c = BBB_NOT_CONNECTED \<longleftrightarrow> st = BBB_ON \<and> c = BBB_NOT_CONNECTED"
    "ready_to_quit st c = BBB_QUIT \<longleftrightarrow> st = BBB_OFF \<and> c = BBB_CONNECTED" for st c
    by (simp_all add: already_connected_to_server_check_def ready_to_quit_def bbb_flag_defs)
  have st0: "get_status ?buff = Some (?buff ! 0)" using buff by (simp add: get_status_def)
  show ?thesis using assms(2) buff st st0 bbb_CRC_8_check_eq [OF buff]
    by (simp add: main_pass_def conn s1_def after_read_def Let_def)
qed

lemma main_pass_timeout:
  assumes "wait_poll_event (i_poll i) = BBB_ERROR"
  shows "main_pass i s =
    (let s = log_action (Write_stm [m_status s]) (log_action Wait_button s);
         s = s\<lparr>m_receive_error := m_receive_error s + 1\<rparr>
     in Some (if m_receive_error s = BBB_RESTART then Leave (log_action (Write_stm restart_bytes) s) else Go_on s))"
  using assms by (simp add: main_pass_def Let_def)

lemma main_pass_inv:
  assumes "loop_inv s" and "main_pass i s = Some e"
  shows "list_all action_ok (m_log (end_state e)) \<and> (\<forall>s'. e = Go_on s' \<longrightarrow> loop_inv s')"
proof (cases "wait_poll_event (i_poll i) = BBB_ERROR")
  case True
  with assms show ?thesis
    by (auto simp: main_pass_timeout loop_inv_def bbb_inv_def Let_def restart_bytes_def split: if_splits)
next
  case False
  let ?s1 = "after_read i s"
  note mid = after_read_inv [OF assms(1), of i]
  note eq = main_pass_answered [OF assms(1) False]
  let ?start = "if m_status ?s1 = BBB_ON \<and> m_connected ?s1 = BBB_NOT_CONNECTED then start_session i ?s1 else Some (Inr ?s1)"
  obtain r where r: "?start = Some r" using assms(2) unfolding eq by (cases ?start) auto
  have ri: "case r of Inl e \<Rightarrow> list_all action_ok (m_log (end_state e)) \<and> (\<nexists>s'. e = Go_on s') | Inr s' \<Rightarrow> mid_inv s'"
    using r mid start_session_inv [OF mid] by (auto split: if_splits)
  show ?thesis
  proof (cases r)
    case (Inl e')
    with r ri assms(2) show ?thesis unfolding eq by auto
  next
    case (Inr s2)
    let ?close = "if m_status s2 = BBB_OFF \<and> m_connected s2 = BBB_CONNECTED then close_session i s2 else Some (Inr s2)"
    have m2: "mid_inv s2" using ri Inr by simp
    obtain q where q: "?close = Some q" using assms(2) r Inr unfolding eq by (cases ?close) auto
    have qi: "case q of Inl e \<Rightarrow> list_all action_ok (m_log (end_state e)) \<and> (\<nexists>s'. e = Go_on s') | Inr s' \<Rightarrow> mid_inv s'"
      using q m2 close_session_inv [OF m2] by (auto split: if_splits)
    show ?thesis
    proof (cases q)
      case (Inl e')
      with r Inr q qi assms(2) show ?thesis unfolding eq by auto
    next
      case (Inr s3)
      then have "e = Go_on (s3\<lparr>m_status := updating_status_value (m_status s3)\<rparr>)"
        using r \<open>r = Inr s2\<close> q assms(2) unfolding eq by simp
      with qi Inr updating_status_range [of "m_status s3"] show ?thesis
        by (simp add: mid_inv_def loop_inv_def bbb_inv_def)
    qed
  qed
qed

lemma bbb_main_inv:
  assumes "loop_inv s" and "bbb_main is s = Some e"
  shows "list_all action_ok (m_log (end_state e))"
  using assms
proof (induction "is" arbitrary: s)
  case (Cons i "is")
  then obtain e1 where e1: "main_pass i s = Some e1" by (auto split: Option.bind_splits)
  with Cons main_pass_inv [OF Cons.prems(1) e1] show ?case
    by (cases e1) (auto simp: restart_bytes_def)
qed (auto simp: loop_inv_def)

lemma bbb_start_inv: "length b = 10 \<Longrightarrow> length l = 12 \<Longrightarrow> length p = 2 \<Longrightarrow> loop_inv (bbb_start b l p)"
  by (simp add: loop_inv_def bbb_inv_def bbb_start_def bbb_flag_defs)

section \<open>Properties\<close>

text \<open>
  C11: whatever the STM board, the server and the network do, the BBB forwards to the server
  only ten-byte frames with a valid checksum and status on or off, and writes to the STM only
  status bytes on and off and the restart value.
\<close>

theorem bbb_forwards_only_checked_frames:
  assumes "length b = 10" and "length l = 12" and "length p = 2" and "bbb_main is (bbb_start b l p) = Some e"
  shows "list_all action_ok (m_log (end_state e))"
  using bbb_main_inv [OF bbb_start_inv [OF assms(1-3)] assms(4)] .

definition demo_pass :: "byte list \<Rightarrow> pass" where
  "demo_pass f = \<lparr>i_poll = 1, i_read = f, i_socket = 3, i_connect = 0, i_send = True,
     i_answer = Got (''Ashkelon'' @ replicate 4 nul), i_send_close = True, i_payment = Some [45 / 2, 3725]\<rparr>"

definition demo_on :: "byte list" where
  "demo_on = [1, 2, 0x80, 0xE1, 0, 0, 7, 10, 20, crc8 [1, 2, 0x80, 0xE1, 0, 0, 7, 10, 20]]"

definition demo_off :: "byte list" where
  "demo_off = [2, 2, 0x80, 0xE1, 0, 0, 7, 99, 3, crc8 [2, 2, 0x80, 0xE1, 0, 0, 7, 99, 3]]"

lemma demo_frames_ok: "frame_ok demo_on" "frame_ok demo_off" "length demo_on = 10" "length demo_off = 10"
  "demo_on ! 0 = BBB_ON" "demo_off ! 0 = BBB_OFF"
  by (simp_all add: frame_ok_def demo_on_def demo_off_def bbb_status_defs)

theorem bbb_forwards_only_checked_frames_witness:
  "\<exists>e. bbb_main [(demo_pass [])\<lparr>i_poll := -1\<rparr>] (bbb_start (replicate 10 0) (replicate 12 nul) [0, 0]) = Some e \<and>
    list_all action_ok (m_log (end_state e))"
proof -
  let ?s = "bbb_start (replicate 10 0) (replicate 12 nul) [0, 0]" and ?i = "(demo_pass [])\<lparr>i_poll := -1\<rparr>"
  have "\<exists>e. bbb_main [?i] ?s = Some e"
    by (simp add: main_pass_timeout wait_poll_event_def bbb_flag_defs Let_def split: pass_end.split)
  then obtain e where e: "bbb_main [?i] ?s = Some e" by blast
  then have "list_all action_ok (m_log (end_state e))"
    by (intro bbb_forwards_only_checked_frames [of "replicate 10 0" "replicate 12 nul" "[0, 0]" "[?i]"]) simp_all
  with e show ?thesis by blast
qed

definition answers :: "pass \<Rightarrow> byte list \<Rightarrow> byte \<Rightarrow> bool" where
  "answers i f st \<longleftrightarrow>
     0 < sint (i_poll i) \<and> i_read i = f \<and> length f = 10 \<and> frame_ok f \<and> f ! 0 = st \<and>
     i_socket i \<noteq> -1 \<and> i_send i \<and> i_send_close i"

text \<open>The two passes of a session, with the whole state after each.\<close>

lemma start_pass:
  assumes "loop_inv s" and "m_status s = BBB_ON" and "m_connected s = BBB_NOT_CONNECTED"
    and "answers i f BBB_ON" and "i_answer i = Got city" and "length city = 12" and "nul \<in> set city"
    and "cstr city \<noteq> ''ERROR''"
  shows "main_pass i s = Some (Go_on (s\<lparr>m_data_buff := f, m_status := BBB_OFF, m_connected := BBB_CONNECTED,
    m_location := city,
    m_log := m_log s @ [Wait_button, Write_stm [BBB_ON], Connect, Send_server f, Parked_at (cstr city)]\<rparr>))"
proof -
  have len: "length (m_data_buff s) = 10" "length (m_location s) = 12"
    using assms(1) by (simp_all add: loop_inv_def bbb_inv_def)
  have poll: "wait_poll_event (i_poll i) \<noteq> BBB_ERROR"
    using assms(4) by (simp add: answers_def wait_poll_event_def BBB_ERROR_def)
  have a: "after_read i s = s\<lparr>m_data_buff := f, m_status := BBB_ON, m_log := m_log s @ [Wait_button, Write_stm [BBB_ON]]\<rparr>"
    using assms(2,4) len(1) by (simp add: after_read_def answers_def store_bytes_whole log_action_def Let_def)
  have "start_session i (after_read i s) = Some (Inr (s\<lparr>m_data_buff := f, m_status := BBB_ON,
      m_connected := BBB_CONNECTED, m_location := city,
      m_log := m_log s @ [Wait_button, Write_stm [BBB_ON], Connect, Send_server f, Parked_at (cstr city)]\<rparr>))"
    using assms(4-8) len(2) unfolding a
    by (simp add: start_session_eq answers_def send_data_and_receive_location_def store_chars_def
        crc8_server_side_value_def log_action_def Let_def)
  moreover have "m_status (after_read i s) = BBB_ON" "m_connected (after_read i s) = BBB_NOT_CONNECTED"
    using assms(3) by (simp_all add: a)
  ultimately show ?thesis
    using main_pass_answered [OF assms(1) poll] updating_status_values by (simp add: bbb_status_defs)
qed

lemma close_pass:
  assumes "loop_inv s" and "m_connected s = BBB_CONNECTED"
    and "answers j g BBB_OFF" and "i_payment j = Some data"
    and "final_price_for_costumer (store_doubles data (m_payment s)) = Some receipt"
  shows "main_pass j s = Some (Go_on (s\<lparr>m_data_buff := g, m_status := BBB_ON, m_connected := BBB_NOT_CONNECTED,
    m_payment := store_doubles data (m_payment s),
    m_log := m_log s @ [Wait_button, Write_stm [m_status s], Send_server g, Receipt receipt, Close_server]\<rparr>))"
proof -
  have len: "length (m_data_buff s) = 10" using assms(1) by (simp add: loop_inv_def bbb_inv_def)
  have poll: "wait_poll_event (i_poll j) \<noteq> BBB_ERROR"
    using assms(3) by (simp add: answers_def wait_poll_event_def BBB_ERROR_def)
  have a: "after_read j s = s\<lparr>m_data_buff := g, m_status := BBB_OFF, m_log := m_log s @ [Wait_button, Write_stm [m_status s]]\<rparr>"
    using assms(3) len by (simp add: after_read_def answers_def store_bytes_whole log_action_def Let_def)
  have "close_session j (after_read j s) = Some (Inr (s\<lparr>m_data_buff := g, m_status := BBB_OFF,
      m_connected := BBB_NOT_CONNECTED, m_payment := store_doubles data (m_payment s),
      m_log := m_log s @ [Wait_button, Write_stm [m_status s], Send_server g, Receipt receipt, Close_server]\<rparr>))"
    using assms(3-5) unfolding a by (simp add: close_session_def answers_def log_action_def Let_def)
  moreover have "m_status (after_read j s) = BBB_OFF" "m_connected (after_read j s) = BBB_CONNECTED"
    using assms(2) by (simp_all add: a)
  ultimately show ?thesis
    using main_pass_answered [OF assms(1) poll] updating_status_values by (simp add: bbb_status_defs)
qed

definition answered_start :: "pass \<Rightarrow> byte list \<Rightarrow> char list \<Rightarrow> bool" where
  "answered_start i f city \<longleftrightarrow> answers i f BBB_ON \<and> i_answer i = Got city \<and> length city = 12 \<and> nul \<in> set city \<and>
     cstr city \<noteq> ''ERROR''"

text \<open>A session whose closing answer is \<open>data\<close>, which may be less than a whole bill.\<close>

lemma session:
  assumes "loop_inv s" and "m_status s = BBB_ON" and "m_connected s = BBB_NOT_CONNECTED"
    and "answered_start i f city" and "answers j g BBB_OFF" and "i_payment j = Some data"
    and "final_price_for_costumer (store_doubles data (m_payment s)) = Some receipt"
  shows "\<exists>s'. bbb_main [i, j] s = Some (Go_on s') \<and> loop_inv s' \<and>
    m_log s' = m_log s @ [Wait_button, Write_stm [BBB_ON], Connect, Send_server f, Parked_at (cstr city),
      Wait_button, Write_stm [BBB_OFF], Send_server g, Receipt receipt, Close_server] \<and>
    m_connected s' = BBB_NOT_CONNECTED \<and> m_status s' = BBB_ON \<and> m_payment s' = store_doubles data (m_payment s)"
proof -
  let ?s1 = "s\<lparr>m_data_buff := f, m_status := BBB_OFF, m_connected := BBB_CONNECTED, m_location := city,
    m_log := m_log s @ [Wait_button, Write_stm [BBB_ON], Connect, Send_server f, Parked_at (cstr city)]\<rparr>"
  have p1: "main_pass i s = Some (Go_on ?s1)"
    using start_pass [OF assms(1-3)] assms(4) by (simp add: answered_start_def)
  then have inv1: "loop_inv ?s1" using main_pass_inv [OF assms(1)] by blast
  note p2 = close_pass [OF inv1 _ assms(5,6)]
  obtain s' where s': "main_pass j ?s1 = Some (Go_on s')" "m_status s' = BBB_ON" "m_connected s' = BBB_NOT_CONNECTED"
    "m_payment s' = store_doubles data (m_payment s)"
    "m_log s' = m_log ?s1 @ [Wait_button, Write_stm [BBB_OFF], Send_server g, Receipt receipt, Close_server]"
    using p2 assms(7) by simp
  then have "loop_inv s'" using main_pass_inv [OF inv1] by blast
  with p1 s' show ?thesis by simp
qed

lemma parks_and_pays:
  assumes "bbb_inv s" and "m_status s = BBB_ON" and "m_connected s = BBB_NOT_CONNECTED"
    and "list_all action_ok (m_log s)"
    and "answered_start i f city"
    and "answers j g BBB_OFF" and "i_payment j = Some payment" and "length payment = 2"
    and "final_price_for_costumer payment = Some receipt"
  shows "\<exists>s'. bbb_main [i, j] s = Some (Go_on s') \<and>
    m_log s' = m_log s @ [Wait_button, Write_stm [BBB_ON], Connect, Send_server f, Parked_at (cstr city),
      Wait_button, Write_stm [BBB_OFF], Send_server g, Receipt receipt, Close_server] \<and>
    m_connected s' = BBB_NOT_CONNECTED \<and> m_status s' = BBB_ON"
proof -
  have inv: "loop_inv s" "store_doubles payment (m_payment s) = payment"
    using assms(1,4,8) by (simp_all add: loop_inv_def bbb_inv_def store_doubles_whole)
  with session [OF inv(1) assms(2,3,5-7)] assms(9) show ?thesis by auto
qed

text \<open>
  C13: a complete use of the system as the BBB sees it. A driver who is not parked presses the
  button, the STM answers with a checked frame, the server with a city; at the second press
  the STM answers with a checked closing frame and the server with the bill. The BBB
  forwards exactly these two frames, shows the city and the receipt, and is ready to park
  again.
\<close>

theorem bbb_parks_and_pays:
  assumes "bbb_inv s" and "m_status s = BBB_ON" and "m_connected s = BBB_NOT_CONNECTED"
    and "list_all action_ok (m_log s)"
    and "answered_start i f city"
    and "answers j g BBB_OFF" and "i_payment j = Some payment" and "length payment = 2"
    and "final_price_for_costumer payment = Some receipt"
  shows "\<exists>s'. bbb_main [i, j] s = Some (Go_on s') \<and>
    m_log s' = m_log s @ [Wait_button, Write_stm [BBB_ON], Connect, Send_server f, Parked_at (cstr city),
      Wait_button, Write_stm [BBB_OFF], Send_server g, Receipt receipt, Close_server] \<and>
    m_connected s' = BBB_NOT_CONNECTED \<and> m_status s' = BBB_ON"
  using assms by (rule parks_and_pays)

lemma demo_start_inv: "bbb_inv (bbb_start (replicate 10 0) (replicate 12 nul) [0, 0])"
  by (simp add: bbb_inv_def bbb_start_def bbb_flag_defs)

lemma demo_receipt: "final_price_for_costumer [45 / 2, 3725] = Some (1, 2, 5, 45 / 2)"
  by code_simp

lemma demo_answers: "answers (demo_pass demo_on) demo_on BBB_ON" "answers (demo_pass demo_off) demo_off BBB_OFF"
  using demo_frames_ok by (simp_all add: answers_def demo_pass_def)

lemma demo_answered_start: "answered_start (demo_pass demo_on) demo_on (''Ashkelon'' @ replicate 4 nul)"
  using demo_answers(1) by (simp add: answered_start_def) (simp add: demo_pass_def cstr_def)

theorem bbb_parks_and_pays_witness:
  "\<exists>s'. bbb_main [demo_pass demo_on, demo_pass demo_off] (bbb_start (replicate 10 0) (replicate 12 nul) [0, 0]) = Some (Go_on s') \<and>
    m_log s' = m_log (bbb_start (replicate 10 0) (replicate 12 nul) [0, 0]) @
      [Wait_button, Write_stm [BBB_ON], Connect, Send_server demo_on, Parked_at (cstr (''Ashkelon'' @ replicate 4 nul)),
       Wait_button, Write_stm [BBB_OFF], Send_server demo_off, Receipt (1, 2, 5, 45 / 2), Close_server] \<and>
    m_connected s' = BBB_NOT_CONNECTED \<and> m_status s' = BBB_ON"
  by (rule bbb_parks_and_pays [OF demo_start_inv _ _ _ demo_answered_start demo_answers(2) _ _ demo_receipt])
     (simp_all add: bbb_start_def demo_pass_def bbb_flag_defs)

fun receipts :: "action list \<Rightarrow> (int \<times> int \<times> int \<times> rat) list" where
  "receipts [] = []"
| "receipts (Receipt r # as) = r # receipts as"
| "receipts (a # as) = receipts as"

lemma receipts_append [simp]: "receipts (as @ bs) = receipts as @ receipts bs"
  by (induction as rule: receipts.induct) auto

text \<open>
  C40: when the server closes the connection without a bill (as it does after a failed close),
  the BBB does not notice: it prints the receipt of the previous parking once more, and is
  ready to park again.
\<close>

theorem missing_bill_shows_old_receipt:
  assumes "bbb_inv s" and "m_status s = BBB_ON" and "m_connected s = BBB_NOT_CONNECTED"
    and "list_all action_ok (m_log s)"
    and "answered_start i f city" and "answers j g BBB_OFF" and "i_payment j = Some payment" and "length payment = 2"
    and "final_price_for_costumer payment = Some receipt"
    and "answered_start i' f' city'" and "answers j' g' BBB_OFF" and "i_payment j' = Some []"
  shows "\<exists>s'. bbb_main [i, j, i', j'] s = Some (Go_on s') \<and>
    receipts (m_log s') = receipts (m_log s) @ [receipt, receipt] \<and>
    m_connected s' = BBB_NOT_CONNECTED \<and> m_status s' = BBB_ON"
proof -
  have inv: "loop_inv s" "store_doubles payment (m_payment s) = payment"
    using assms(1,4,8) by (simp_all add: loop_inv_def bbb_inv_def store_doubles_whole)
  obtain s1 where s1: "bbb_main [i, j] s = Some (Go_on s1)" "loop_inv s1" "m_connected s1 = BBB_NOT_CONNECTED"
    "m_status s1 = BBB_ON" "m_payment s1 = payment"
    "receipts (m_log s1) = receipts (m_log s) @ [receipt]"
  proof -
    from session [OF inv(1) assms(2,3,5-7)] inv(2) assms(9) obtain s1 where "bbb_main [i, j] s = Some (Go_on s1)"
      "loop_inv s1" "m_connected s1 = BBB_NOT_CONNECTED" "m_status s1 = BBB_ON" "m_payment s1 = payment"
      "m_log s1 = m_log s @ [Wait_button, Write_stm [BBB_ON], Connect, Send_server f, Parked_at (cstr city),
        Wait_button, Write_stm [BBB_OFF], Send_server g, Receipt receipt, Close_server]" by auto
    then show ?thesis by (intro that [of s1]) simp_all
  qed
  have "store_doubles [] payment = payment" by (simp add: store_doubles_def)
  then obtain s2 where s2: "bbb_main [i', j'] s1 = Some (Go_on s2)" "m_connected s2 = BBB_NOT_CONNECTED"
    "m_status s2 = BBB_ON"
    "receipts (m_log s2) = receipts (m_log s1) @ [receipt]"
  proof -
    from session [OF s1(2,4,3) assms(10-12)] s1(5) assms(9) \<open>store_doubles [] payment = payment\<close> obtain s2 where
      "bbb_main [i', j'] s1 = Some (Go_on s2)" "m_connected s2 = BBB_NOT_CONNECTED" "m_status s2 = BBB_ON"
      "m_log s2 = m_log s1 @ [Wait_button, Write_stm [BBB_ON], Connect, Send_server f', Parked_at (cstr city'),
        Wait_button, Write_stm [BBB_OFF], Send_server g', Receipt receipt, Close_server]" by auto
    then show ?thesis by (intro that [of s2]) simp_all
  qed
  have "bbb_main [i, j, i', j'] s = bbb_main [i', j'] s1"
    using bbb_main_append [of "[i, j]" "[i', j']" s] s1(1) by (simp del: bbb_main.simps)
  with s1(6) s2 show ?thesis by (simp del: bbb_main.simps)
qed

theorem missing_bill_shows_old_receipt_witness:
  "\<exists>s'. bbb_main [demo_pass demo_on, demo_pass demo_off, demo_pass demo_on, (demo_pass demo_off)\<lparr>i_payment := Some []\<rparr>]
      (bbb_start (replicate 10 0) (replicate 12 nul) [0, 0]) = Some (Go_on s') \<and>
    receipts (m_log s') =
      receipts (m_log (bbb_start (replicate 10 0) (replicate 12 nul) [0, 0])) @
      [(1, 2, 5, 45 / 2), (1, 2, 5, 45 / 2)] \<and>
    m_connected s' = BBB_NOT_CONNECTED \<and> m_status s' = BBB_ON"
  by (rule missing_bill_shows_old_receipt [OF demo_start_inv _ _ _ demo_answered_start demo_answers(2) _ _ demo_receipt
        demo_answered_start, where g' = demo_off])
     (use demo_answers(2) in \<open>simp_all add: bbb_start_def demo_pass_def bbb_flag_defs answers_def\<close>)

text \<open>
  A frame that fails the check never leaves the BBB: nothing is sent to the server, the
  connection stays as it is, and the next press repeats the request if the frame's status
  byte arrived intact.
\<close>

theorem bbb_drops_corrupt_frame:
  assumes "bbb_inv s" and "list_all action_ok (m_log s)"
    and "0 < sint (i_poll i)" and "length (i_read i) = 10" and "\<not> frame_ok (i_read i)"
  shows "\<exists>s'. main_pass i s = Some (Go_on s') \<and>
    m_log s' = m_log s @ [Wait_button, Write_stm [m_status s]] \<and>
    m_connected s' = m_connected s \<and> m_location s' = m_location s \<and>
    m_status s' = (if i_read i ! 0 = BBB_ON then BBB_ON else BBB_OFF)"
proof -
  have inv: "loop_inv s" "length (m_data_buff s) = 10" using assms(1,2) by (simp_all add: loop_inv_def bbb_inv_def)
  have poll: "wait_poll_event (i_poll i) \<noteq> BBB_ERROR" using assms(3) by (simp add: wait_poll_event_def BBB_ERROR_def)
  let ?st = "if i_read i ! 0 = BBB_ON then BBB_STAY_ON else BBB_STAY_OFF"
  have a: "after_read i s = s\<lparr>m_data_buff := i_read i, m_status := ?st, m_log := m_log s @ [Wait_button, Write_stm [m_status s]]\<rparr>"
    using assms(4,5) inv(2) by (simp add: after_read_def store_bytes_whole log_action_def Let_def)
  have "?st \<noteq> BBB_ON" "?st \<noteq> BBB_OFF" by (simp_all add: bbb_status_defs)
  then show ?thesis using main_pass_answered [OF inv(1) poll] updating_status_values
    unfolding a by simp
qed

theorem bbb_drops_corrupt_frame_witness:
  "\<exists>s'. main_pass (demo_pass (flip_bits [5] demo_on)) (bbb_start (replicate 10 0) (replicate 12 nul) [0, 0]) = Some (Go_on s') \<and>
    m_log s' = m_log (bbb_start (replicate 10 0) (replicate 12 nul) [0, 0]) @
      [Wait_button, Write_stm [m_status (bbb_start (replicate 10 0) (replicate 12 nul) [0, 0])]] \<and>
    m_connected s' = m_connected (bbb_start (replicate 10 0) (replicate 12 nul) [0, 0]) \<and>
    m_location s' = m_location (bbb_start (replicate 10 0) (replicate 12 nul) [0, 0]) \<and>
    m_status s' = (if i_read (demo_pass (flip_bits [5] demo_on)) ! 0 = BBB_ON then BBB_ON else BBB_OFF)"
proof -
  have "\<not> frame_ok (flip_bits [5] demo_on)"
    using bbb_crc.detects [OF demo_frames_ok(3,1), of "[5]"] by (simp add: detectable_def)
  then show ?thesis using demo_start_inv demo_frames_ok
    by (intro bbb_drops_corrupt_frame) (simp_all add: demo_pass_def bbb_start_def)
qed

text \<open>
  C34: the BBB never notices that it is not connected: the result of \<open>connect\<close> makes no
  difference to a pass, and when nothing can be sent either, the stale contents of the
  location buffer are shown as the place where the parking has started.
\<close>

theorem failed_connection_taken_for_success:
  assumes "bbb_inv s" and "m_status s = BBB_ON" and "m_connected s = BBB_NOT_CONNECTED"
    and "list_all action_ok (m_log s)"
    and "0 < sint (i_poll i)" and "length (i_read i) = 10" and "frame_ok (i_read i)" and "i_read i ! 0 = BBB_ON"
    and "i_socket i \<noteq> -1" and "i_connect i = -1" and "\<not> i_send i"
    and "nul \<in> set (m_location s)" and "cstr (m_location s) \<noteq> ''ERROR''"
  shows "\<exists>s'. main_pass i s = Some (Go_on s') \<and> m_connected s' = BBB_CONNECTED \<and>
    last (m_log s') = Parked_at (cstr (m_location s))"
proof -
  have inv: "loop_inv s" "length (m_data_buff s) = 10" using assms(1,4) by (simp_all add: loop_inv_def bbb_inv_def)
  have poll: "wait_poll_event (i_poll i) \<noteq> BBB_ERROR" using assms(5) by (simp add: wait_poll_event_def BBB_ERROR_def)
  have a: "after_read i s = s\<lparr>m_data_buff := i_read i, m_status := BBB_ON, m_log := m_log s @ [Wait_button, Write_stm [BBB_ON]]\<rparr>"
    using assms(2,6-8) inv(2) by (simp add: after_read_def store_bytes_whole log_action_def Let_def)
  let ?s1 = "s\<lparr>m_data_buff := i_read i, m_status := BBB_ON, m_connected := BBB_CONNECTED,
      m_log := m_log s @ [Wait_button, Write_stm [BBB_ON], Connect, Send_server (i_read i), Parked_at (cstr (m_location s))]\<rparr>"
  have "start_session i (after_read i s) = Some (Inr ?s1)"
    using assms(9,11-13) unfolding a
    by (simp add: start_session_eq send_data_and_receive_location_def crc8_server_side_value_def log_action_def Let_def)
  moreover have "m_status (after_read i s) = BBB_ON" "m_connected (after_read i s) = BBB_NOT_CONNECTED"
    using assms(3) unfolding a by simp_all
  ultimately have "main_pass i s = Some (Go_on (?s1\<lparr>m_status := BBB_OFF\<rparr>))"
    using main_pass_answered [OF inv(1) poll] updating_status_values
    by (simp add: bbb_status_defs)
  then show ?thesis by simp
qed

theorem failed_connection_taken_for_success_witness:
  "\<exists>s'. main_pass ((demo_pass demo_on)\<lparr>i_connect := -1, i_send := False\<rparr>)
      (bbb_start (replicate 10 0) (replicate 12 nul) [0, 0]) = Some (Go_on s') \<and> m_connected s' = BBB_CONNECTED \<and>
    last (m_log s') = Parked_at (cstr (m_location (bbb_start (replicate 10 0) (replicate 12 nul) [0, 0])))"
  using demo_start_inv demo_frames_ok
  by (intro failed_connection_taken_for_success) (simp_all add: demo_pass_def bbb_start_def cstr_def bbb_flag_defs)

definition unanswered :: "pass list \<Rightarrow> nat" where
  "unanswered is = length (filter (\<lambda>i. wait_poll_event (i_poll i) = BBB_ERROR) is)"

lemma session_receive_error:
  "start_session i s = Some (Inr s') \<Longrightarrow> m_receive_error s' = m_receive_error s"
  "close_session i s = Some (Inr s') \<Longrightarrow> m_receive_error s' = m_receive_error s"
  by (auto simp: start_session_def close_session_def Let_def split: if_splits option.splits Option.bind_splits prod.splits)

lemma session_never_goes_on:
  "start_session i s \<noteq> Some (Inl (Go_on s'))" "close_session i s \<noteq> Some (Inl (Go_on s'))"
  by (auto simp: start_session_def close_session_def Let_def split: if_splits option.splits Option.bind_splits prod.splits)

lemma main_pass_errors:
  assumes "loop_inv s" and "main_pass i s = Some (Go_on s')" and "unat (m_receive_error s) < 3"
  shows "unat (m_receive_error s') = unat (m_receive_error s) + unanswered [i] \<and> unat (m_receive_error s') < 3"
proof (cases "wait_poll_event (i_poll i) = BBB_ERROR")
  case True
  have "m_receive_error s \<in> {0, 1, 2}" using assms(3) unsigned_less [of "m_receive_error s"]
    by (auto simp: word_unat_eq_iff)
  with True assms(2) show ?thesis
    by (auto simp: main_pass_timeout unanswered_def bbb_status_defs Let_def split: if_splits)
next
  case False
  let ?s1 = "after_read i s"
  have s1: "m_receive_error ?s1 = m_receive_error s" by (simp add: after_read_def Let_def)
  have "m_receive_error s' = m_receive_error s"
    using assms(2) s1 unfolding main_pass_answered [OF assms(1) False]
    by (auto simp: session_never_goes_on split: Option.bind_splits sum.splits if_splits dest!: session_receive_error)
  with False assms(3) show ?thesis by (simp add: unanswered_def)
qed

text \<open>While the loop goes on, its counter is the number of unanswered passes, and below three.\<close>

lemma bbb_main_counts:
  assumes "loop_inv s" and "bbb_main is s = Some (Go_on s')" and "unat (m_receive_error s) < 3"
  shows "unat (m_receive_error s') = unat (m_receive_error s) + unanswered is \<and> unat (m_receive_error s') < 3"
  using assms
proof (induction "is" arbitrary: s)
  case (Cons i "is")
  then obtain s1 where s1: "main_pass i s = Some (Go_on s1)" "bbb_main is s1 = Some (Go_on s')"
    by (auto split: Option.bind_splits pass_end.splits)
  have "loop_inv s1" using main_pass_inv [OF Cons.prems(1) s1(1)] by simp
  moreover note e = main_pass_errors [OF Cons.prems(1) s1(1) Cons.prems(3)]
  ultimately have "unat (m_receive_error s') = unat (m_receive_error s1) + unanswered is \<and> unat (m_receive_error s') < 3"
    using Cons.IH s1(2) by blast
  with e show ?case by (auto simp: unanswered_def split: if_splits)
qed (simp add: unanswered_def)

text \<open>
  C36: the count of unanswered requests is never reset. As long as the BBB is in its loop, its
  counter is the number of requests without an answer since the start, however many were
  answered in between, and at most two. The first and the second such request leave everything but
  the log and the counter as it was, and the loop goes on; at exactly the third one the BBB leaves
  its loop, sends the restart value to the STM twice, closes the connection and ends, whatever
  further input there would be.
\<close>

theorem third_unanswered_request_ends_client:
  assumes "length b = 10" and "length l = 12" and "length p = 2"
    and "bbb_main is (bbb_start b l p) = Some (Go_on s)" and "wait_poll_event (i_poll i) = BBB_ERROR"
  shows "unat (m_receive_error s) = unanswered is \<and> unanswered is \<le> 2 \<and>
    bbb_main (is @ i # js) (bbb_start b l p) =
      (if unanswered is = 2
       then Some (Leave (s\<lparr>m_receive_error := 3, m_log := m_log s @
         [Wait_button, Write_stm [m_status s], Write_stm [3, 0, 0, 0], Write_stm [3, 0, 0, 0], Close_server]\<rparr>))
       else bbb_main js (s\<lparr>m_log := m_log s @ [Wait_button, Write_stm [m_status s]],
         m_receive_error := m_receive_error s + 1\<rparr>))"
proof -
  have c: "unat (m_receive_error s) = unanswered is" "unanswered is \<le> 2"
    using bbb_main_counts [OF bbb_start_inv [OF assms(1-3)] assms(4)] by (auto simp: bbb_start_def)
  have "unat (m_receive_error s + 1) = unat (m_receive_error s) + 1"
    using c by (intro unat_add_lem [THEN iffD1, THEN trans]) simp_all
  then have "m_receive_error s + 1 = BBB_RESTART \<longleftrightarrow> unanswered is = 2"
    using c by (auto simp: BBB_RESTART_def word_unat_eq_iff)
  moreover have "m_receive_error s = 2" if "unanswered is = 2" using c that by (simp add: word_unat_eq_iff)
  ultimately show ?thesis using c assms(4,5)
    by (simp add: bbb_main_append main_pass_timeout log_action_def restart_bytes_def BBB_RESTART_def Let_def)
qed

theorem third_unanswered_request_ends_client_witness:
  "let t = (demo_pass [])\<lparr>i_poll := 0\<rparr>; start = bbb_start (replicate 10 0) (replicate 12 nul) [0, 0] in
    \<exists>s. bbb_main [t, demo_pass demo_on, t] start = Some (Go_on s) \<and> m_connected s = BBB_CONNECTED \<and>
      bbb_main ([t, demo_pass demo_on, t] @ t # [demo_pass demo_off]) start = Some (Leave (s\<lparr>m_receive_error := 3, m_log := m_log s @
        [Wait_button, Write_stm [BBB_OFF], Write_stm [3, 0, 0, 0], Write_stm [3, 0, 0, 0], Close_server]\<rparr>))"
proof -
  let ?t = "(demo_pass [])\<lparr>i_poll := 0\<rparr>" and ?b = "bbb_start (replicate 10 0) (replicate 12 nul) [0, 0]"
  let ?city = "''Ashkelon'' @ replicate 4 nul"
  have t: "wait_poll_event (i_poll ?t) = BBB_ERROR" by (simp add: wait_poll_event_def BBB_ERROR_def)
  have u: "unanswered [?t, demo_pass demo_on, ?t] = 2"
    by (simp add: unanswered_def) (simp add: wait_poll_event_def BBB_ERROR_def demo_pass_def)
  let ?s1 = "?b\<lparr>m_receive_error := 1, m_log := [Wait_button, Write_stm [BBB_ON]]\<rparr>"
  have 1: "main_pass ?t ?b = Some (Go_on ?s1)"
    using t by (simp add: main_pass_timeout log_action_def BBB_RESTART_def bbb_start_def Let_def)
  then have inv: "loop_inv ?s1" using main_pass_inv [OF bbb_start_inv 1] by simp
  obtain s2 where 2: "main_pass (demo_pass demo_on) ?s1 = Some (Go_on s2)" "m_connected s2 = BBB_CONNECTED"
    "m_status s2 = BBB_OFF" "m_receive_error s2 = 1"
    using start_pass [OF inv _ _ demo_answers(1), of ?city] demo_answered_start
    by (simp add: answered_start_def bbb_start_def bbb_flag_defs)
  obtain s where s: "main_pass ?t s2 = Some (Go_on s)" "m_connected s = BBB_CONNECTED" "m_status s = BBB_OFF"
    using t 2 by (simp add: main_pass_timeout log_action_def BBB_RESTART_def Let_def)
  have run: "bbb_main [?t, demo_pass demo_on, ?t] ?b = Some (Go_on s)" using 1 2(1) s(1) by simp
  from third_unanswered_request_ends_client [OF _ _ _ run t, of "[demo_pass demo_off]"] u s run
  show ?thesis unfolding Let_def by (intro exI [of _ s]) (simp del: bbb_main.simps append_Cons append_Nil)
qed

lemma hms: "h * 3600 + m * 60 + s = 60 * (60 * h + m) + (s :: int)"
  by simp

lemma receipt_fields:
  assumes "0 \<le> secs" and "secs < 2 ^ 31"
  shows "\<exists>h m s. final_price_for_costumer [pay, of_int secs] = Some (h, m, s, pay) \<and>
    0 \<le> h \<and> h < 24 \<and> 0 \<le> m \<and> m < 60 \<and> 0 \<le> s \<and> s < 60 \<and> h * 3600 + m * 60 + s = secs mod 86400"
proof -
  let ?h = "secs div 60 div 60 mod 24" and ?m = "secs div 60 mod 60" and ?s = "secs mod 60"
  have c: "c_int_of_double (of_int secs) = Some secs" using assms by (simp add: c_int_of_double_def)
  have d: "(secs sdiv 60) sdiv 60 smod 24 = ?h" "(secs sdiv 60) smod 60 = ?m" "secs smod 60 = ?s"
    using assms(1) by (simp_all only: c_div_pos c_mod_pos pos_imp_zdiv_nonneg_iff zero_less_numeral)
  have "?h * 3600 + ?m * 60 + ?s = secs mod 86400"
  proof -
    have day: "(86400 :: int) = 60 * (60 * 24)" by simp
    have "secs mod (60 * (60 * 24)) = 60 * (secs div 60 mod (60 * 24)) + ?s" by (rule zmod_zmult2_eq) simp
    also have "secs div 60 mod (60 * 24) = 60 * ?h + ?m" by (rule zmod_zmult2_eq) simp
    finally show ?thesis by (simp only: hms day)
  qed
  moreover have "0 \<le> ?h" "?h < 24" "0 \<le> ?m" "?m < 60" "0 \<le> ?s" "?s < 60" by simp_all
  moreover have "final_price_for_costumer [pay, of_int secs] = Some (?h, ?m, ?s, pay)"
    by (simp add: final_price_for_costumer_def c d)
  ultimately show ?thesis by blast
qed

text \<open>
  The receipt shows the time of the bill in hours, minutes and seconds, but only up to 24
  hours: whole days are dropped, while the price is shown as it was sent.
\<close>

theorem receipt_drops_whole_days:
  assumes "0 \<le> secs" and "secs < 2 ^ 31"
  shows "\<exists>h m s. final_price_for_costumer [pay, of_int secs] = Some (h, m, s, pay) \<and>
    0 \<le> h \<and> h < 24 \<and> 0 \<le> m \<and> m < 60 \<and> 0 \<le> s \<and> s < 60 \<and> h * 3600 + m * 60 + s = secs mod 86400"
  using assms by (rule receipt_fields)

theorem receipt_drops_whole_days_witness:
  "\<exists>h m s. final_price_for_costumer [9, of_int 90061] = Some (h, m, s, 9) \<and>
    0 \<le> h \<and> h < 24 \<and> 0 \<le> m \<and> m < 60 \<and> 0 \<le> s \<and> s < 60 \<and> h * 3600 + m * 60 + s = 90061 mod 86400"
  by (rule receipt_drops_whole_days) simp_all

text \<open>What both functions do to \<open>c_cflag\<close>.\<close>

definition uart_cflag :: "uint32 \<Rightarrow> uint32" where
  "uart_cflag c = (((c OR (CLOCAL OR CREAD)) AND NOT PARENB) AND NOT CSTOPB) AND NOT CSIZE OR CS8"

lemma word32_eqI:
  assumes "list_all (\<lambda>n. bit a n = bit b n)
    [0, 1, 2, 3, 4, 5, 6, 7, 8, 9, 10, 11, 12, 13, 14, 15,
     16, 17, 18, 19, 20, 21, 22, 23, 24, 25, 26, 27, 28, 29, 30, 31]"
  shows "a = (b :: uint32)"
proof (rule bit_word_eqI)
  fix n assume "n < LENGTH(32)"
  then have "n \<in> set [0..<32]" by simp
  also have "[0..<32] = [0, 1, 2, 3, 4, 5, 6, 7, 8, 9, 10, 11, 12, 13, 14, 15,
     16, 17, 18, 19, 20, 21, 22, 23, 24, 25, 26, 27, 28, 29, 30, 31]" by code_simp
  finally show "bit a n = bit b n" using assms unfolding list_all_iff by (rule bspec [rotated])
qed

lemma clear_mask: "(x AND NOT m) AND m = (0 :: uint32)" "(x AND NOT m) AND NOT m = x AND NOT (m :: uint32)"
  by (auto intro!: bit_word_eqI simp: bit_simps)

lemma uart_cflag_bits:
  "uart_cflag c AND (CLOCAL OR CREAD OR CS8) = (CLOCAL OR CREAD OR CS8)"
  "uart_cflag c AND (PARENB OR CSTOPB) = 0"
  "uart_cflag c AND NOT (CLOCAL OR CREAD OR CSIZE OR PARENB OR CSTOPB) =
    c AND NOT (CLOCAL OR CREAD OR CSIZE OR PARENB OR CSTOPB)"
  by (rule word32_eqI, simp add: uart_cflag_def termios_defs bit_simps)+

text \<open>The setting of a UART against the attributes \<open>opt\<close> it had.\<close>

definition raw_8n1 :: "termios \<Rightarrow> termios \<Rightarrow> bool" where
  "raw_8n1 opt t \<longleftrightarrow> c_speed t = B115200 \<and>
    c_cflag t AND (CLOCAL OR CREAD OR CS8) = (CLOCAL OR CREAD OR CS8) \<and> c_cflag t AND (PARENB OR CSTOPB) = 0 \<and>
    c_lflag t AND (ICANON OR ECHO OR ECHOE OR ISIG) = 0 \<and> c_iflag t AND (IXON OR IXOFF OR IXANY) = 0 \<and>
    c_oflag t AND OPOST = 0 \<and>
    c_cflag t AND NOT (CLOCAL OR CREAD OR CSIZE OR PARENB OR CSTOPB) =
      c_cflag opt AND NOT (CLOCAL OR CREAD OR CSIZE OR PARENB OR CSTOPB) \<and>
    c_lflag t AND NOT (ICANON OR ECHO OR ECHOE OR ISIG) = c_lflag opt AND NOT (ICANON OR ECHO OR ECHOE OR ISIG) \<and>
    c_iflag t AND NOT (IXON OR IXOFF OR IXANY) = c_iflag opt AND NOT (IXON OR IXOFF OR IXANY) \<and>
    c_oflag t AND NOT OPOST = c_oflag opt AND NOT OPOST"

lemma init_uart_raw: "\<exists>t. init_uart1 fd opt = (fd, t) \<and> init_uart4 fd opt = (fd, t) \<and> raw_8n1 opt t"
proof -
  let ?t = "opt\<lparr>c_speed := B115200, c_cflag := uart_cflag (c_cflag opt),
      c_lflag := c_lflag opt AND NOT (ICANON OR ECHO OR ECHOE OR ISIG),
      c_iflag := c_iflag opt AND NOT (IXON OR IXOFF OR IXANY), c_oflag := c_oflag opt AND NOT OPOST\<rparr>"
  have "init_uart1 fd opt = (fd, ?t)" "init_uart4 fd opt = (fd, ?t)"
    by (simp_all add: init_uart1_def init_uart4_def uart_cflag_def Let_def)
  moreover have "c_speed ?t = B115200" "c_cflag ?t = uart_cflag (c_cflag opt)"
    "c_lflag ?t = c_lflag opt AND NOT (ICANON OR ECHO OR ECHOE OR ISIG)"
    "c_iflag ?t = c_iflag opt AND NOT (IXON OR IXOFF OR IXANY)" "c_oflag ?t = c_oflag opt AND NOT OPOST"
    by simp_all
  then have "raw_8n1 opt ?t" unfolding raw_8n1_def by (simp only: clear_mask uart_cflag_bits)
  ultimately show ?thesis by blast
qed

text \<open>
  After the set-up of the BBB both UARTs run at 115200 baud with eight data bits, no parity,
  one stop bit, the receiver enabled, and no line editing, echo, signals, flow control or output
  processing; every other flag is as it was. The two poll entries watch these descriptors for
  input, the STM's UART first.
\<close>

theorem uarts_are_raw_8n1:
  assumes "length fds = NUM_OF_UARTS_USED"
  shows "\<exists>s. main_setup fd1 opt1 fd4 opt4 fds = Some s \<and> uart1_fd s = fd1 \<and> uart4_fd s = fd4 \<and>
    raw_8n1 opt1 (uart1_options s) \<and> raw_8n1 opt4 (uart4_options s) \<and>
    map pfd_fd (poll_fds s) = [fd1, fd4] \<and> (\<forall>p\<in>set (poll_fds s). pfd_events p = POLLIN)"
proof -
  obtain t1 t4 where "init_uart1 fd1 opt1 = (fd1, t1)" "raw_8n1 opt1 t1" "init_uart4 fd4 opt4 = (fd4, t4)" "raw_8n1 opt4 t4"
    using init_uart_raw by metis
  moreover obtain a b where "fds = [a, b]"
    using assms by (auto simp: NUM_OF_UARTS_USED_def length_Suc_conv numeral_2_eq_2)
  ultimately show ?thesis
    by (simp add: main_setup_def UART1_def UART4_def init_poll_event_def)
qed

definition demo_termios :: termios where
  "demo_termios = \<lparr>c_iflag = 0x500, c_oflag = 5, c_cflag = 0xCBD, c_lflag = 0x8A3B, c_speed = 0xD\<rparr>"

definition demo_pollfds :: "pollfd list" where
  "demo_pollfds = [\<lparr>pfd_fd = 0, pfd_events = 0\<rparr>, \<lparr>pfd_fd = 0, pfd_events = 0\<rparr>]"

theorem uarts_are_raw_8n1_witness:
  "\<exists>s. main_setup 4 demo_termios 5 demo_termios demo_pollfds = Some s \<and> uart1_fd s = 4 \<and> uart4_fd s = 5 \<and>
    raw_8n1 demo_termios (uart1_options s) \<and> raw_8n1 demo_termios (uart4_options s) \<and>
    map pfd_fd (poll_fds s) = [4, 5] \<and> (\<forall>p\<in>set (poll_fds s). pfd_events p = POLLIN)"
  by (rule uarts_are_raw_8n1) (simp add: demo_pollfds_def NUM_OF_UARTS_USED_def)

end
