(* ===== verification/Spec2Isabelle.thy ===== *)
theory Spec2Isabelle
  imports Server_Branches Server_Interleaved Server_Progress Server_Bills Server_Torn Server_Sockets Server_Layout Server_Main Price_Db Stm_Tools Bbb_Main
begin

text \<open>
  PANNGO is a parking meter for vehicles. It consists of three C programs, and this library
  models all of them.

    \<^item> The STM board (\<open>src/STM/PANGO_L/PNG\<close>) sits in the vehicle. When it receives a status byte
      it sends a frame of ten bytes over a UART: the status, its MAC address, two coordinates
      and a CRC-8.
    \<^item> The BBB (\<open>src/client\<close>), a BeagleBone, asks its board for a frame at every press of a
      button, checks it, forwards it to the server over TCP, and shows the city and later the
      receipt.
    \<^item> The server (\<open>src/server\<close>) runs one thread per connection. A start frame inserts the vehicle
      in an SQLite table and answers with the city of the coordinates; a close frame bills the
      seconds since the start and removes the row; a lost connection saves the seconds, and
      the next start of that vehicle continues from them. A backup thread saves the seconds of the
      connected vehicles all the time.

  \<^bold>\<open>The model.\<close> C integers are words of their width (\<open>byte\<close>, \<open>int32\<close>, \<open>uint32\<close>), structs are
  records, \<open>#define\<close> and \<open>enum\<close> values are constants with the names of the sources. A function
  that touches memory, or computes in a signed type, returns an option: \<open>None\<close> is undefined
  behaviour (an access outside of a buffer, a string without a NUL, signed overflow, locking a
  mutex twice), so a theorem that gives \<open>Some\<close> also shows its absence. Results of the network,
  of \<open>poll\<close> and of the HAL are arguments, one value per call; a loop over them is a recursion
  over the list of these values and needs no fuel. The clock is a function from the number of the
  reading to seconds.

  \<^bold>\<open>The theories.\<close>

    \<^item> \<open>Pango_Prelude\<close>: machine integers, C strings and buffers, \<open>%d\<close> and \<open>%X\<close>.
    \<^item> \<open>Crc8\<close>: \<open>calculate_crc8\<close> (\<open>pango_functions.c\<close>), \<open>calculateCRC8\<close> (\<open>client_func.c\<close>) and
      \<open>calculateCRC8\<close> (\<open>client_thread_func.c\<close>), each as it is written; a locale gives the lemmas
      every routine shares (the value, its place at the end of a frame, the detected errors) and is
      interpreted for the three. The value is a remainder over GF(2).
    \<^item> \<open>Binary64\<close>: finite doubles as rationals, with rounding to nearest even and its error.
    \<^item> \<open>Sqlite_Engine\<close>: SQLite is not part of the repository. It is the parameter \<open>eng\<close>; the
      locale \<open>sqlite_contract\<close> states what the server relies on, for the seven statement texts the
      server prints; an engine that parses these texts interprets it.
    \<^item> \<open>Server_Data\<close>, \<open>Server_Frame\<close>, \<open>Server_Client\<close>, \<open>Server_Thread\<close>: the code of
      \<open>client_thread.h\<close>, \<open>client_thread_func.c\<close>, \<open>new_client.c\<close>, \<open>existing_client.c\<close> and
      \<open>client_thread.c\<close>, one definition per function, the loop body and the exit switch of
      \<open>pango_client\<close> as \<open>pango_iteration\<close> and \<open>pango_exit\<close>. The record \<open>world\<close> holds what the
      thread shares: the two databases, the clock, the mutex, the open statements, the messages,
      the closed sockets. \<open>Server_Layout\<close>: the five declarations of the record have one layout.
    \<^item> \<open>Server_Safety\<close>: an invariant of the thread, kept by every handler for every input and
      every database behaviour the contract allows.
    \<^item> \<open>Server_Billing\<close>: the abstract parking meter, and a lemma per handler that relates it to
      the code; \<open>Server_Session\<close>: the refinement theorem and sequences of sessions;
      \<open>Server_Branches\<close>: single operations and error branches.
    \<^item> \<open>Backup_Thread\<close>: \<open>db_update_thread.c\<close> and \<open>db_update_thread_func.c\<close>; the client records it
      reads are an argument of each of its iterations.
    \<^item> \<open>Server_Threads\<close>: all threads together. \<open>receive_section\<close> and \<open>act_section\<close> cut
      \<open>pango_client\<close> into sections with at most one critical section each; \<open>take_turn\<close> lets one
      thread run its next section, or accepts a connection, or runs an iteration of the backup
      thread over \<open>client_array\<close>; a schedule is a list of turns. \<open>Server_Isolation\<close>: the frame rule,
      what the turns of other threads leave alone. \<open>Server_Interleaved\<close>: parking among other
      threads. \<open>Server_Sockets\<close>: which thread writes to which socket. \<open>Server_Progress\<close>: a rank of
      the sections, by which no thread stalls.
    \<^item> \<open>Car_Park\<close>: the specification of the whole server, a car park with the rows of the table, one
      bay per connection and a clock, without buffers, machine words, statements, locks or
      handles; \<open>park_turn\<close> is one turn of it and \<open>park_of\<close> the abstraction. \<open>Server_Refinement\<close>: a
      simulation lemma per section, and every schedule as a run of the car park.
      \<open>Server_Bills\<close>: an invariant of the car park and what it says of the server's bills.
      \<open>Server_Loopholes\<close>: runs of the car park that are computed, and carried over to the server.
    \<^item> \<open>Server_Passes\<close>: the loop of \<open>store_client_data_in_struct\<close> one pass at a time; \<open>torn_turn\<close> is a
      turn in which the backup thread reads the record between two passes. \<open>Server_Torn\<close>: the
      car park and the refinement with these turns.
    \<^item> \<open>Server_Main\<close>: \<open>main_server.c\<close>, its start-up, its accept loop, the code after it, and \<open>main\<close>
      as their composition, with a trace of the calls.
    \<^item> \<open>Price_Db\<close>: \<open>sql_price_db_create.c\<close>, over a contract of its own.
    \<^item> \<open>Stm_Board\<close>: \<open>PNG.c\<close>, \<open>pango_functions.c\<close>, \<open>random_number_generator.c\<close> and
      \<open>ethernet_communication.c\<close>. The main loop and the receive interrupt are the two rules of the
      relation \<open>board_step\<close>: \<open>main_PNG_step\<close> is one statement of the loop, so that an interrupt may
      come between any two of them. The field \<open>b_sent\<close> is what the main loop transmits, \<open>b_stray\<close> the
      address from which the interrupt transmits its one byte before it halts. \<open>Stm_Tools\<close>: \<open>Tools.c\<close>.
    \<^item> \<open>Bbb_Client\<close>, \<open>Bbb_Main\<close>: \<open>client_func.c\<close>, the connection checks, \<open>tcp.c\<close>,
      \<open>poll_functions.c\<close>, \<open>uart.c\<close>, the set-up and the loop of \<open>main_client.c\<close>, with a log of what the
      program does to the outside.
    \<^item> This theory: the properties that span the programs.

  \<^bold>\<open>What is shown.\<close> The frame a board sends is one that the BBB and the server accept
  (\<open>board_sends_good_frames\<close>, \<open>board_frames_are_accepted_downstream\<close>); a corrupt frame is not acted
  on (\<open>bbb_forwards_only_checked_frames\<close>, \<open>bbb_drops_corrupt_frame\<close>,
  \<open>transmission_error_is_never_acted_on\<close>). A client thread alone is safe (\<open>client_thread_safe\<close>),
  does what the meter does (\<open>client_thread_refines_meter\<close>), and bills interrupted parkings for
  the sum of their parts, once (\<open>interrupted_parking_is_billed_once\<close>), also after a crash of the server
  (\<open>backup_survives_crash\<close>). The sections of a thread are the thread (\<open>thread_is_its_sections\<close>);
  every schedule of them is safe (\<open>every_interleaving_is_safe\<close>), lets no thread stall
  (\<open>no_thread_stalls\<close>), keeps the records and sockets
  apart (\<open>records_keep_shape_and_socket\<close>), and bills a vehicle as if it were alone as long as no other
  connection uses its address (\<open>interleaved_parking_is_billed_alone\<close>). On healthy databases every
  schedule, also with several connections of one vehicle, failing calls of \<open>recv\<close> and bytes of any
  kind, does what the car park does (\<open>every_schedule_refines_the_car_park\<close>), and bills only prices
  of the list times seconds that have passed (\<open>every_bill_is_price_times_seconds\<close>). Backups that
  read an address while it is printed leave out its vehicle and touch no other
  (\<open>torn_schedules_refine_the_car_park\<close>). From the
  press of the button to the receipt, the three programs together, in a fleet of vehicles, give the
  right city and bill (\<open>press_to_receipt\<close>, \<open>fleet_parking_end_to_end\<close>,
  \<open>bbb_parks_and_pays\<close>). The car park also shows what goes wrong: two threads can insert the same vehicle (\<open>racing_starts_insert_twice\<close>), a vehicle can close without
  having started (\<open>close_without_start_is_free\<close>), restart its meter
  (\<open>second_start_restarts_the_meter\<close>), write its seconds into the row of another with a frame that asks for nothing
  (\<open>frame_of_another_vehicle_takes_its_row\<close>), or be billed while it is not connected
  (\<open>corrupt_frame_leaves_meter_running\<close>). The rest are properties of single parts and of the error
  paths; several of these describe a defect of the code as it is.

  \<^bold>\<open>Bounds.\<close> The clock never goes back and stays within the \<open>int\<close> seconds of 1970 to 2038
  (\<open>clock_ok\<close>) where a difference of two readings is billed; \<open>gettimeofday\<close> does not promise that
  the system time is never set back, so this is an assumption. A bill is the rational product
  rounded to 53 bits, which is the product of C as long as it does not overflow (\<open>Binary64\<close>;
  \<open>bill_is_accurate\<close> has the bounds as hypotheses). The runs of the board take eight statements of its
  loop for an answer. The accept loop is unbounded in the number of its connections; a schedule
  is of any length and accepts at most ten, the size of the array. A thread that runs alone takes
  four turns after a frame, enough for the longest path through its body and exit.

  \<^bold>\<open>Not modelled.\<close> Races inside of a section, with one exception: the MAC address, the only
  part of a record longer than a word that a backup reads and that its thread writes without the
  mutex, may be read after each \<open>sprintf\<close> (\<open>Server_Passes\<close>), but not within one. A new client
  is entered in three sections, before, in and after the critical section of
  \<open>process_client_data\<close>, as the code locks it; elsewhere what a section does before it locks the
  mutex and after it unlocks it, on the thread's own data and socket, is one step with it (a backup
  saves only records that are marked as connected: \<open>backup_reads_only_connected\<close>); SQLite, the
  HAL and the C library beyond what the code uses of them; the text that \<open>printf\<close> writes, with
  the \<open>%.2f\<close> of the price; \<open>sleep\<close> and \<open>tcflush\<close>; signals; the Makefiles and the database files.
\<close>

section \<open>One checksum on three machines\<close>

text \<open>
  C25: the three checksum routines agree: on every array and every length they give the same
  byte or fault together, and that byte is the remainder of the message, preceded by the
  initial value 0xFF and followed by eight zero bits, modulo the polynomial 0x18D over GF(2).
\<close>

theorem checksums_are_one_remainder:
  "stm_calculate_crc8 data len = bbb_calculateCRC8 data len \<and> bbb_calculateCRC8 data len = srv_calculateCRC8 data len \<and>
   (case srv_calculateCRC8 data len of
      None \<Rightarrow> length data < len
    | Some crc \<Rightarrow> len \<le> length data \<and>
        gf2_cong (unat crc) (push_bit (8 * len) 0xFF XOR push_bit 8 (message_poly (take len data))))"
proof (cases "len \<le> length data")
  case True
  have "gf2_cong (unat (crc8 (take len data)))
      (push_bit (8 * length (take len data)) 0xFF XOR push_bit 8 (message_poly (take len data)))"
    using crc8_remainder [of "unat (crc8 (take len data))" "take len data"] unsigned_less [of "crc8 (take len data)"] by simp
  with True show ?thesis by (simp add: stm_crc.crc_ref bbb_crc.crc_ref srv_crc.crc_ref)
next
  case False
  then show ?thesis by (simp add: stm_crc.crc_ref bbb_crc.crc_ref srv_crc.crc_ref)
qed

section \<open>From the board to the city\<close>

lemma good_frame_city:
  assumes "good_frame mac f"
  shows "frame_city f \<in> set cities" and "frame_city f \<noteq> ''ERROR''" and "frame_mac f = mac_text mac"
proof -
  have "unat (f ! 7) \<le> 127" "unat (f ! 8) \<le> 127" using assms by (simp_all add: good_frame_def)
  then show c: "frame_city f \<in> set cities"
    by (auto simp: frame_city_def location_name_def city_of_def cities_def)
  then show "frame_city f \<noteq> ''ERROR''" by (auto simp: cities_def)
  have "drop 1 (take 7 f) = take 6 (drop 1 f)" by (simp add: drop_take)
  then show "frame_mac f = mac_text mac" using assms by (simp add: frame_mac_def good_frame_def)
qed

lemma sent_good:
  assumes "reachable mac b" and "length mac = 6" and "f \<in> set (b_sent b)"
  shows "good_frame mac f"
  using reachable_inv [OF assms(1,2)] assms(3) by (auto simp: board_inv_def list_all_iff)

text \<open>
  C12: every frame an STM board ever sends passes the check of the BBB with its status kept,
  passes the check of the server, is a start or a close request there, names the board's MAC
  address, and lies in one of the four cities.
\<close>

theorem board_frames_are_accepted_downstream:
  assumes "reachable mac b" and "length mac = 6" and "f \<in> set (b_sent b)"
  shows "bbb_CRC_8_check f BBB_PANGO_DATA_SIZE (f ! 0) = Some (f ! 0) \<and>
    CRC_8_check f PANGO_DATA_SIZE st = Some (TRUE, st) \<and>
    f ! 0 \<in> {START_APP, CLOSE_APP} \<and>
    event_of f = Request (f ! 0) (mac_text mac) (f ! 7) (f ! 8) \<and> frame_city f \<in> set cities"
proof -
  have g: "good_frame mac f" by (rule sent_good [OF assms])
  then have len: "length f = 10" "frame_ok f" "f \<noteq> []" by (auto simp: good_frame_def)
  have "event_of f = Request (f ! 0) (frame_mac f) (f ! 7) (f ! 8)" using len by (simp add: event_of_def frame_mac_def)
  with g len good_frame_city [OF g] bbb_CRC_8_check_eq [OF len(1)] CRC_8_check_iff [OF len(1)] show ?thesis
    by (auto simp: good_frame_def stm_defs status_defs)
qed

theorem board_frames_are_accepted_downstream_witness:
  "let f = hd (b_sent demo_served) in
    bbb_CRC_8_check f BBB_PANGO_DATA_SIZE (f ! 0) = Some (f ! 0) \<and>
    CRC_8_check f PANGO_DATA_SIZE 2 = Some (TRUE, 2) \<and>
    f ! 0 \<in> {START_APP, CLOSE_APP} \<and>
    event_of f = Request (f ! 0) (mac_text demo_mac) (f ! 7) (f ! 8) \<and> frame_city f \<in> set cities"
  unfolding Let_def
  by (rule board_frames_are_accepted_downstream [OF demo_served_reachable])
     (simp_all add: demo_mac_def hd_in_set [OF demo_served_fields(4)])

section \<open>The server's error message\<close>

text \<open>
  C33: the BBB recognizes the server's error message only in a cleared location buffer. The
  message has no NUL, so over the name of any earlier city the comparison reads on into that
  name, and the BBB reports that the parking has started.
\<close>

theorem earlier_city_hides_server_error:
  assumes "err_msg = Chars e"
    and "location_func x y (replicate LOCATION_SIZE nul) = Some l" and "unat x \<le> 127" and "unat y \<le> 127"
  shows "crc8_server_side_value st (store_chars e (replicate LOCATION_SIZE nul)) conn = Some (BBB_STAY_ON, BBB_NOT_CONNECTED) \<and>
    crc8_server_side_value st (store_chars e l) conn = Some (st, BBB_CONNECTED)"
proof
  have e: "e = ''ERROR''" using assms(1) by (simp add: err_msg_def)
  show "crc8_server_side_value st (store_chars e (replicate LOCATION_SIZE nul)) conn = Some (BBB_STAY_ON, BBB_NOT_CONNECTED)"
    by (simp add: e crc8_server_side_value_def store_chars_def size_defs cstr_def)
  have "location_name x y \<in> set cities"
    using assms(3,4) by (auto simp: location_name_def city_of_def cities_def)
  moreover have "c_write (replicate LOCATION_SIZE nul) 0 (location_name x y) = Some l"
    using assms(2) by (simp add: location_func_eq)
  ultimately show "crc8_server_side_value st (store_chars e l) conn = Some (st, BBB_CONNECTED)"
    by (auto simp: e cities_def c_write_def size_defs crc8_server_side_value_def store_chars_def cstr_def)
qed

theorem earlier_city_hides_server_error_witness:
  "crc8_server_side_value 1 (store_chars ''ERROR'' (replicate LOCATION_SIZE nul)) 0 = Some (BBB_STAY_ON, BBB_NOT_CONNECTED) \<and>
   crc8_server_side_value 1 (store_chars ''ERROR'' (''Jerusalem'' @ replicate 3 nul)) 0 = Some (1, BBB_CONNECTED)"
proof -
  have "location_func 3 99 (replicate LOCATION_SIZE nul) = Some (''Jerusalem'' @ replicate 3 nul)"
    by (simp add: location_func_def c_write_def size_defs) (simp add: numeral_3_eq_3 numeral_2_eq_2)
  with earlier_city_hides_server_error [of "''ERROR''" 3 99 "''Jerusalem'' @ replicate 3 nul" 1 0]
  show ?thesis by (simp add: err_msg_def)
qed

section \<open>Parking, end to end\<close>

lemma connected_for_range:
  assumes "world_ok tbl w"
  shows "0 \<le> connected_for w k" and "connected_for w k < 2 ^ 31"
proof -
  have "clock w (ticks w + 2 * k) \<le> clock w (ticks w + 2 * k + 1)"
    using assms by (auto simp: world_ok_def clock_ok_def intro: monoD)
  then show "0 \<le> connected_for w k" by (simp add: connected_for_def)
  have "0 \<le> clock w (ticks w + 2 * k)" "clock w (ticks w + 2 * k + 1) < 2 ^ 31"
    using assms clock_range by (auto simp: world_ok_def)
  then show "connected_for w k < 2 ^ 31" by (simp add: connected_for_def)
qed

text \<open>A BBB that gets these two answers from the server shows them.\<close>

lemma bbb_relays:
  assumes "0 \<le> used" and "used < 2 ^ 31" and "length l = LOCATION_SIZE" and "nul \<in> set l" and "cstr l = city" and "city \<noteq> ''ERROR''"
    and "loop_inv bbb \<and> m_status bbb = BBB_ON \<and> m_connected bbb = BBB_NOT_CONNECTED \<and>
      answers i s BBB_ON \<and> i_answer i = Got l \<and> answers j c BBB_OFF \<and> i_payment j = Some [pay, of_int used]"
  shows "\<exists>bbb' h m sec. bbb_main [i, j] bbb = Some (Go_on bbb') \<and>
    m_log bbb' = m_log bbb @ [Wait_button, Write_stm [BBB_ON], Connect, Send_server s, Parked_at city,
      Wait_button, Write_stm [BBB_OFF], Send_server c, Receipt (h, m, sec, pay), Close_server] \<and>
    h * 3600 + m * 60 + sec = used mod 86400"
proof -
  obtain h m sec where r: "final_price_for_costumer [pay, of_int used] = Some (h, m, sec, pay)"
    "h * 3600 + m * 60 + sec = used mod 86400" using receipt_fields [OF assms(1,2)] by blast
  show ?thesis
    using parks_and_pays [of bbb i s l j c, OF _ _ _ _ _ _ _ _ r(1)] assms(3-7) r(2)
    by (auto simp: loop_inv_def answered_start_def size_defs)
qed

text \<open>
  One vehicle and its thread alone. Take a start and a close frame that an STM board has sent,
  for a vehicle that is not parked. The server's thread answers with the city and the bill; a BBB
  that receives these frames from its board and these answers from the server shows that
  city and a receipt with the seconds between the server's two clock readings (up to whole
  days) and the price of these seconds in that city; the table is as it was before.
\<close>

theorem parking_end_to_end:
  assumes "reachable mac b" and "length mac = 6" and "s \<in> set (b_sent b)" and "c \<in> set (b_sent b)"
    and "s ! 0 = ON" and "c ! 0 = OFF"
    and "sqlite_contract eng tbl prices healthy" and "session_world tbl healthy prices ps w"
    and "\<forall>r\<in>set (tbl (db_client w)). p_mac r \<noteq> mac_text mac"
    and "used = connected_for w 0" and "pay = double_mult (city_price ps (frame_city s) 0) (of_int used)"
  shows "\<exists>w' f1 f2 l. serve eng [(fd, [Received s, Received c])] w = Some w' \<and>
    tbl (db_client w') = tbl (db_client w) \<and>
    outbox w' = outbox w @ [(f1, Chars l), (f2, Doubles [pay, of_int used])] \<and>
    (\<forall>bbb i j. loop_inv bbb \<and> m_status bbb = BBB_ON \<and> m_connected bbb = BBB_NOT_CONNECTED \<and>
        answers i s BBB_ON \<and> i_answer i = Got l \<and> answers j c BBB_OFF \<and> i_payment j = Some [pay, of_int used] \<longrightarrow>
      (\<exists>bbb' h m sec. bbb_main [i, j] bbb = Some (Go_on bbb') \<and>
        m_log bbb' = m_log bbb @ [Wait_button, Write_stm [BBB_ON], Connect, Send_server s, Parked_at (frame_city s),
          Wait_button, Write_stm [BBB_OFF], Send_server c, Receipt (h, m, sec, pay), Close_server] \<and>
        h * 3600 + m * 60 + sec = used mod 86400))"
proof -
  have g: "good_frame mac s" "good_frame mac c" using sent_good [OF assms(1,2)] assms(3,4) by simp_all
  note cs = good_frame_city [OF g(1)]
  have "parking_frames s c (tbl (db_client w))"
    using g assms(5,6,9) good_frame_city(3) by (auto simp: parking_frames_def good_frame_def stm_defs status_defs)
  moreover have "tbl (db_client w) = parked_rows s (tbl (db_client w)) 0 0" by (simp add: parked_rows_def)
  moreover have "used = 0 + (clock w (ticks w + 1) - clock w (ticks w))" using assms(10) by (simp add: connected_for_def)
  ultimately obtain w' where w': "serve eng [(fd, [Received s, Received c])] w = Some w'"
    "tbl (db_client w') = tbl (db_client w)" "sent_more (outbox w) (outbox w')"
    "map (\<lambda>(_, m). view_msg m) (outbox w') = map (\<lambda>(_, m). view_msg m) (outbox w) @ [Text (frame_city s), Bill pay (of_int used)]"
    using session_closed [OF assms(7,8), of s c "tbl (db_client w)" s 0 0 used fd] assms(11) by auto
  obtain f1 f2 l where l: "outbox w' = outbox w @ [(f1, Chars l), (f2, Doubles [pay, of_int used])]"
    "length l = LOCATION_SIZE" "nul \<in> set l" "cstr l = frame_city s"
    using session_messages [OF w'(3,4) cs(2)] by blast
  have used: "0 \<le> used" "used < 2 ^ 31"
    using connected_for_range [of tbl w] assms(8,10) by (auto simp: session_world_def)
  note relay = bbb_relays [OF used l(2,3,4) cs(2), where s = s and c = c]
  with w'(1,2) l(1) show ?thesis by blast
qed

definition demo_two_requests :: board where
  "demo_two_requests =
     the (run_main (replicate 8 demo_hal)
       (receive_byte OFF HAL_OK (the (run_main (replicate 8 demo_hal) (receive_byte ON HAL_OK demo_board)))))"

lemma demo_two_requests_run:
  "run_main (replicate 8 demo_hal) (receive_byte ON HAL_OK demo_board) =
     Some (the (run_main (replicate 8 demo_hal) (receive_byte ON HAL_OK demo_board)))"
  "run_main (replicate 8 demo_hal)
     (receive_byte OFF HAL_OK (the (run_main (replicate 8 demo_hal) (receive_byte ON HAL_OK demo_board)))) =
   Some demo_two_requests"
  "running (the (run_main (replicate 8 demo_hal) (receive_byte ON HAL_OK demo_board)))"
  "b_armed (the (run_main (replicate 8 demo_hal) (receive_byte ON HAL_OK demo_board)))"
  by code_simp+

lemma demo_two_requests_reachable: "reachable demo_mac demo_two_requests"
proof -
  have "running demo_board" by (simp add: running_def demo_board_fields)
  then have "reachable demo_mac (receive_byte ON HAL_OK demo_board)"
    using demo_board_reachable demo_board_fields(2) by (blast intro: reachable.step board_step.interrupt)
  from reachable_run [OF demo_two_requests_run(1) this] demo_two_requests_run(3,4)
  have "reachable demo_mac (receive_byte OFF HAL_OK (the (run_main (replicate 8 demo_hal) (receive_byte ON HAL_OK demo_board))))"
    by (blast intro: reachable.step board_step.interrupt)
  from reachable_run [OF demo_two_requests_run(2) this] show ?thesis .
qed

lemma demo_two_requests_sent: "length (b_sent demo_two_requests) = 2"
  "b_sent demo_two_requests ! 0 ! 0 = ON" "b_sent demo_two_requests ! 1 ! 0 = OFF"
  by code_simp+

theorem parking_end_to_end_witness:
  "let s = b_sent demo_two_requests ! 0; c = b_sent demo_two_requests ! 1; w = demo_world [];
       pay = double_mult (city_price demo_prices (frame_city s) 0) (of_int 10)
   in \<exists>w' f1 f2 l. serve ref_engine [(4, [Received s, Received c])] w = Some w' \<and>
    rd_rows (db_client w') = rd_rows (db_client w) \<and>
    outbox w' = outbox w @ [(f1, Chars l), (f2, Doubles [pay, of_int 10])] \<and>
    (\<forall>bbb i j. loop_inv bbb \<and> m_status bbb = BBB_ON \<and> m_connected bbb = BBB_NOT_CONNECTED \<and>
        answers i s BBB_ON \<and> i_answer i = Got l \<and> answers j c BBB_OFF \<and> i_payment j = Some [pay, of_int 10] \<longrightarrow>
      (\<exists>bbb' h m sec. bbb_main [i, j] bbb = Some (Go_on bbb') \<and>
        m_log bbb' = m_log bbb @ [Wait_button, Write_stm [BBB_ON], Connect, Send_server s, Parked_at (frame_city s),
          Wait_button, Write_stm [BBB_OFF], Send_server c, Receipt (h, m, sec, pay), Close_server] \<and>
        h * 3600 + m * 60 + sec = 10 mod 86400))"
  unfolding Let_def
proof (rule parking_end_to_end [OF demo_two_requests_reachable _ _ _ demo_two_requests_sent(2,3)
      ref.sqlite_contract_axioms demo_session_world])
  show "length demo_mac = 6" by (simp add: demo_mac_def)
  show "b_sent demo_two_requests ! 0 \<in> set (b_sent demo_two_requests)"
    "b_sent demo_two_requests ! 1 \<in> set (b_sent demo_two_requests)"
    using demo_two_requests_sent(1) by simp_all
  show "\<forall>r\<in>set (rd_rows (db_client (demo_world []))). p_mac r \<noteq> mac_text demo_mac"
    by (simp add: demo_world_def demo_db_def)
  show "10 = connected_for (demo_world []) 0" by (simp add: connected_for_def demo_world_def)
qed simp_all

section \<open>Parking in a fleet\<close>

text \<open>
  The whole system, with all its vehicles. Take a start and a close frame that an STM board
  has sent, for a vehicle that is not parked, and a fresh connection of it among others. Whatever the
  other connections, with the frames of other vehicles, and the backup thread do between any
  two steps of its thread, the server sends on its socket the city and the bill of the seconds
  between the clock readings of its start and its close, and leaves no row of it; a BBB that
  receives these frames from its board and these answers from the server shows that city and
  a receipt with these seconds (up to whole days) and their price in that city.
\<close>

theorem fleet_parking_end_to_end:
  assumes "reachable mac b" and "length mac = 6" and "s \<in> set (b_sent b)" and "c \<in> set (b_sent b)"
    and "s ! 0 = ON" and "c ! 0 = OFF"
    and "sqlite_contract eng tbl prices healthy" and "0 \<le> sint start"
    and "calm tbl healthy prices ps i (mac_text mac) sys"
    and "s_threads sys ! i = (Receiving, thread_start (zeroed_client\<lparr>client_fd := fd\<rparr>))"
    and "\<forall>r\<in>set (tbl (db_client (s_world sys))). p_mac r \<noteq> mac_text mac"
    and "list_all (elsewhere i (mac_text mac)) (l1 @ l2 @ l3 @ l4 @ l5 @ l6 @ l7 @ l8)"
    and "length (s_threads sys) + accepts (l1 @ l2 @ l3 @ l4 @ l5 @ l6 @ l7 @ l8) \<le> SERVER_MAX_NUM_CLIENTS"
  shows "\<exists>s1 s2 s3 l o1 o2 o3 used pay.
    run_schedule eng start (Receive i (Received s) # l1 @ Act i # l2) sys = Some s1 \<and>
    run_schedule eng start (Act i # l3 @ Act i # l4 @ Act i # l5 @ Receive i (Received c) # l6) s1 = Some s2 \<and>
    run_schedule eng start (Act i # l7 @ Act i # l8 @ [Act i]) s2 = Some s3 \<and>
    used = clock (s_world sys) (ticks (s_world s2)) - clock (s_world sys) (ticks (s_world s1)) \<and>
    pay = double_mult (city_price ps (frame_city s) 0) (of_int used) \<and>
    outbox (s_world s3) = outbox (s_world sys) @ o1 @ [(fd, Chars l)] @ o2 @ [(fd, Doubles [pay, of_int used])] @ o3 \<and>
    rows_of (mac_text mac) (tbl (db_client (s_world s3))) = [] \<and>
    (\<forall>bbb p q. loop_inv bbb \<and> m_status bbb = BBB_ON \<and> m_connected bbb = BBB_NOT_CONNECTED \<and>
        answers p s BBB_ON \<and> i_answer p = Got l \<and> answers q c BBB_OFF \<and> i_payment q = Some [pay, of_int used] \<longrightarrow>
      (\<exists>bbb' h m sec. bbb_main [p, q] bbb = Some (Go_on bbb') \<and>
        m_log bbb' = m_log bbb @ [Wait_button, Write_stm [BBB_ON], Connect, Send_server s, Parked_at (frame_city s),
          Wait_button, Write_stm [BBB_OFF], Send_server c, Receipt (h, m, sec, pay), Close_server] \<and>
        h * 3600 + m * 60 + sec = used mod 86400))"
proof -
  have g: "good_frame mac s" "good_frame mac c" using sent_good [OF assms(1,2)] assms(3,4) by simp_all
  note cs = good_frame_city [OF g(1)]
  have "parking_frames s c (tbl (db_client (s_world sys)))"
    using g assms(5,6,11) good_frame_city(3) by (auto simp: parking_frames_def good_frame_def stm_defs status_defs)
  from interleaved_parking [OF assms(7) _ assms(8,10) this, unfolded cs(3), OF assms(9,12,13)]
  obtain s1 s2 s3 l o1 o2 o3 used where run:
    "run_schedule eng start (Receive i (Received s) # l1 @ Act i # l2) sys = Some s1"
    "run_schedule eng start (Act i # l3 @ Act i # l4 @ Act i # l5 @ Receive i (Received c) # l6) s1 = Some s2"
    "run_schedule eng start (Act i # l7 @ Act i # l8 @ [Act i]) s2 = Some s3" and
    used: "used = clock (s_world sys) (ticks (s_world s2)) - clock (s_world sys) (ticks (s_world s1))" and
    out: "outbox (s_world s3) = outbox (s_world sys) @ o1 @ [(fd, Chars l)] @ o2 @
      [(fd, Doubles [double_mult (city_price ps (frame_city s) 0) (of_int used), of_int used])] @ o3" and
    l: "cstr l = frame_city s" and rows: "rows_of (mac_text mac) (tbl (db_client (s_world s3))) = []" by blast
  have ok: "system_ok tbl sys" using assms(9) by (simp add: calm_def)
  have 1: "system_ok tbl s1" "evolves tbl (s_world sys) (s_world s1)" "length (s_threads s1) = length (s_threads sys) + accepts (l1 @ l2)"
    using schedule_ok [OF assms(7) ok assms(8), of "Receive i (Received s) # l1 @ Act i # l2"] run(1) assms(13) by auto
  have 2: "system_ok tbl s2" "evolves tbl (s_world s1) (s_world s2)" "length (s_threads s2) = length (s_threads s1) + accepts (l3 @ l4 @ l5 @ l6)"
    using schedule_ok [OF assms(7) 1(1) assms(8), of "Act i # l3 @ Act i # l4 @ Act i # l5 @ Receive i (Received c) # l6"] run(2) assms(13) 1(3) by auto
  have 3: "evolves tbl (s_world s2) (s_world s3)"
    using schedule_ok [OF assms(7) 2(1) assms(8), of "Act i # l7 @ Act i # l8 @ [Act i]"] run(3) assms(13) 1(3) 2(3) by auto
  have "sent_more (outbox (s_world sys)) (outbox (s_world s3))"
    using sent_more_trans [OF sent_more_trans] 1(2) 2(2) 3 unfolding evolves_def by blast
  then have "msg_ok (Chars l)" using out by (auto simp: sent_more_def)
  then have l2: "length l = LOCATION_SIZE" "nul \<in> set l" using l cs(2) by (auto simp: cstr_def)
  have clk: "mono (clock (s_world sys))" "0 \<le> clock (s_world sys) (ticks (s_world s1))"
    "clock (s_world sys) (ticks (s_world s2)) < 2 ^ 31" using ok by (simp_all add: system_ok_def world_ok_def clock_ok_def)
  have "ticks (s_world s1) \<le> ticks (s_world s2)" using 2(2) by (simp add: evolves_def)
  from monoD [OF clk(1) this] clk(2,3) have range: "0 \<le> used" "used < 2 ^ 31" unfolding used by linarith+
  note relay = bbb_relays [OF range l2 l cs(2), where s = s and c = c]
  show ?thesis
    by (rule exI [of _ s1], rule exI [of _ s2], rule exI [of _ s3], rule exI [of _ l], rule exI [of _ o1], rule exI [of _ o2],
        rule exI [of _ o3], rule exI [of _ used], rule exI [of _ "double_mult (city_price ps (frame_city s) 0) (of_int used)"])
       (rule conjI [OF run(1) conjI [OF run(2) conjI [OF run(3) conjI [OF used conjI [OF refl conjI [OF out conjI [OF rows]]]]]]],
        intro allI impI, erule relay)
qed

text \<open>Two vehicles, of which the first has the board of the demonstration.\<close>

lemma demo_fleet:
  "length demo_mac = 6"
  "calm rd_rows ref_healthy rd_prices demo_prices 0 (mac_text demo_mac) (two_connected 4 5 (demo_world []))"
  "\<forall>r\<in>set (rd_rows (db_client (s_world (two_connected 4 5 (demo_world []))))). p_mac r \<noteq> mac_text demo_mac"
  "list_all (elsewhere 0 (mac_text demo_mac))
     ([Receive 1 (Received demo_other)] @ [Act 1, Backup] @ [Act 1] @ [Accept 6] @ [Backup] @ [Backup] @
      [] @ [Receive 1 (Received [])])"
proof -
  have mac: "mac_text demo_mac \<noteq> []" "frame_mac demo_other \<noteq> mac_text demo_mac"
    unfolding demo_other_text by code_simp+
  show "length demo_mac = 6" by (simp add: demo_mac_def)
  have "rows_ok 1000 []" by (simp add: rows_ok_def)
  from two_connected_calm [OF demo_session_world [OF this] mac(1)]
  show "calm rd_rows ref_healthy rd_prices demo_prices 0 (mac_text demo_mac) (two_connected 4 5 (demo_world []))" by simp
  show "\<forall>r\<in>set (rd_rows (db_client (s_world (two_connected 4 5 (demo_world []))))). p_mac r \<noteq> mac_text demo_mac"
    by (simp add: two_connected_def demo_world_def demo_db_def)
  have "length demo_other = 10" using seal_ok by (simp add: demo_other_def)
  with mac(2) show "list_all (elsewhere 0 (mac_text demo_mac))
      ([Receive 1 (Received demo_other)] @ [Act 1, Backup] @ [Act 1] @ [Accept 6] @ [Backup] @ [Backup] @
       [] @ [Receive 1 (Received [])])" by simp
qed

theorem fleet_parking_end_to_end_witness:
  "let s = b_sent demo_two_requests ! 0; c = b_sent demo_two_requests ! 1; sys = two_connected 4 5 (demo_world []) in
   \<exists>s1 s2 s3 l o1 o2 o3 used pay.
    run_schedule ref_engine 900 (Receive 0 (Received s) # [Receive 1 (Received demo_other)] @ Act 0 # [Act 1, Backup]) sys = Some s1 \<and>
    run_schedule ref_engine 900 (Act 0 # [Act 1] @ Act 0 # [Accept 6] @ Act 0 # [Backup] @ Receive 0 (Received c) # [Backup]) s1 = Some s2 \<and>
    run_schedule ref_engine 900 (Act 0 # [] @ Act 0 # [Receive 1 (Received [])] @ [Act 0]) s2 = Some s3 \<and>
    used = clock (s_world sys) (ticks (s_world s2)) - clock (s_world sys) (ticks (s_world s1)) \<and>
    pay = double_mult (city_price demo_prices (frame_city s) 0) (of_int used) \<and>
    outbox (s_world s3) = outbox (s_world sys) @ o1 @ [(4, Chars l)] @ o2 @ [(4, Doubles [pay, of_int used])] @ o3 \<and>
    rows_of (mac_text demo_mac) (rd_rows (db_client (s_world s3))) = [] \<and>
    (\<forall>bbb p q. loop_inv bbb \<and> m_status bbb = BBB_ON \<and> m_connected bbb = BBB_NOT_CONNECTED \<and>
        answers p s BBB_ON \<and> i_answer p = Got l \<and> answers q c BBB_OFF \<and> i_payment q = Some [pay, of_int used] \<longrightarrow>
      (\<exists>bbb' h m sec. bbb_main [p, q] bbb = Some (Go_on bbb') \<and>
        m_log bbb' = m_log bbb @ [Wait_button, Write_stm [BBB_ON], Connect, Send_server s, Parked_at (frame_city s),
          Wait_button, Write_stm [BBB_OFF], Send_server c, Receipt (h, m, sec, pay), Close_server] \<and>
        h * 3600 + m * 60 + sec = used mod 86400))"
  unfolding Let_def
proof (rule fleet_parking_end_to_end [OF demo_two_requests_reachable demo_fleet(1) _ _ demo_two_requests_sent(2,3)
      ref.sqlite_contract_axioms _ demo_fleet(2) _ demo_fleet(3,4)])
  show "b_sent demo_two_requests ! 0 \<in> set (b_sent demo_two_requests)"
    "b_sent demo_two_requests ! 1 \<in> set (b_sent demo_two_requests)"
    using demo_two_requests_sent(1) by simp_all
qed (simp_all add: two_connected_def fresh_slot_def size_defs)

section \<open>From the button to the receipt\<close>

text \<open>
  C1: the three programs in one loop. A vehicle that is not parked has a waiting board and an idle
  BBB, and a fresh connection among others. At the first press the BBB writes a status byte; the
  board answers it within eight steps with a frame, at the second press with another. Whatever the
  other connections, with the frames of other vehicles, and the backup thread do between any two
  steps of its thread, the server answers these two frames with the city of the first and the bill
  of the seconds between its two clock readings, and leaves no row of the vehicle; the BBB
  that reads these frames and gets these answers shows the city and a receipt with these
  seconds (up to whole days) and their price in that city. The board waits again.
\<close>

theorem press_to_receipt:
  assumes "reachable mac b" and "length mac = 6" and "waiting b" and "hal_ok h1" and "hal_ok h2"
    and "sqlite_contract eng tbl prices healthy" and "0 \<le> sint start"
    and "calm tbl healthy prices ps i (mac_text mac) sys"
    and "s_threads sys ! i = (Receiving, thread_start (zeroed_client\<lparr>client_fd := fd\<rparr>))"
    and "\<forall>r\<in>set (tbl (db_client (s_world sys))). p_mac r \<noteq> mac_text mac"
    and "list_all (elsewhere i (mac_text mac)) (l1 @ l2 @ l3 @ l4 @ l5 @ l6 @ l7 @ l8)"
    and "length (s_threads sys) + accepts (l1 @ l2 @ l3 @ l4 @ l5 @ l6 @ l7 @ l8) \<le> SERVER_MAX_NUM_CLIENTS"
    and "loop_inv bbb" and "m_status bbb = BBB_ON" and "m_connected bbb = BBB_NOT_CONNECTED"
  shows "\<exists>b1 b2 s c s1 s2 s3 l o1 o2 o3 used pay.
    run_main (replicate 8 h1) (receive_byte BBB_ON rc b) = Some b1 \<and> b_sent b1 = b_sent b @ [s] \<and>
    run_main (replicate 8 h2) (receive_byte BBB_OFF rc' b1) = Some b2 \<and> b_sent b2 = b_sent b1 @ [c] \<and> waiting b2 \<and>
    run_schedule eng start (Receive i (Received s) # l1 @ Act i # l2) sys = Some s1 \<and>
    run_schedule eng start (Act i # l3 @ Act i # l4 @ Act i # l5 @ Receive i (Received c) # l6) s1 = Some s2 \<and>
    run_schedule eng start (Act i # l7 @ Act i # l8 @ [Act i]) s2 = Some s3 \<and>
    used = clock (s_world sys) (ticks (s_world s2)) - clock (s_world sys) (ticks (s_world s1)) \<and>
    pay = double_mult (city_price ps (frame_city s) 0) (of_int used) \<and>
    outbox (s_world s3) = outbox (s_world sys) @ o1 @ [(fd, Chars l)] @ o2 @ [(fd, Doubles [pay, of_int used])] @ o3 \<and>
    rows_of (mac_text mac) (tbl (db_client (s_world s3))) = [] \<and>
    (\<forall>p q. answers p s BBB_ON \<and> i_answer p = Got l \<and> answers q c BBB_OFF \<and> i_payment q = Some [pay, of_int used] \<longrightarrow>
      (\<exists>bbb' h m sec. bbb_main [p, q] bbb = Some (Go_on bbb') \<and>
        m_log bbb' = m_log bbb @ [Wait_button, Write_stm [BBB_ON], Connect, Send_server s, Parked_at (frame_city s),
          Wait_button, Write_stm [BBB_OFF], Send_server c, Receipt (h, m, sec, pay), Close_server] \<and>
        h * 3600 + m * 60 + sec = used mod 86400))"
proof -
  have bytes: "BBB_ON = ON" "BBB_OFF = OFF" by (simp_all add: bbb_status_defs stm_defs)
  obtain s b1 where 1: "run_main (replicate 8 h1) (receive_byte BBB_ON rc b) = Some b1" "b_sent b1 = b_sent b @ [s]"
    "s ! 0 = ON" "reachable mac b1" "waiting b1"
    using board_answers [OF assms(1-3) _ assms(4), of ON rc] unfolding bytes by auto
  obtain c b2 where 2: "run_main (replicate 8 h2) (receive_byte BBB_OFF rc' b1) = Some b2" "b_sent b2 = b_sent b1 @ [c]"
    "c ! 0 = OFF" "reachable mac b2" "waiting b2"
    using board_answers [OF 1(4) assms(2) 1(5) _ assms(5), of OFF rc'] unfolding bytes by auto
  have "s \<in> set (b_sent b2)" "c \<in> set (b_sent b2)" using 1(2) 2(2) by simp_all
  from fleet_parking_end_to_end [OF 2(4) assms(2) this 1(3) 2(3) assms(6-12)] obtain s1 s2 s3 l o1 o2 o3 used pay where
    run: "run_schedule eng start (Receive i (Received s) # l1 @ Act i # l2) sys = Some s1"
    "run_schedule eng start (Act i # l3 @ Act i # l4 @ Act i # l5 @ Receive i (Received c) # l6) s1 = Some s2"
    "run_schedule eng start (Act i # l7 @ Act i # l8 @ [Act i]) s2 = Some s3"
    "used = clock (s_world sys) (ticks (s_world s2)) - clock (s_world sys) (ticks (s_world s1))"
    "pay = double_mult (city_price ps (frame_city s) 0) (of_int used)"
    "outbox (s_world s3) = outbox (s_world sys) @ o1 @ [(fd, Chars l)] @ o2 @ [(fd, Doubles [pay, of_int used])] @ o3"
    "rows_of (mac_text mac) (tbl (db_client (s_world s3))) = []" and
    bbb: "\<forall>bbb p q. loop_inv bbb \<and> m_status bbb = BBB_ON \<and> m_connected bbb = BBB_NOT_CONNECTED \<and>
        answers p s BBB_ON \<and> i_answer p = Got l \<and> answers q c BBB_OFF \<and> i_payment q = Some [pay, of_int used] \<longrightarrow>
      (\<exists>bbb' h m sec. bbb_main [p, q] bbb = Some (Go_on bbb') \<and>
        m_log bbb' = m_log bbb @ [Wait_button, Write_stm [BBB_ON], Connect, Send_server s, Parked_at (frame_city s),
          Wait_button, Write_stm [BBB_OFF], Send_server c, Receipt (h, m, sec, pay), Close_server] \<and>
        h * 3600 + m * 60 + sec = used mod 86400)" by blast
  show ?thesis
    by (rule exI [of _ b1], rule exI [of _ b2], rule exI [of _ s], rule exI [of _ c], rule exI [of _ s1], rule exI [of _ s2],
        rule exI [of _ s3], rule exI [of _ l], rule exI [of _ o1], rule exI [of _ o2], rule exI [of _ o3],
        rule exI [of _ used], rule exI [of _ pay])
       (intro conjI 1(1,2) 2(1,2,5) run, use bbb assms(13-15) in blast)
qed

theorem press_to_receipt_witness:
  "let sys = two_connected 4 5 (demo_world []); bbb = bbb_start (replicate 10 0) (replicate 12 nul) [0, 0] in
   \<exists>b1 b2 s c s1 s2 s3 l o1 o2 o3 used pay.
    run_main (replicate 8 demo_hal) (receive_byte BBB_ON HAL_OK demo_board) = Some b1 \<and> b_sent b1 = b_sent demo_board @ [s] \<and>
    run_main (replicate 8 demo_hal) (receive_byte BBB_OFF HAL_OK b1) = Some b2 \<and> b_sent b2 = b_sent b1 @ [c] \<and> waiting b2 \<and>
    run_schedule ref_engine 900 (Receive 0 (Received s) # [Receive 1 (Received demo_other)] @ Act 0 # [Act 1, Backup]) sys = Some s1 \<and>
    run_schedule ref_engine 900 (Act 0 # [Act 1] @ Act 0 # [Accept 6] @ Act 0 # [Backup] @ Receive 0 (Received c) # [Backup]) s1 = Some s2 \<and>
    run_schedule ref_engine 900 (Act 0 # [] @ Act 0 # [Receive 1 (Received [])] @ [Act 0]) s2 = Some s3 \<and>
    used = clock (s_world sys) (ticks (s_world s2)) - clock (s_world sys) (ticks (s_world s1)) \<and>
    pay = double_mult (city_price demo_prices (frame_city s) 0) (of_int used) \<and>
    outbox (s_world s3) = outbox (s_world sys) @ o1 @ [(4, Chars l)] @ o2 @ [(4, Doubles [pay, of_int used])] @ o3 \<and>
    rows_of (mac_text demo_mac) (rd_rows (db_client (s_world s3))) = [] \<and>
    (\<forall>p q. answers p s BBB_ON \<and> i_answer p = Got l \<and> answers q c BBB_OFF \<and> i_payment q = Some [pay, of_int used] \<longrightarrow>
      (\<exists>bbb' h m sec. bbb_main [p, q] bbb = Some (Go_on bbb') \<and>
        m_log bbb' = m_log bbb @ [Wait_button, Write_stm [BBB_ON], Connect, Send_server s, Parked_at (frame_city s),
          Wait_button, Write_stm [BBB_OFF], Send_server c, Receipt (h, m, sec, pay), Close_server] \<and>
        h * 3600 + m * 60 + sec = used mod 86400))"
  unfolding Let_def
proof (rule press_to_receipt [OF demo_board_reachable demo_fleet(1) _ _ _ ref.sqlite_contract_axioms _ demo_fleet(2) _ demo_fleet(3,4)])
  show "waiting demo_board" by (simp add: waiting_def demo_board_fields)
  show "loop_inv (bbb_start (replicate 10 0) (replicate 12 nul) [0, 0])" by (rule bbb_start_inv) simp_all
qed (simp_all add: two_connected_def fresh_slot_def size_defs hal_ok_def demo_hal_def bbb_start_def bbb_flag_defs)

end
